(* ===== verification/Prelude.thy ===== *)
theory Prelude
  imports Main "HOL-Library.Word" "HOL-Library.AList"
begin

text \<open>
  What the components share: the machine types of the Rust sources (unsigned words, byte
  buffers, fixed-size addresses, time), big-endian fields, and slices and in-place copies of
  byte buffers.

  Conventions.  \<^verbatim>\<open>uN\<close> is a word of that width; \<open>+\<close> and \<open>-\<close> wrap, which is
  \<^verbatim>\<open>wrapping_add\<close>/\<^verbatim>\<open>wrapping_sub\<close> and also what \<^verbatim>\<open>+\<close> does in a release
  build.  \<^verbatim>\<open>usize\<close> is \<open>nat\<close>.  \<^verbatim>\<open>Instant\<close> and \<^verbatim>\<open>Duration\<close> are nanosecond
  counts; \<open>nat\<close> subtraction stops at zero as \<^verbatim>\<open>duration_since\<close> does.
\<close>

unbundle bit_operations_syntax

section \<open>Machine types\<close>

type_synonym u8 = "8 word"
type_synonym u16 = "16 word"
type_synonym u32 = "32 word"
type_synonym bytes = "8 word list"
type_synonym instant = nat
type_synonym duration = nat

text \<open>\<^verbatim>\<open>[u8; 4]\<close> and \<^verbatim>\<open>[u8; 6]\<close>: arrays of a fixed length are tuples.\<close>

type_synonym ip4 = "u8 \<times> u8 \<times> u8 \<times> u8"
type_synonym mac = "u8 \<times> u8 \<times> u8 \<times> u8 \<times> u8 \<times> u8"

definition from_secs :: "nat \<Rightarrow> duration" where
  "from_secs n = n * 1000000000"

named_theorems wire_simps
named_theorems const_defs

section \<open>Byte buffers\<close>

text \<open>\<^verbatim>\<open>&xs[a..b]\<close>\<close>

definition slice :: "nat \<Rightarrow> nat \<Rightarrow> 'a list \<Rightarrow> 'a list" where
  "slice a b xs = take (b - a) (drop a xs)"

text \<open>\<^verbatim>\<open>buf[i..i + ys.len()].copy_from_slice(&ys)\<close>\<close>

definition copy_at :: "nat \<Rightarrow> 'a list \<Rightarrow> 'a list \<Rightarrow> 'a list" where
  "copy_at i ys buf = take i buf @ ys @ drop (i + length ys) buf"

lemma length_slice [simp]: "b \<le> length xs \<Longrightarrow> length (slice a b xs) = b - a"
  by (auto simp: slice_def)

lemma slice_append_mid [simp]:
  "length xs = a \<Longrightarrow> b = a + length ys \<Longrightarrow> slice a b (xs @ ys @ zs) = ys"
  by (simp add: slice_def)

lemma slice_Cons [wire_simps]:
  "slice (Suc a) (Suc b) (x # xs) = slice a b xs"
  "slice 0 (Suc b) (x # xs) = x # slice 0 b xs"
  "slice a 0 xs = []"
  by (simp_all add: slice_def)

lemma length_copy_at [simp]:
  "i + length ys \<le> length buf \<Longrightarrow> length (copy_at i ys buf) = length buf"
  by (simp add: copy_at_def)

lemma copy_at_mid: "length xs = i \<Longrightarrow> length ys = length zs \<Longrightarrow>
    copy_at i ys (xs @ zs @ ws) = xs @ ys @ ws"
  by (simp add: copy_at_def)

lemma copy_at_Cons [wire_simps]:
  "copy_at (Suc i) ys (x # xs) = x # copy_at i ys xs"
  "copy_at 0 [] xs = xs"
  "copy_at 0 (y # ys) (x # xs) = y # copy_at 0 ys xs"
  by (simp_all add: copy_at_def)

text \<open>
  A zeroed buffer (\<^verbatim>\<open>vec![0u8; n]\<close>) filled from left to right: what is written so far,
  then zeros.  Used with \<open>append_assoc\<close> off, so that the written part stays in front.
\<close>

lemma copy_at_fill:
  "length pre = i \<Longrightarrow> length ys \<le> n \<Longrightarrow>
     copy_at i ys (pre @ replicate n x) = (pre @ ys) @ replicate (n - length ys) x"
  "length ys \<le> n \<Longrightarrow> copy_at 0 ys (replicate n x) = ys @ replicate (n - length ys) x"
  by (simp_all add: copy_at_def)

lemma update_fill:
  "length pre = i \<Longrightarrow> 0 < n \<Longrightarrow>
     (pre @ replicate n x)[i := y] = (pre @ [y]) @ replicate (n - 1) x"
  "0 < n \<Longrightarrow> (replicate n x)[0 := y] = [y] @ replicate (n - 1) x"
  by (cases n; simp add: list_update_append)+

lemmas buffer_fill = copy_at_fill update_fill

lemma split_at_mid:
  assumes "i + n \<le> length xs"
  shows "xs = take i xs @ slice i (i + n) xs @ drop (i + n) xs"
  by (metis add.commute add_diff_cancel_left' append_take_drop_id drop_drop slice_def)

section \<open>Big-endian fields\<close>

text \<open>\<^verbatim>\<open>u16::from_be_bytes\<close>, \<^verbatim>\<open>u16::to_be_bytes\<close> and the same for \<^verbatim>\<open>u32\<close>.\<close>

definition u16_from_be :: "u8 \<Rightarrow> u8 \<Rightarrow> u16" where
  "u16_from_be a b = push_bit 8 (ucast a) OR ucast b"

definition u16_to_be :: "u16 \<Rightarrow> bytes" where
  "u16_to_be w = [ucast (drop_bit 8 w), ucast w]"

definition u32_from_be :: "u8 \<Rightarrow> u8 \<Rightarrow> u8 \<Rightarrow> u8 \<Rightarrow> u32" where
  "u32_from_be a b c d =
     push_bit 24 (ucast a) OR push_bit 16 (ucast b) OR push_bit 8 (ucast c) OR ucast d"

definition u32_to_be :: "u32 \<Rightarrow> bytes" where
  "u32_to_be w =
     [ucast (drop_bit 24 w), ucast (drop_bit 16 w), ucast (drop_bit 8 w), ucast w]"

lemma length_u16_to_be [simp]: "length (u16_to_be w) = 2"
  by (simp add: u16_to_be_def)

lemma length_u32_to_be [simp]: "length (u32_to_be w) = 4"
  by (simp add: u32_to_be_def)

lemma u16_be_roundtrip [simp]: "u16_from_be (ucast (drop_bit 8 w)) (ucast w) = w"
  unfolding u16_from_be_def by (rule bit_eqI) (auto simp: bit_simps)

lemma u32_be_roundtrip [simp]:
  "u32_from_be (ucast (drop_bit 24 w)) (ucast (drop_bit 16 w)) (ucast (drop_bit 8 w)) (ucast w) = w"
proof (rule bit_eqI)
  fix n assume "possible_bit TYPE(u32) n"
  then have "n < 32" by simp
  then consider "n < 8" | "8 \<le> n" "n < 16" | "16 \<le> n" "n < 24" | "24 \<le> n" "n < 32"
    by linarith
  then show "bit (u32_from_be (ucast (drop_bit 24 w)) (ucast (drop_bit 16 w))
      (ucast (drop_bit 8 w)) (ucast w)) n = bit w n"
    by cases (auto simp: u32_from_be_def bit_simps)
qed

lemma u16_to_from_be [simp]: "u16_to_be (u16_from_be a b) = [a, b]"
proof -
  have "ucast (drop_bit 8 (push_bit 8 (ucast a :: u16) OR ucast b)) = a"
    by (rule bit_eqI) (auto simp: bit_simps dest: bit_imp_le_length)
  moreover have "ucast (push_bit 8 (ucast a :: u16) OR ucast b) = b"
    by (rule bit_eqI) (auto simp: bit_simps)
  ultimately show ?thesis by (simp add: u16_to_be_def u16_from_be_def)
qed

lemma unat_u8_less: "unat (a :: u8) < 256"
proof -
  have "unat a < 2 ^ LENGTH(8)" by (rule unsigned_less)
  then show ?thesis by simp
qed

lemma unat_u16_less: "unat (a :: u16) < 65536"
proof -
  have "unat a < 2 ^ LENGTH(16)" by (rule unsigned_less)
  then show ?thesis by simp
qed

lemma unat_u32_less: "unat (a :: u32) < 4294967296"
proof -
  have "unat a < 2 ^ LENGTH(32)" by (rule unsigned_less)
  then show ?thesis by simp
qed

lemma unat_of_length_u8: "n < 256 \<Longrightarrow> unat (of_nat n :: u8) = n"
  by (simp add: unat_of_nat take_bit_nat_eq_self)

lemmas word_bounds = unat_u8_less unat_u16_less unat_u32_less

lemma unat_ucast_u8 [simp]:
  "unat (ucast (a :: u8) :: u16) = unat a"
  "unat (ucast (a :: u8) :: u32) = unat a"
  by (simp_all add: unsigned_ucast_eq take_bit_nat_eq_self less_trans [OF unat_u8_less])

lemma unat_ucast_u16 [simp]: "unat (ucast (a :: u16) :: u32) = unat a"
  by (simp add: unsigned_ucast_eq take_bit_nat_eq_self less_trans [OF unat_u16_less])

lemma unat_u16_from_be: "unat (u16_from_be a b) = 256 * unat a + unat b"
proof -
  have "push_bit 8 (ucast a :: u16) AND ucast b = 0"
    by (rule bit_eqI) (auto simp: bit_simps dest: bit_imp_le_length)
  then have eq: "u16_from_be a b = push_bit 8 (ucast a) + ucast b"
    by (simp add: u16_from_be_def disjunctive_add_eq_or)
  have "unat (push_bit 8 (ucast a :: u16)) = 256 * unat a"
    using unat_u8_less [of a] by (simp add: push_bit_eq_mult unat_word_ariths)
  then show ?thesis
    using unat_u8_less [of a] unat_u8_less [of b] by (simp add: eq unat_word_ariths)
qed

lemma u16_to_be_split: "\<exists>a b. u16_to_be w = [a, b] \<and> w = u16_from_be a b"
  by (simp add: u16_to_be_def)

section \<open>Addresses in a buffer\<close>

fun ip4_bytes :: "ip4 \<Rightarrow> bytes" where
  "ip4_bytes (a, b, c, d) = [a, b, c, d]"

fun mac_bytes :: "mac \<Rightarrow> bytes" where
  "mac_bytes (a, b, c, d, e, f) = [a, b, c, d, e, f]"

text \<open>\<^verbatim>\<open>ip.copy_from_slice(&data[i..i + 4])\<close> and \<^verbatim>\<open>mac.copy_from_slice(&data[i..i + 6])\<close>\<close>

definition ip4_at :: "nat \<Rightarrow> bytes \<Rightarrow> ip4" where
  "ip4_at i xs = (xs ! i, xs ! (i + 1), xs ! (i + 2), xs ! (i + 3))"

definition mac_at :: "nat \<Rightarrow> bytes \<Rightarrow> mac" where
  "mac_at i xs = (xs ! i, xs ! (i + 1), xs ! (i + 2), xs ! (i + 3), xs ! (i + 4), xs ! (i + 5))"

definition u16_at :: "nat \<Rightarrow> bytes \<Rightarrow> u16" where
  "u16_at i xs = u16_from_be (xs ! i) (xs ! (i + 1))"

definition u32_at :: "nat \<Rightarrow> bytes \<Rightarrow> u32" where
  "u32_at i xs = u32_from_be (xs ! i) (xs ! (i + 1)) (xs ! (i + 2)) (xs ! (i + 3))"

lemmas field_defs = ip4_at_def mac_at_def u16_at_def u32_at_def

lemma length_ip4_bytes [simp]: "length (ip4_bytes x) = 4"
  by (cases x) simp

lemma length_mac_bytes [simp]: "length (mac_bytes x) = 6"
  by (cases x) simp

lemma nth_skip [simp]: "n \<le> i \<Longrightarrow> length xs = n \<Longrightarrow> (xs @ ys) ! i = ys ! (i - n)"
  by (simp add: nth_append)

text \<open>Reading a field back from where it was written.\<close>

lemma ip4_at_0 [wire_simps]: "ip4_at 0 (ip4_bytes x @ ys) = x"
  by (cases x) (simp add: ip4_at_def)

lemma mac_at_0 [wire_simps]: "mac_at 0 (mac_bytes x @ ys) = x"
  by (cases x) (simp add: mac_at_def)

lemma u16_at_0 [wire_simps]: "u16_at 0 (u16_to_be w @ ys) = w"
  by (simp add: u16_at_def u16_to_be_def)

lemma u32_at_0 [wire_simps]: "u32_at 0 (u32_to_be w @ ys) = w"
  by (simp add: u32_at_def u32_to_be_def)

text \<open>Skipping what stands before the field.\<close>

lemma ip4_at_skip: "length xs \<le> i \<Longrightarrow> ip4_at i (xs @ ys) = ip4_at (i - length xs) ys"
  by (simp add: ip4_at_def nth_append Suc_diff_le)

lemma mac_at_skip: "length xs \<le> i \<Longrightarrow> mac_at i (xs @ ys) = mac_at (i - length xs) ys"
  by (simp add: mac_at_def nth_append Suc_diff_le)

lemma u16_at_skip: "length xs \<le> i \<Longrightarrow> u16_at i (xs @ ys) = u16_at (i - length xs) ys"
  by (simp add: u16_at_def nth_append Suc_diff_le)

lemma u32_at_skip: "length xs \<le> i \<Longrightarrow> u32_at i (xs @ ys) = u32_at (i - length xs) ys"
  by (simp add: u32_at_def nth_append Suc_diff_le)

lemma field_at_Cons:
  "0 < i \<Longrightarrow> ip4_at i (x # ys) = ip4_at (i - 1) ys"
  "0 < i \<Longrightarrow> mac_at i (x # ys) = mac_at (i - 1) ys"
  "0 < i \<Longrightarrow> u16_at i (x # ys) = u16_at (i - 1) ys"
  "0 < i \<Longrightarrow> u32_at i (x # ys) = u32_at (i - 1) ys"
  by (simp_all add: field_defs nth_Cons')

lemma field_at_whole [wire_simps]:
  "ip4_at 0 (ip4_bytes x) = x"
  "mac_at 0 (mac_bytes y) = y"
  "u16_at 0 (u16_to_be w) = w"
  "u32_at 0 (u32_to_be v) = v"
  using ip4_at_0 [of x "[]"] mac_at_0 [of y "[]"] u16_at_0 [of w "[]"] u32_at_0 [of v "[]"]
  by simp_all

text \<open>The bytes of a field that was read are the slice it was read from.\<close>

lemma ip4_bytes_at: "i + 4 \<le> length xs \<Longrightarrow> ip4_bytes (ip4_at i xs) = slice i (i + 4) xs"
  by (auto simp: ip4_at_def slice_def take_Suc_conv_app_nth numeral_eq_Suc intro!: nth_equalityI)

lemma mac_bytes_at: "i + 6 \<le> length xs \<Longrightarrow> mac_bytes (mac_at i xs) = slice i (i + 6) xs"
  by (auto simp: mac_at_def slice_def take_Suc_conv_app_nth numeral_eq_Suc intro!: nth_equalityI)

lemma u16_bytes_at: "i + 2 \<le> length xs \<Longrightarrow> u16_to_be (u16_at i xs) = slice i (i + 2) xs"
  by (auto simp: u16_at_def slice_def take_Suc_conv_app_nth numeral_eq_Suc intro!: nth_equalityI)

lemma u32_to_from_be [simp]: "u32_to_be (u32_from_be a b c d) = [a, b, c, d]"
proof -
  let ?w = "u32_from_be a b c d"
  have "ucast (drop_bit 24 ?w) = a" "ucast (drop_bit 16 ?w) = b" "ucast (drop_bit 8 ?w) = c"
      "ucast ?w = d"
    unfolding u32_from_be_def by (rule bit_eqI; auto simp: bit_simps dest: bit_imp_le_length)+
  then show ?thesis by (simp add: u32_to_be_def)
qed

lemma u32_bytes_at: "i + 4 \<le> length xs \<Longrightarrow> u32_to_be (u32_at i xs) = slice i (i + 4) xs"
  by (auto simp: u32_at_def slice_def take_Suc_conv_app_nth numeral_eq_Suc intro!: nth_equalityI)

lemmas bytes_of_field = ip4_bytes_at mac_bytes_at u16_bytes_at u32_bytes_at

lemma slice_drop: "a \<le> b \<Longrightarrow> slice a b xs @ drop b xs = drop a xs"
  by (metis append_take_drop_id drop_drop le_add_diff_inverse2 slice_def)

lemmas field_at_skip = ip4_at_skip mac_at_skip u16_at_skip u32_at_skip field_at_Cons

end
