(* ===== verification/Util.thy ===== *)
theory Util
  imports Prelude
begin

text \<open>
  \<^verbatim>\<open>TCP-stack/src/util.rs\<close>: the Internet checksum (RFC 1071), with the accumulator kept
  at its 32 bits, and the interface \<open>inet_checksum\<close> through which the IPv4, ICMP and TCP
  builders rely on it.  \<^verbatim>\<open>ping\<close> and \<^verbatim>\<open>traceroute\<close> carry their own copies of the
  function (theory \<open>Icmp_Tools\<close>) and interpret the same interface.
\<close>

section \<open>The code\<close>

text \<open>
  The first loop and the odd byte: \<open>i\<close> is the loop's index, \<open>s\<close> (\<^verbatim>\<open>sum\<close>) its accumulator.
\<close>

function sum_words :: "bytes \<Rightarrow> nat \<Rightarrow> u32 \<Rightarrow> u32" where
  "sum_words data i s =
     (if i + 1 < length data
      then sum_words data (i + 2) (s + ucast (u16_from_be (data ! i) (data ! (i + 1))))
      else if i < length data then s + push_bit 8 (ucast (data ! i))
      else s)"
  by pat_completeness auto
termination
  by (relation "measure (\<lambda>(data, i, s). length data - i)") auto

declare sum_words.simps [simp del]

text \<open>The second loop: \<^verbatim>\<open>while sum >> 16 != 0\<close>.\<close>

lemma unat_fold_step:
  "unat ((s AND 0xFFFF) + drop_bit 16 s) = unat s mod 65536 + unat (s :: u32) div 65536"
proof -
  have a: "unat (s AND 0xFFFF) = unat s mod 65536"
  proof -
    have "s AND 0xFFFF = take_bit 16 s"
      by (simp add: take_bit_eq_mask mask_eq_exp_minus_1)
    then show ?thesis by (simp add: take_bit_eq_mod unat_mod)
  qed
  have b: "unat (drop_bit 16 s) = unat s div 65536"
    by (simp add: drop_bit_eq_div unat_div)
  have "unat s div 65536 < 65536" and "unat s mod 65536 < 65536"
    using unat_u32_less [of s] by auto
  then show ?thesis by (simp add: unat_word_ariths a b)
qed

lemma drop_bit_16_eq_0_iff: "drop_bit 16 (s :: u32) = 0 \<longleftrightarrow> unat s < 65536"
proof -
  have "drop_bit 16 s = 0 \<longleftrightarrow> unat (drop_bit 16 s) = 0" by (rule unat_eq_0 [symmetric])
  also have "\<dots> \<longleftrightarrow> unat s div 65536 = 0" by (simp add: drop_bit_eq_div unat_div)
  finally show ?thesis by (simp add: div_eq_0_iff)
qed

function fold_carries :: "u32 \<Rightarrow> u32" where
  "fold_carries s =
     (if drop_bit 16 s \<noteq> 0 then fold_carries ((s AND 0xFFFF) + drop_bit 16 s) else s)"
  by pat_completeness auto
termination
proof (relation "measure unat")
  fix s :: u32
  assume "drop_bit 16 s \<noteq> 0"
  then have "65536 \<le> unat s" by (simp add: drop_bit_16_eq_0_iff)
  then have "unat s mod 65536 + unat s div 65536 < unat s"
    using div_mult_mod_eq [of "unat s" 65536] by linarith
  then show "((s AND 0xFFFF) + drop_bit 16 s, s) \<in> measure unat"
    by (simp only: in_measure unat_fold_step)
qed simp

declare fold_carries.simps [simp del]

definition checksum :: "bytes \<Rightarrow> u16" where
  "checksum data = NOT (ucast (fold_carries (sum_words data 0 0)))"

section \<open>What it computes\<close>

text \<open>
  The reference: the sum of the big-endian 16-bit words as an unbounded number, an odd last
  byte padded with a zero low byte.
\<close>

fun words_sum :: "bytes \<Rightarrow> nat" where
  "words_sum [] = 0"
| "words_sum [a] = 256 * unat a"
| "words_sum (a # b # xs) = 256 * unat a + unat b + words_sum xs"

lemma words_sum_append: "even (length xs) \<Longrightarrow> words_sum (xs @ ys) = words_sum xs + words_sum ys"
  by (induction xs rule: words_sum.induct) auto

lemma words_sum_bound: "words_sum xs \<le> 65535 * ((length xs + 1) div 2)"
proof (induction xs rule: words_sum.induct)
  case (2 a)
  then show ?case using unat_u8_less [of a] by simp
next
  case (3 a b xs)
  then show ?case using unat_u8_less [of a] unat_u8_less [of b] by simp
qed simp

text \<open>
  131074 bytes are 65537 words, and \<open>65537 * 0xFFFF = 2\<^sup>32 - 1\<close>: the longest buffer
  whose sum fits the 32-bit accumulator whatever it holds.
\<close>

abbreviation "max_summed \<equiv> 131074 :: nat"

lemma words_sum_less: "length xs \<le> max_summed \<Longrightarrow> words_sum xs < 4294967296"
proof -
  assume "length xs \<le> max_summed"
  then have "(length xs + 1) div 2 \<le> 65537" by linarith
  with words_sum_bound [of xs] show ?thesis by linarith
qed

lemma unat_push_bit_8: "unat (push_bit 8 (ucast (a :: u8)) :: u32) = 256 * unat a"
  using unat_u8_less [of a] by (simp add: push_bit_eq_mult unat_word_ariths)

lemma sum_words_eq: "sum_words data i s = s + of_nat (words_sum (drop i data))"
proof (induction data i s rule: sum_words.induct)
  case (1 data i s)
  consider "i + 1 < length data" | "i + 1 = length data" | "length data \<le> i" by linarith
  then show ?case
  proof cases
    case 1
    then have "drop i data = data ! i # data ! (i + 1) # drop (i + 2) data"
      by (simp add: Cons_nth_drop_Suc Suc_lessD)
    moreover have "(ucast (u16_from_be a b) :: u32) = of_nat (256 * unat a + unat b)" for a b
      by (rule word_unat_eq_iff [THEN iffD2]) (simp add: unat_u16_from_be unat_of_nat take_bit_nat_eq_self less_trans [OF unat_u16_less] flip: unat_u16_from_be)
    ultimately show ?thesis
      using "1" "1.IH" by (subst sum_words.simps) (simp del: of_nat_add of_nat_mult, simp)
  next
    case 2
    then have "drop i data = [data ! i]"
      by (simp add: Cons_nth_drop_Suc [symmetric])
    moreover have "(push_bit 8 (ucast a) :: u32) = of_nat (256 * unat a)" for a :: u8
      by (simp add: push_bit_eq_mult)
    ultimately show ?thesis using "2" by (subst sum_words.simps) simp
  next
    case 3
    then show ?thesis by (subst sum_words.simps) simp
  qed
qed


text \<open>Folding keeps the value modulo \<open>0xFFFF\<close> and keeps a non-zero sum non-zero.\<close>

lemma fold_step_mod: "(n mod 65536 + n div 65536) mod 65535 = n mod (65535 :: nat)"
proof -
  have "n = 65535 * (n div 65536) + (n mod 65536 + n div 65536)"
    using div_mult_mod_eq [of n 65536] by linarith
  then show ?thesis by (metis mod_mult_self4)
qed

lemma fold_carries_spec:
  "unat (fold_carries s) < 65536 \<and> unat (fold_carries s) mod 65535 = unat s mod 65535 \<and>
   (unat (fold_carries s) = 0 \<longleftrightarrow> unat s = 0)"
proof (induction s rule: fold_carries.induct)
  case (1 s)
  show ?case
  proof (cases "drop_bit 16 s = 0")
    case True
    then show ?thesis
      by (subst (1 2 3) fold_carries.simps) (simp add: drop_bit_16_eq_0_iff)
  next
    case False
    let ?n = "unat s mod 65536 + unat s div 65536"
    have "65536 \<le> unat s" using False by (simp add: drop_bit_16_eq_0_iff)
    then have "?n \<noteq> 0" by (simp add: div_greater_zero_iff)
    with 1 [OF False] show ?thesis
      using False \<open>65536 \<le> unat s\<close>
      by (simp add: fold_carries.simps [of s] unat_fold_step fold_step_mod)
  qed
qed

lemma unat_not_u16: "unat (NOT w :: u16) = 65535 - unat w"
proof -
  have "NOT w = -1 - w" by (simp add: not_eq_complement)
  moreover have "w \<le> -1" by (rule word_order.extremum)
  moreover have "unat (-1 :: u16) = 65535" by (simp add: unsigned_minus_1_eq_mask mask_eq_exp_minus_1)
  ultimately show ?thesis by (simp add: unat_sub)
qed

lemma unat_checksum: "unat (checksum data) = 65535 - unat (fold_carries (sum_words data 0 0))"
proof -
  have "unat (ucast (fold_carries s) :: u16) = unat (fold_carries s)" for s
    using fold_carries_spec [of s] by (simp add: unsigned_ucast_eq take_bit_nat_eq_self)
  then show ?thesis by (simp add: checksum_def unat_not_u16)
qed

lemma unat_sum_words: "length data \<le> max_summed \<Longrightarrow> unat (sum_words data 0 0) = words_sum data"
  using words_sum_less [of data]
  by (simp add: sum_words_eq unat_of_nat take_bit_nat_eq_self)

section \<open>The interface of a checksum routine\<close>

text \<open>
  What a caller may rely on: the checksum is the number that brings the word sum to a
  non-zero multiple of \<open>0xFFFF\<close>, and it reads zero exactly when the buffer already sums
  to one.
\<close>

lemma words_sum_u16: "words_sum (u16_to_be w) = unat w"
proof -
  obtain a b where "u16_to_be w = [a, b]" "w = u16_from_be a b"
    using u16_to_be_split by blast
  then show ?thesis by (simp add: unat_u16_from_be)
qed

lemma zeroed_field:
  assumes "i + 2 \<le> length buf" "buf ! i = 0" "buf ! (i + 1) = 0"
  shows "buf = take i buf @ [0, 0] @ drop (i + 2) buf"
proof -
  have "drop i buf = buf ! i # drop (Suc i) buf" "drop (Suc i) buf = buf ! (i + 1) # drop (i + 2) buf"
    using assms(1) by (simp_all add: Cons_nth_drop_Suc)
  then have "drop i buf = [0, 0] @ drop (i + 2) buf" using assms(2,3) by simp
  then show ?thesis by (metis append_take_drop_id)
qed

locale inet_checksum =
  fixes cs :: "bytes \<Rightarrow> u16"
  assumes zero_iff: "length d \<le> max_summed \<Longrightarrow>
      cs d = 0 \<longleftrightarrow> 0 < words_sum d \<and> words_sum d mod 65535 = 0"
    and completes: "length d \<le> max_summed \<Longrightarrow>
      0 < words_sum d + unat (cs d) \<and> (words_sum d + unat (cs d)) mod 65535 = 0"
begin

text \<open>Writing the checksum into its zeroed, 16-bit aligned field makes the buffer verify.\<close>

lemma fill:
  assumes "even (length pre)" and "length pre + 2 + length post \<le> max_summed"
  shows "cs (pre @ u16_to_be (cs (pre @ [0, 0] @ post)) @ post) = 0"
proof -
  let ?c = "cs (pre @ [0, 0] @ post)"
  have "words_sum (pre @ u16_to_be ?c @ post) = words_sum (pre @ [0, 0] @ post) + unat ?c"
    using assms(1) by (simp add: words_sum_append words_sum_u16)
  then show ?thesis
    using assms(2) completes [of "pre @ [0, 0] @ post"] by (simp add: zero_iff)
qed

lemma fill_at:
  assumes "even i" and "i + 2 \<le> length buf" and "length buf \<le> max_summed"
    and "buf ! i = 0" and "buf ! (i + 1) = 0"
  shows "cs (copy_at i (u16_to_be (cs buf)) buf) = 0"
proof -
  have "cs (take i buf @ u16_to_be (cs (take i buf @ [0, 0] @ drop (i + 2) buf)) @ drop (i + 2) buf) = 0"
    by (rule fill) (use assms(1-3) in auto)
  also have "take i buf @ [0, 0] @ drop (i + 2) buf = buf"
    using assms(2,4,5) by (rule zeroed_field [symmetric])
  finally show ?thesis by (simp add: copy_at_def)
qed

text \<open>Any change of a single byte of a buffer that verifies is detected.\<close>

lemma detects_byte:
  assumes ok: "cs (pre @ a # post) = 0" and neq: "a \<noteq> b"
    and len: "length (pre @ a # post) \<le> max_summed"
  shows "cs (pre @ b # post) \<noteq> 0"
proof
  assume bad: "cs (pre @ b # post) = 0"
  define w :: int where "w = (if even (length pre) then 256 else 1)"
  have diff: "int (words_sum (pre @ a # post)) - int (words_sum (pre @ b # post))
      = w * (int (unat a) - int (unat b))" for a b
    unfolding w_def
  proof (induction pre rule: words_sum.induct)
    case 1
    show ?case by (cases post rule: words_sum.cases) auto
  next
    case (2 x)
    show ?case by simp
  qed auto
  have "65535 dvd int (words_sum (pre @ a # post))" "65535 dvd int (words_sum (pre @ b # post))"
    using ok bad len by (auto simp: zero_iff mod_eq_0_iff_dvd simp flip: int_dvd_int_iff)
  then have "65535 dvd w * (int (unat a) - int (unat b))"
    using diff by (metis dvd_diff)
  moreover have "\<bar>w * (int (unat a) - int (unat b))\<bar> < 65535"
  proof -
    have "\<bar>int (unat a) - int (unat b)\<bar> \<le> 255"
      using unat_u8_less [of a] unat_u8_less [of b] by linarith
    then show ?thesis by (auto simp: w_def abs_mult)
  qed
  moreover have "w * (int (unat a) - int (unat b)) \<noteq> 0"
    using neq by (auto simp: w_def word_uint_eq_iff)
  ultimately show False
    using dvd_imp_le_int [of "w * (int (unat a) - int (unat b))" 65535] by simp
qed

end

interpretation util: inet_checksum checksum
proof
  fix d :: bytes
  assume len: "length d \<le> max_summed"
  let ?f = "unat (fold_carries (sum_words d 0 0))"
  have f: "?f < 65536" "?f mod 65535 = words_sum d mod 65535" "?f = 0 \<longleftrightarrow> words_sum d = 0"
    using fold_carries_spec [of "sum_words d 0 0"] by (simp_all add: unat_sum_words len)
  have "checksum d = 0 \<longleftrightarrow> ?f = 65535"
    using f(1) by (auto simp: unat_checksum simp flip: unat_0_iff)
  also have "\<dots> \<longleftrightarrow> ?f \<noteq> 0 \<and> ?f mod 65535 = 0"
    using f(1) by (auto elim!: dvdE simp: mod_eq_0_iff_dvd)
  finally show "checksum d = 0 \<longleftrightarrow> 0 < words_sum d \<and> words_sum d mod 65535 = 0"
    using f by auto
  have "(words_sum d + (65535 - ?f)) mod 65535 = (?f + (65535 - ?f)) mod 65535"
    by (rule mod_add_cong) (simp_all add: f(2))
  then show "0 < words_sum d + unat (checksum d) \<and>
      (words_sum d + unat (checksum d)) mod 65535 = 0"
    using f(1,3) by (auto simp: unat_checksum)
qed

section \<open>Properties\<close>

text \<open>
  Writing the computed checksum into a zeroed, 16-bit aligned field of a buffer makes the
  whole buffer verify (checksum zero), for every buffer the 32-bit accumulator can sum.  This
  is what the unit tests of the three checksum routines check on one packet.
\<close>

theorem checksum_self_verifies:
  assumes "even i" and "i + 2 \<le> length buf" and "length buf \<le> 131074"
    and "buf ! i = 0" and "buf ! (i + 1) = 0"
  shows "checksum (copy_at i (u16_to_be (checksum buf)) buf) = 0"
  using assms by (rule util.fill_at)

theorem checksum_self_verifies_witness:
  "checksum (copy_at 2 (u16_to_be (checksum [8, 0, 0, 0, 0, 0x42, 0, 1]))
     [8, 0, 0, 0, 0, 0x42, 0, 1]) = 0"
  by (rule checksum_self_verifies) simp_all

text \<open>
  (C37) No single corrupted byte goes unnoticed: if a buffer verifies, every buffer that
  differs from it in exactly one byte does not.
\<close>

theorem checksum_detects_corruption:
  assumes "checksum (pre @ a # post) = 0" and "a \<noteq> b"
    and "length (pre @ a # post) \<le> 131074"
  shows "checksum (pre @ b # post) \<noteq> 0"
  using assms by (rule util.detects_byte)

theorem checksum_detects_corruption_witness: "checksum ([0xFF, 0x00] @ 0x01 # [0xFF]) \<noteq> 0"
proof (rule checksum_detects_corruption)
  show "checksum ([0xFF, 0x00] @ 0x00 # [0xFF]) = 0"
    by (simp add: util.zero_iff)
qed simp_all

text \<open>
  The 32-bit accumulator never wraps on a buffer of at most 131074 bytes (a frame has at
  most 65536): the loop computes the unbounded sum, and folding leaves a 16-bit value
  congruent to it modulo \<open>0xFFFF\<close>, zero only for a zero sum.
\<close>

theorem checksum_accumulator_exact:
  assumes "length data \<le> 131074"
  shows "unat (sum_words data 0 0) = words_sum data \<and>
    unat (fold_carries (sum_words data 0 0)) < 65536 \<and>
    unat (fold_carries (sum_words data 0 0)) mod 65535 = words_sum data mod 65535"
  using fold_carries_spec [of "sum_words data 0 0"] by (simp add: unat_sum_words assms)

theorem checksum_accumulator_exact_witness:
  "unat (sum_words [0xFF, 0xFF, 1] 0 0) = 65791 \<and>
   unat (fold_carries (sum_words [0xFF, 0xFF, 1] 0 0)) < 65536"
  using checksum_accumulator_exact [of "[0xFF, 0xFF, 1]"] by simp

end
