(* ===== verification/Codec.thy ===== *)
theory Codec
  imports Prelude
begin

text \<open>
  The contract every wire format of the repository is held to: a builder and a parser of
  byte buffers.  \<open>wire_codec\<close> is what a sender needs (the peer's parser recovers what the
  builder wrote); \<open>strict_codec\<close> adds what a receiver needs (a buffer that parses is the one
  the builder would produce, so nothing on the wire is ignored).
\<close>

locale wire_codec =
  fixes enc :: "'a \<Rightarrow> bytes"
    and dec :: "bytes \<Rightarrow> 'a option"
    and wf :: "'a \<Rightarrow> bool"
  assumes dec_enc: "wf x \<Longrightarrow> dec (enc x) = Some x"
begin

lemma enc_inj: "wf x \<Longrightarrow> wf y \<Longrightarrow> enc x = enc y \<Longrightarrow> x = y"
  by (metis dec_enc option.inject)

lemma dec_enc_iff: "wf x \<Longrightarrow> dec (enc x) = Some y \<longleftrightarrow> y = x"
  by (auto simp: dec_enc)

end

locale strict_codec = wire_codec +
  assumes enc_dec: "dec b = Some x \<Longrightarrow> enc x = b"
begin

lemma dec_inj: "dec b = Some x \<Longrightarrow> dec c = Some x \<Longrightarrow> b = c"
  by (metis enc_dec)

lemma dec_iff: "wf x \<Longrightarrow> dec b = Some x \<longleftrightarrow> b = enc x"
  by (auto simp: dec_enc enc_dec)

end

end
