(* ===== verification/Ethernet.thy ===== *)
theory Ethernet
  imports Codec
begin

text \<open>
  \<^verbatim>\<open>TCP-stack/src/ethernet.rs\<close>: Ethernet II frames.
\<close>

section \<open>The code\<close>

definition ETH_HDR_LEN :: nat where [const_defs]: "ETH_HDR_LEN = 14"
definition ETH_TYPE_IPV4 :: u16 where [const_defs]: "ETH_TYPE_IPV4 = 0x0800"
definition ETH_TYPE_ARP :: u16 where [const_defs]: "ETH_TYPE_ARP = 0x0806"
definition BROADCAST_MAC :: mac where
  [const_defs]: "BROADCAST_MAC = (0xFF, 0xFF, 0xFF, 0xFF, 0xFF, 0xFF)"

record EthernetHdr =
  eth_dst :: mac
  eth_src :: mac
  ethertype :: u16

definition parse_frame :: "bytes \<Rightarrow> (EthernetHdr \<times> bytes) option" where
  "parse_frame data =
     (if length data < ETH_HDR_LEN then None
      else Some (\<lparr>eth_dst = mac_at 0 data, eth_src = mac_at 6 data, ethertype = u16_at 12 data\<rparr>,
                 drop ETH_HDR_LEN data))"

definition build_frame :: "mac \<Rightarrow> mac \<Rightarrow> u16 \<Rightarrow> bytes \<Rightarrow> bytes" where
  "build_frame dst src ety payload =
     mac_bytes dst @ mac_bytes src @ u16_to_be ety @ payload"

section \<open>Round trips\<close>

lemma length_build_frame [simp]: "length (build_frame d s t p) = 14 + length p"
  by (simp add: build_frame_def)

lemma parse_build_frame:
  "parse_frame (build_frame d s t p) = Some (\<lparr>eth_dst = d, eth_src = s, ethertype = t\<rparr>, p)"
  by (simp add: parse_frame_def build_frame_def const_defs field_at_skip wire_simps)

lemma parse_frame_None_iff: "parse_frame data = None \<longleftrightarrow> length data < 14"
  by (simp add: parse_frame_def const_defs)

lemma build_parse_frame:
  assumes "parse_frame data = Some (h, p)"
  shows "build_frame (eth_dst h) (eth_src h) (ethertype h) p = data"
proof -
  have len: "14 \<le> length data"
    and h: "h = \<lparr>eth_dst = mac_at 0 data, eth_src = mac_at 6 data, ethertype = u16_at 12 data\<rparr>"
    and p: "p = drop 14 data"
    using assms by (auto simp: parse_frame_def const_defs split: if_splits)
  have "build_frame (eth_dst h) (eth_src h) (ethertype h) p
      = slice 0 6 data @ slice 6 12 data @ slice 12 14 data @ drop 14 data"
    using len by (simp add: build_frame_def h p bytes_of_field)
  also have "\<dots> = data" by (simp add: slice_drop)
  finally show ?thesis .
qed

text \<open>The frame format is a strict codec.\<close>

interpretation eth: strict_codec
  "\<lambda>(h, p). build_frame (eth_dst h) (eth_src h) (ethertype h) p" parse_frame "\<lambda>_. True"
  by unfold_locales (auto simp: parse_build_frame build_parse_frame)

section \<open>Properties\<close>

text \<open>
  A buffer parses as a frame with header \<open>h\<close> and payload \<open>p\<close> exactly when it is what
  \<open>build_frame\<close> makes of \<open>h\<close> and \<open>p\<close>: building and parsing are inverse to each other, no
  byte is dropped or invented, and parsing fails only on buffers shorter than the header.
\<close>

theorem frame_codec:
  "(parse_frame data = Some (h, p) \<longleftrightarrow>
      data = build_frame (eth_dst h) (eth_src h) (ethertype h) p) \<and>
   (parse_frame data = None \<longleftrightarrow> length data < ETH_HDR_LEN)"
  using eth.dec_iff [where x = "(h, p)" and b = data] parse_frame_None_iff [of data]
  by (simp add: ETH_HDR_LEN_def)

end
