(* ===== verification/Hash_Map.thy ===== *)
theory Hash_Map
  imports Prelude
begin

text \<open>
  The model of \<^verbatim>\<open>std::collections::HashMap\<close> and the interface its clients use.

  A map is an association list with distinct keys; the order of the list stands for the
  iteration order, which Rust leaves open.  The properties proved of code that iterates
  hold for every list, hence for every order.
\<close>

type_synonym ('k, 'v) hash_map = "('k \<times> 'v) list"

definition hm_ok :: "('k, 'v) hash_map \<Rightarrow> bool" where
  "hm_ok m = distinct (map fst m)"

definition hm_new :: "('k, 'v) hash_map" where
  "hm_new = []"

definition hm_get :: "('k, 'v) hash_map \<Rightarrow> 'k \<Rightarrow> 'v option" where
  "hm_get m k = map_of m k"

definition hm_insert :: "'k \<Rightarrow> 'v \<Rightarrow> ('k, 'v) hash_map \<Rightarrow> ('k, 'v) hash_map" where
  "hm_insert k v m = AList.update k v m"

definition hm_remove :: "'k \<Rightarrow> ('k, 'v) hash_map \<Rightarrow> ('k, 'v) hash_map" where
  "hm_remove k m = filter (\<lambda>(k', _). k' \<noteq> k) m"

definition hm_contains :: "('k, 'v) hash_map \<Rightarrow> 'k \<Rightarrow> bool" where
  "hm_contains m k = (hm_get m k \<noteq> None)"

text \<open>\<^verbatim>\<open>for (k, v) in &mut m { *v = f(k, v) }\<close> and \<^verbatim>\<open>m.retain(|k, v| p(k, v))\<close>\<close>

definition hm_update_all :: "('k \<Rightarrow> 'v \<Rightarrow> 'v) \<Rightarrow> ('k, 'v) hash_map \<Rightarrow> ('k, 'v) hash_map" where
  "hm_update_all f m = map (\<lambda>(k, v). (k, f k v)) m"

definition hm_retain :: "('k \<Rightarrow> 'v \<Rightarrow> bool) \<Rightarrow> ('k, 'v) hash_map \<Rightarrow> ('k, 'v) hash_map" where
  "hm_retain p m = filter (\<lambda>(k, v). p k v) m"

section \<open>The interface\<close>

locale keyed_store =
  fixes empty :: "'m"
    and get :: "'m \<Rightarrow> 'k \<Rightarrow> 'v option"
    and insert :: "'k \<Rightarrow> 'v \<Rightarrow> 'm \<Rightarrow> 'm"
    and remove :: "'k \<Rightarrow> 'm \<Rightarrow> 'm"
    and ok :: "'m \<Rightarrow> bool"
  assumes get_empty: "get empty k = None"
    and get_insert: "get (insert k v m) k' = (if k' = k then Some v else get m k')"
    and get_remove: "get (remove k m) k' = (if k' = k then None else get m k')"
    and ok_empty: "ok empty"
    and ok_insert: "ok m \<Longrightarrow> ok (insert k v m)"
    and ok_remove: "ok m \<Longrightarrow> ok (remove k m)"
begin

lemma get_insert_same: "get (insert k v m) k = Some v"
  by (simp add: get_insert)

lemma get_insert_other: "k' \<noteq> k \<Longrightarrow> get (insert k v m) k' = get m k'"
  by (simp add: get_insert)

lemma get_remove_all: "get (fold remove ks m) k = (if k \<in> set ks then None else get m k)"
  by (induction ks arbitrary: m) (auto simp: get_remove)

lemma ok_remove_all: "ok m \<Longrightarrow> ok (fold remove ks m)"
  by (induction ks arbitrary: m) (auto simp: ok_remove)

end

lemma map_of_filter_fst:
  "map_of (filter (\<lambda>(k', _). k' \<noteq> k) m) k' = (if k' = k then None else map_of m k')"
  by (induction m) (auto split: if_splits)

lemma distinct_fst_filter: "distinct (map fst m) \<Longrightarrow> distinct (map fst (filter p m))"
  by (induction m) auto

interpretation hm: keyed_store "hm_new" hm_get hm_insert hm_remove hm_ok
  by unfold_locales
    (auto simp: hm_new_def hm_get_def hm_insert_def hm_remove_def hm_ok_def update_conv'
      map_of_filter_fst distinct_update distinct_fst_filter)

lemmas hm_simps = hm.get_empty hm.get_insert hm.get_remove

section \<open>Iteration\<close>

lemma hm_get_in_set: "hm_get m k = Some v \<Longrightarrow> (k, v) \<in> set m"
  by (simp add: hm_get_def map_of_SomeD)

lemma hm_in_set_get: "hm_ok m \<Longrightarrow> (k, v) \<in> set m \<Longrightarrow> hm_get m k = Some v"
  by (simp add: hm_get_def hm_ok_def)

lemma hm_set_iff_get: "hm_ok m \<Longrightarrow> (k, v) \<in> set m \<longleftrightarrow> hm_get m k = Some v"
  by (blast intro: hm_get_in_set hm_in_set_get)

lemma hm_get_update_all [simp]: "hm_get (hm_update_all f m) k = map_option (f k) (hm_get m k)"
  by (induction m) (auto simp: hm_get_def hm_update_all_def)

lemma hm_ok_update_all [simp]: "hm_ok (hm_update_all f m) = hm_ok m"
  by (simp add: hm_ok_def hm_update_all_def comp_def case_prod_beta')

lemma hm_ok_retain [simp]: "hm_ok m \<Longrightarrow> hm_ok (hm_retain p m)"
  by (simp add: hm_ok_def hm_retain_def distinct_fst_filter)

lemma hm_get_retain:
  assumes "hm_ok m"
  shows "hm_get (hm_retain p m) k =
    (case hm_get m k of None \<Rightarrow> None | Some v \<Rightarrow> if p k v then Some v else None)"
  using assms
proof (induction m)
  case (Cons kv m)
  obtain k' v' where kv: "kv = (k', v')" by force
  have "map_of m k' = None"
    using Cons.prems by (simp add: kv hm_ok_def map_of_eq_None_iff)
  moreover have "hm_ok m" using Cons.prems by (simp add: hm_ok_def)
  ultimately show ?case
    using Cons.IH by (auto simp: kv hm_get_def hm_retain_def split: option.splits)
qed (simp add: hm_get_def hm_retain_def)

lemma hm_keys_filter:
  assumes "hm_ok m"
  shows "k \<in> set (map fst (filter (\<lambda>(k, v). P k v) m)) \<longleftrightarrow> (\<exists>v. hm_get m k = Some v \<and> P k v)"
  using hm_set_iff_get [OF assms, of k] by force

text \<open>
  \<^verbatim>\<open>set m\<close> after an insertion: the new pair, and pairs that were there.
\<close>

lemma set_hm_insert: "set (hm_insert k v m) \<subseteq> Set.insert (k, v) (set m)"
  unfolding hm_insert_def by (induction m) auto

lemma set_hm_insert_cases:
  "x \<in> set (hm_insert k v m) \<Longrightarrow> x = (k, v) \<or> x \<in> set m"
  using set_hm_insert by fastforce

lemma set_hm_remove: "set (hm_remove k m) = {(k', v) \<in> set m. k' \<noteq> k}"
  by (auto simp: hm_remove_def)

end
