(* ===== verification/Arp.thy ===== *)
theory Arp
  imports Codec Hash_Map
begin

text \<open>
  \<^verbatim>\<open>TCP-stack/src/arp.rs\<close>: ARP packets, and the cache that maps IPv4 addresses to MAC
  addresses and holds the packets that wait for a resolution.

  \<^verbatim>\<open>lookup\<close>, \<^verbatim>\<open>insert\<close> and \<^verbatim>\<open>learn\<close> read the clock themselves
  (\<^verbatim>\<open>Instant::now()\<close>): that reading is their argument \<open>clock\<close>.
\<close>

section \<open>Packets\<close>

definition ARP_HTYPE_ETHER :: u16 where [const_defs]: "ARP_HTYPE_ETHER = 1"
definition ARP_PTYPE_IPV4 :: u16 where [const_defs]: "ARP_PTYPE_IPV4 = 0x0800"
definition ARP_HLEN_ETHER :: u8 where [const_defs]: "ARP_HLEN_ETHER = 6"
definition ARP_PLEN_IPV4 :: u8 where [const_defs]: "ARP_PLEN_IPV4 = 4"
definition ARP_OP_REQUEST :: u16 where [const_defs]: "ARP_OP_REQUEST = 1"
definition ARP_OP_REPLY :: u16 where [const_defs]: "ARP_OP_REPLY = 2"
definition ARP_PKT_LEN :: nat where [const_defs]: "ARP_PKT_LEN = 28"

definition CACHE_TTL :: duration where "CACHE_TTL = from_secs 60"
definition PENDING_RETRY_INTERVAL :: duration where "PENDING_RETRY_INTERVAL = from_secs 3"
definition MAX_RETRIES :: nat where "MAX_RETRIES = 3"

record ArpPacket =
  htype :: u16
  ptype :: u16
  hlen :: u8
  plen :: u8
  oper :: u16
  sha :: mac
  spa :: ip4
  tha :: mac
  tpa :: ip4

definition parse_arp :: "bytes \<Rightarrow> ArpPacket option" where
  "parse_arp data =
     (if length data < ARP_PKT_LEN then None
      else Some \<lparr>htype = u16_at 0 data, ptype = u16_at 2 data, hlen = data ! 4, plen = data ! 5,
                 oper = u16_at 6 data, sha = mac_at 8 data, spa = ip4_at 14 data,
                 tha = mac_at 18 data, tpa = ip4_at 24 data\<rparr>)"

definition build_arp ::
  "u16 \<Rightarrow> u16 \<Rightarrow> u8 \<Rightarrow> u8 \<Rightarrow> u16 \<Rightarrow> mac \<Rightarrow> ip4 \<Rightarrow> mac \<Rightarrow> ip4 \<Rightarrow> bytes" where
  "build_arp ht pt hl pl op sh sp th tp =
     (let buf = replicate ARP_PKT_LEN 0;
          buf = copy_at 0 (u16_to_be ht) buf;
          buf = copy_at 2 (u16_to_be pt) buf;
          buf = buf[4 := hl];
          buf = buf[5 := pl];
          buf = copy_at 6 (u16_to_be op) buf;
          buf = copy_at 8 (mac_bytes sh) buf;
          buf = copy_at 14 (ip4_bytes sp) buf;
          buf = copy_at 18 (mac_bytes th) buf;
          buf = copy_at 24 (ip4_bytes tp) buf
      in buf)"

definition build_arp_reply :: "mac \<Rightarrow> ip4 \<Rightarrow> mac \<Rightarrow> ip4 \<Rightarrow> bytes" where
  "build_arp_reply sh sp th tp =
     build_arp ARP_HTYPE_ETHER ARP_PTYPE_IPV4 ARP_HLEN_ETHER ARP_PLEN_IPV4 ARP_OP_REPLY sh sp th tp"

definition build_arp_request :: "mac \<Rightarrow> ip4 \<Rightarrow> ip4 \<Rightarrow> bytes" where
  "build_arp_request sh sp tp =
     build_arp ARP_HTYPE_ETHER ARP_PTYPE_IPV4 ARP_HLEN_ETHER ARP_PLEN_IPV4 ARP_OP_REQUEST sh sp
       (0, 0, 0, 0, 0, 0) tp"

section \<open>The cache\<close>

record CacheEntry =
  ce_mac :: mac
  expires :: instant

record PendingEntry =
  packets :: "bytes list"
  last_request :: instant
  retries :: nat

record ArpCache =
  entries :: "(ip4, CacheEntry) hash_map"
  pending :: "(ip4, PendingEntry) hash_map"

record TickResult =
  retry_ips :: "ip4 list"
  timed_out_ips :: "ip4 list"

definition arp_new :: ArpCache where
  "arp_new = \<lparr>entries = hm_new, pending = hm_new\<rparr>"

definition arp_lookup :: "instant \<Rightarrow> ip4 \<Rightarrow> ArpCache \<Rightarrow> mac option" where
  "arp_lookup clock ip c =
     (case hm_get (entries c) ip of
        None \<Rightarrow> None
      | Some entry \<Rightarrow> if expires entry < clock then None else Some (ce_mac entry))"

definition arp_insert :: "instant \<Rightarrow> ip4 \<Rightarrow> mac \<Rightarrow> ArpCache \<Rightarrow> bytes list \<times> ArpCache" where
  "arp_insert clock ip m c =
     (let c = c\<lparr>entries := hm_insert ip \<lparr>ce_mac = m, expires = clock + CACHE_TTL\<rparr> (entries c)\<rparr>
      in (case hm_get (pending c) ip of None \<Rightarrow> [] | Some p \<Rightarrow> packets p,
          c\<lparr>pending := hm_remove ip (pending c)\<rparr>))"

definition arp_learn :: "instant \<Rightarrow> ip4 \<Rightarrow> mac \<Rightarrow> ArpCache \<Rightarrow> ArpCache" where
  "arp_learn clock ip m c =
     (if ip = (0, 0, 0, 0) \<or> m = (0, 0, 0, 0, 0, 0) then c
      else c\<lparr>entries := hm_insert ip \<lparr>ce_mac = m, expires = clock + CACHE_TTL\<rparr> (entries c)\<rparr>)"

definition queue_packet :: "ip4 \<Rightarrow> bytes \<Rightarrow> instant \<Rightarrow> ArpCache \<Rightarrow> bool \<times> ArpCache" where
  "queue_packet ip packet now c =
     (let is_new = \<not> hm_contains (pending c) ip;
          entry = (case hm_get (pending c) ip of
                     None \<Rightarrow> \<lparr>packets = [], last_request = now, retries = 0\<rparr>
                   | Some e \<Rightarrow> e)
      in (is_new, c\<lparr>pending := hm_insert ip (entry\<lparr>packets := packets entry @ [packet]\<rparr>) (pending c)\<rparr>))"

text \<open>The loop of \<^verbatim>\<open>tick\<close>: one pending entry, pushed on one of the two result vectors.\<close>

definition tick_entry :: "instant \<Rightarrow> ip4 \<times> PendingEntry \<Rightarrow> TickResult \<Rightarrow> TickResult" where
  "tick_entry now = (\<lambda>(ip, entry) r.
     if retries entry \<ge> MAX_RETRIES
     then if now - last_request entry \<ge> PENDING_RETRY_INTERVAL
          then r\<lparr>timed_out_ips := timed_out_ips r @ [ip]\<rparr> else r
     else if last_request entry + PENDING_RETRY_INTERVAL \<le> now
          then r\<lparr>retry_ips := retry_ips r @ [ip]\<rparr> else r)"

definition arp_tick :: "instant \<Rightarrow> ArpCache \<Rightarrow> TickResult \<times> ArpCache" where
  "arp_tick now c =
     (let r = fold (tick_entry now) (pending c) \<lparr>retry_ips = [], timed_out_ips = []\<rparr>
      in (r, c\<lparr>pending := fold hm_remove (timed_out_ips r) (pending c)\<rparr>))"

definition record_request :: "ip4 \<Rightarrow> instant \<Rightarrow> ArpCache \<Rightarrow> ArpCache" where
  "record_request ip now c =
     (case hm_get (pending c) ip of
        Some entry \<Rightarrow>
          c\<lparr>pending := hm_insert ip (entry\<lparr>last_request := now, retries := retries entry + 1\<rparr>)
                        (pending c)\<rparr>
      | None \<Rightarrow>
          c\<lparr>pending := hm_insert ip \<lparr>packets = [], last_request = now, retries = 1\<rparr> (pending c)\<rparr>)"

section \<open>Packets: round trip\<close>

lemma build_arp_eq:
  "build_arp ht pt hl pl op sh sp th tp =
     u16_to_be ht @ u16_to_be pt @ [hl, pl] @ u16_to_be op @ mac_bytes sh @ ip4_bytes sp @
     mac_bytes th @ ip4_bytes tp"
  unfolding build_arp_def ARP_PKT_LEN_def Let_def
  by (simp add: buffer_fill del: append_assoc)

lemma length_build_arp [simp]: "length (build_arp ht pt hl pl op sh sp th tp) = 28"
  by (simp add: build_arp_eq)

lemma parse_build_arp:
  "parse_arp (build_arp ht pt hl pl op sh sp th tp @ padding) =
     Some \<lparr>htype = ht, ptype = pt, hlen = hl, plen = pl, oper = op, sha = sh, spa = sp,
           tha = th, tpa = tp\<rparr>"
  by (simp add: parse_arp_def build_arp_eq const_defs field_at_skip wire_simps nth_append)


lemma parse_build_arp_exact:
  "parse_arp (build_arp ht pt hl pl op sh sp th tp) =
     Some \<lparr>htype = ht, ptype = pt, hlen = hl, plen = pl, oper = op, sha = sh, spa = sp,
           tha = th, tpa = tp\<rparr>"
  using parse_build_arp [where padding = "[]"] by simp

interpretation arp_codec: wire_codec
  "\<lambda>p. build_arp (htype p) (ptype p) (hlen p) (plen p) (oper p) (sha p) (spa p) (tha p) (tpa p)"
  parse_arp "\<lambda>_. True"
  by unfold_locales (simp add: parse_build_arp_exact)

section \<open>The cache: what each operation does\<close>

text \<open>The packets that wait for the resolution of an address.\<close>

definition waiting :: "ArpCache \<Rightarrow> ip4 \<Rightarrow> bytes list" where
  "waiting c ip = (case hm_get (pending c) ip of None \<Rightarrow> [] | Some p \<Rightarrow> packets p)"

lemma fold_tick_entry:
  "fold (tick_entry now) ps r =
     \<lparr>retry_ips = retry_ips r @ map fst (filter (\<lambda>(ip, e). retries e < MAX_RETRIES \<and>
          last_request e + PENDING_RETRY_INTERVAL \<le> now) ps),
      timed_out_ips = timed_out_ips r @ map fst (filter (\<lambda>(ip, e). MAX_RETRIES \<le> retries e \<and>
          PENDING_RETRY_INTERVAL \<le> now - last_request e) ps)\<rparr>"
proof (induction ps arbitrary: r)
  case (Cons p ps)
  obtain ip e where p: "p = (ip, e)" by (rule prod.exhaust)
  have "tick_entry now (ip, e) r =
    (if MAX_RETRIES \<le> retries e
     then if PENDING_RETRY_INTERVAL \<le> now - last_request e
          then r\<lparr>timed_out_ips := timed_out_ips r @ [ip]\<rparr> else r
     else if last_request e + PENDING_RETRY_INTERVAL \<le> now
          then r\<lparr>retry_ips := retry_ips r @ [ip]\<rparr> else r)"
    by (simp add: tick_entry_def)
  then show ?case by (simp add: p Cons.IH)
qed simp

lemma arp_tick_retry:
  assumes "hm_ok (pending c)"
  shows "ip \<in> set (retry_ips (fst (arp_tick now c))) \<longleftrightarrow>
    (\<exists>e. hm_get (pending c) ip = Some e \<and> retries e < MAX_RETRIES \<and>
         last_request e + PENDING_RETRY_INTERVAL \<le> now)"
  using hm_keys_filter [OF assms]
  by (simp add: arp_tick_def fold_tick_entry Let_def del: set_map set_filter)

lemma arp_tick_timed_out:
  assumes "hm_ok (pending c)"
  shows "ip \<in> set (timed_out_ips (fst (arp_tick now c))) \<longleftrightarrow>
    (\<exists>e. hm_get (pending c) ip = Some e \<and> MAX_RETRIES \<le> retries e \<and>
         PENDING_RETRY_INTERVAL \<le> now - last_request e)"
  using hm_keys_filter [OF assms]
  by (simp add: arp_tick_def fold_tick_entry Let_def del: set_map set_filter)

lemma arp_tick_pending:
  "hm_get (pending (snd (arp_tick now c))) ip =
     (if ip \<in> set (timed_out_ips (fst (arp_tick now c))) then None else hm_get (pending c) ip)"
  by (simp add: arp_tick_def Let_def hm.get_remove_all)

lemma arp_tick_entries [simp]: "entries (snd (arp_tick now c)) = entries c"
  by (simp add: arp_tick_def Let_def)

text \<open>The state of a cache is well formed: no key twice, no entry retried too often.\<close>

definition arp_inv :: "ArpCache \<Rightarrow> bool" where
  "arp_inv c = (hm_ok (entries c) \<and> hm_ok (pending c) \<and>
     (\<forall>(ip, e) \<in> set (pending c). retries e \<le> MAX_RETRIES))"

lemma arp_inv_pending: "arp_inv c \<Longrightarrow> hm_get (pending c) ip = Some e \<Longrightarrow> retries e \<le> MAX_RETRIES"
  by (auto simp: arp_inv_def dest: hm_get_in_set)

lemma arp_inv_in_set: "arp_inv c \<Longrightarrow> (ip, e) \<in> set (pending c) \<Longrightarrow> retries e \<le> MAX_RETRIES"
  by (auto simp: arp_inv_def)

lemma arp_inv_oks: "arp_inv c \<Longrightarrow> hm_ok (entries c)" "arp_inv c \<Longrightarrow> hm_ok (pending c)"
  by (simp_all add: arp_inv_def)

lemma arp_inv_new: "arp_inv arp_new"
  by (simp add: arp_inv_def arp_new_def hm_new_def hm_ok_def)

lemma arp_inv_learn: "arp_inv c \<Longrightarrow> arp_inv (arp_learn t ip m c)"
  by (simp add: arp_inv_def arp_learn_def hm.ok_insert)

lemma arp_inv_insert: "arp_inv c \<Longrightarrow> arp_inv (snd (arp_insert t ip m c))"
  by (auto simp: arp_inv_def arp_insert_def Let_def hm.ok_insert hm.ok_remove set_hm_remove)

lemma arp_inv_queue_packet: "arp_inv c \<Longrightarrow> arp_inv (snd (queue_packet ip p now c))"
  by (auto simp: arp_inv_pending arp_inv_def [of "c\<lparr>pending := _\<rparr>"] queue_packet_def Let_def
      arp_inv_oks hm.ok_insert dest!: set_hm_insert_cases split: option.split
      dest: arp_inv_in_set)

lemma set_fold_remove: "set (fold hm_remove ks m) \<subseteq> set m"
proof (induction ks arbitrary: m)
  case (Cons k ks)
  have "set (fold hm_remove ks (hm_remove k m)) \<subseteq> set (hm_remove k m)" by (rule Cons.IH)
  then show ?case by (auto simp: set_hm_remove)
qed simp

lemma arp_inv_tick: "arp_inv c \<Longrightarrow> arp_inv (snd (arp_tick now c))"
  using set_fold_remove by (fastforce simp: arp_inv_def arp_tick_def Let_def hm.ok_remove_all)

lemma arp_inv_record_request:
  assumes "arp_inv c" and "\<And>e. hm_get (pending c) ip = Some e \<Longrightarrow> retries e < MAX_RETRIES"
  shows "arp_inv (record_request ip now c)"
  using assms
  by (auto simp: arp_inv_def record_request_def hm.ok_insert MAX_RETRIES_def
      dest!: set_hm_insert_cases split: option.splits)

section \<open>The interface the stack relies on\<close>

text \<open>
  A neighbour cache: addresses that are known for \<open>ttl\<close> after they were learnt, and a queue
  of packets per address that is not.
\<close>

locale neighbour_cache =
  fixes lookup :: "instant \<Rightarrow> 'ip \<Rightarrow> 'c \<Rightarrow> 'mac option"
    and insert :: "instant \<Rightarrow> 'ip \<Rightarrow> 'mac \<Rightarrow> 'c \<Rightarrow> 'pkt list \<times> 'c"
    and queue :: "'ip \<Rightarrow> 'pkt \<Rightarrow> instant \<Rightarrow> 'c \<Rightarrow> bool \<times> 'c"
    and waits :: "'c \<Rightarrow> 'ip \<Rightarrow> 'pkt list"
    and ttl :: duration
  assumes lookup_insert: "lookup t' ip' (snd (insert t ip m c)) =
      (if ip' = ip then if t' \<le> t + ttl then Some m else None else lookup t' ip' c)"
    and insert_drains: "fst (insert t ip m c) = waits c ip"
    and waits_insert: "waits (snd (insert t ip m c)) ip' = (if ip' = ip then [] else waits c ip')"
    and lookup_queue: "lookup t' ip' (snd (queue ip p t c)) = lookup t' ip' c"
    and waits_queue: "waits (snd (queue ip p t c)) ip' =
      (if ip' = ip then waits c ip @ [p] else waits c ip')"
begin

definition queue_all :: "('ip \<times> 'pkt \<times> instant) list \<Rightarrow> 'c \<Rightarrow> 'c" where
  "queue_all qs c = fold (\<lambda>(ip, p, t) c. snd (queue ip p t c)) qs c"

lemma waits_queue_all:
  "waits (queue_all qs c) ip = waits c ip @ [p. (ip', p, t) \<leftarrow> qs, ip' = ip]"
proof (induction qs arbitrary: c)
  case (Cons q qs)
  obtain ip' p t where "q = (ip', p, t)" by (rule prod_cases3)
  with Cons [of "snd (queue ip' p t c)"] show ?case by (simp add: queue_all_def waits_queue)
qed (simp add: queue_all_def)

lemma lookup_queue_all: "lookup t ip (queue_all qs c) = lookup t ip c"
proof (induction qs arbitrary: c)
  case (Cons q qs)
  obtain ip' p t' where "q = (ip', p, t')" by (rule prod_cases3)
  with Cons [of "snd (queue ip' p t' c)"] show ?case by (simp add: queue_all_def lookup_queue)
qed (simp add: queue_all_def)

lemma fifo:
  "fst (insert t ip m (queue_all qs c)) = waits c ip @ [p. (ip', p, t) \<leftarrow> qs, ip' = ip]"
  by (simp add: insert_drains waits_queue_all)

lemma others_keep_waiting:
  "ip' \<noteq> ip \<Longrightarrow> waits (snd (insert t ip m (queue_all qs c))) ip' = waits (queue_all qs c) ip'"
  by (simp add: waits_insert)

end

lemma waiting_queue_packet:
  "waiting (snd (queue_packet ip p now c)) ip' =
     (if ip' = ip then waiting c ip @ [p] else waiting c ip')"
  by (simp add: waiting_def queue_packet_def Let_def hm_simps split: option.split)

interpretation arp: neighbour_cache arp_lookup arp_insert queue_packet waiting CACHE_TTL
proof
  show "waiting (snd (queue_packet ip p t c)) ip' =
      (if ip' = ip then waiting c ip @ [p] else waiting c ip')" for ip p t c ip'
    by (rule waiting_queue_packet)
  show "fst (arp_insert t ip m c) = waiting c ip" for t ip m c
    by (simp add: arp_insert_def waiting_def Let_def)
qed (simp_all add: arp_lookup_def arp_insert_def queue_packet_def waiting_def Let_def hm_simps
    not_less)

section \<open>Properties\<close>

text \<open>
  What \<open>build_arp_request\<close> and \<open>build_arp_reply\<close> put on the wire is read back field by
  field by \<open>parse_arp\<close>, whatever padding the link appends.
\<close>

theorem arp_packets_roundtrip:
  "parse_arp (build_arp_request sh sp tp @ padding) =
     Some \<lparr>htype = 1, ptype = 0x0800, hlen = 6, plen = 4, oper = ARP_OP_REQUEST, sha = sh, spa = sp,
           tha = (0, 0, 0, 0, 0, 0), tpa = tp\<rparr> \<and>
   parse_arp (build_arp_reply sh sp th tp @ padding) =
     Some \<lparr>htype = 1, ptype = 0x0800, hlen = 6, plen = 4, oper = ARP_OP_REPLY, sha = sh, spa = sp,
           tha = th, tpa = tp\<rparr>"
  by (simp add: build_arp_request_def build_arp_reply_def parse_build_arp const_defs)

text \<open>
  The cache answers with the address last inserted until exactly \<open>CACHE_TTL\<close> later and
  not after, and an insertion changes no other address; \<open>learn\<close> does the same but ignores
  the zero addresses and drains nothing.
\<close>

theorem arp_cache_lookup:
  "arp_lookup t' ip' (snd (arp_insert t ip m c)) =
     (if ip' = ip then if t' \<le> t + CACHE_TTL then Some m else None else arp_lookup t' ip' c) \<and>
   arp_lookup t' ip' (arp_learn t ip m c) =
     (if ip' = ip \<and> ip \<noteq> (0, 0, 0, 0) \<and> m \<noteq> (0, 0, 0, 0, 0, 0)
      then if t' \<le> t + CACHE_TTL then Some m else None else arp_lookup t' ip' c) \<and>
   pending (arp_learn t ip m c) = pending c"
  using arp.lookup_insert [of t' ip' t ip m c]
  by (simp add: arp_lookup_def arp_learn_def hm_simps not_less)

text \<open>
  Packets that wait for a resolution are neither lost, duplicated nor reordered: after
  any interleaving of \<open>queue_packet\<close> calls for any addresses, \<open>insert\<close> for an address
  returns exactly the packets queued for it, in order, and leaves the others waiting.
\<close>

theorem arp_pending_fifo:
  "fst (arp_insert t ip m (fold (\<lambda>(ip, p, t) c. snd (queue_packet ip p t c)) qs c)) =
     waiting c ip @ [p. (ip', p, t) \<leftarrow> qs, ip' = ip] \<and>
   waiting (snd (arp_insert t ip m (fold (\<lambda>(ip, p, t) c. snd (queue_packet ip p t c)) qs c))) ip' =
     (if ip' = ip then [] else waiting c ip' @ [p. (ip'', p, t) \<leftarrow> qs, ip'' = ip'])"
  using arp.fifo [of t ip m qs c] arp.waits_insert [of t ip m "arp.queue_all qs c"]
    arp.waits_queue_all [of qs c]
  by (simp add: arp.queue_all_def)

end
