(* ===== verification/Ipv4.thy ===== *)
theory Ipv4
  imports Codec Util
begin

text \<open>
  \<^verbatim>\<open>TCP-stack/src/ip.rs\<close>: the IPv4 header and the ICMP echo reply.
\<close>

section \<open>The code\<close>

definition IP_PROTO_ICMP :: u8 where [const_defs]: "IP_PROTO_ICMP = 1"
definition IP_PROTO_TCP :: u8 where [const_defs]: "IP_PROTO_TCP = 6"
definition IP_HDR_LEN :: nat where [const_defs]: "IP_HDR_LEN = 20"
definition ICMP_ECHO_REQUEST :: u8 where [const_defs]: "ICMP_ECHO_REQUEST = 8"
definition ICMP_ECHO_REPLY :: u8 where [const_defs]: "ICMP_ECHO_REPLY = 0"
definition ICMP_HDR_SIZE :: nat where [const_defs]: "ICMP_HDR_SIZE = 8"

record Ipv4Header =
  version_ihl :: u8
  dscp_ecn :: u8
  total_len :: u16
  ip_id :: u16
  flags_frag :: u16
  ip_ttl :: u8
  protocol :: u8
  ip_checksum :: u16
  ip_src :: ip4
  ip_dst :: ip4

definition verify_ip_checksum :: "bytes \<Rightarrow> bool" where
  "verify_ip_checksum header = (checksum header = 0)"

definition parse_ipv4 :: "bytes \<Rightarrow> (Ipv4Header \<times> bytes) option" where
  "parse_ipv4 data =
     (if length data < IP_HDR_LEN then None
      else let vi = data ! 0; ihl = unat (vi AND 0x0F) * 4 in
        if ihl < IP_HDR_LEN \<or> length data < ihl then None
        else let csum = u16_at 10 data in
          if csum \<noteq> 0 \<and> \<not> verify_ip_checksum (take ihl data) then None
          else Some (\<lparr>version_ihl = vi, dscp_ecn = data ! 1, total_len = u16_at 2 data,
                      ip_id = u16_at 4 data, flags_frag = u16_at 6 data, ip_ttl = data ! 8,
                      protocol = data ! 9, ip_checksum = csum, ip_src = ip4_at 12 data,
                      ip_dst = ip4_at 16 data\<rparr>,
                     drop ihl data))"

definition build_ipv4 :: "ip4 \<Rightarrow> ip4 \<Rightarrow> u8 \<Rightarrow> u8 \<Rightarrow> bytes \<Rightarrow> bytes" where
  "build_ipv4 src dst proto ttl payload =
     (let tlen = of_nat (IP_HDR_LEN + length payload) :: u16;
          buf = [0x45] @ [0] @ u16_to_be tlen @ u16_to_be 0 @ u16_to_be 0x4000 @ [ttl] @ [proto] @
                u16_to_be 0 @ ip4_bytes src @ ip4_bytes dst @ payload;
          cs = checksum (take IP_HDR_LEN buf)
      in copy_at 10 (u16_to_be cs) buf)"

definition build_icmp_echo_reply :: "bytes \<Rightarrow> bytes option" where
  "build_icmp_echo_reply echo_request =
     (if length echo_request < ICMP_HDR_SIZE then None
      else if echo_request ! 0 \<noteq> ICMP_ECHO_REQUEST then None
      else let reply = echo_request[0 := ICMP_ECHO_REPLY, 2 := 0, 3 := 0];
               cs = checksum reply
           in Some (copy_at 2 (u16_to_be cs) reply))"

section \<open>Building\<close>

text \<open>The ten bytes before the checksum field, and the eight after it.\<close>

definition ipv4_front :: "u8 \<Rightarrow> u8 \<Rightarrow> nat \<Rightarrow> bytes" where
  "ipv4_front proto ttl n =
     [0x45, 0] @ u16_to_be (of_nat (20 + n)) @ u16_to_be 0 @ u16_to_be 0x4000 @ [ttl, proto]"

lemma length_ipv4_front [simp]: "length (ipv4_front proto ttl n) = 10"
  by (simp add: ipv4_front_def)

lemma build_ipv4_eq:
  "build_ipv4 src dst proto ttl payload =
     ipv4_front proto ttl (length payload) @
     u16_to_be (checksum (ipv4_front proto ttl (length payload) @ [0, 0] @
       ip4_bytes src @ ip4_bytes dst)) @
     ip4_bytes src @ ip4_bytes dst @ payload"
proof -
  let ?f = "ipv4_front proto ttl (length payload)"
  have z: "u16_to_be 0 = [0, 0]" by (simp add: u16_to_be_def)
  have buf: "[0x45] @ [0] @ u16_to_be (of_nat (IP_HDR_LEN + length payload)) @ u16_to_be 0 @
      u16_to_be 0x4000 @ [ttl] @ [proto] @ u16_to_be 0 @ ip4_bytes src @ ip4_bytes dst @ payload
      = ?f @ [0, 0] @ ip4_bytes src @ ip4_bytes dst @ payload"
    by (simp add: ipv4_front_def IP_HDR_LEN_def z)
  show ?thesis
    unfolding build_ipv4_def Let_def buf by (simp add: copy_at_def IP_HDR_LEN_def)
qed

lemma length_build_ipv4 [simp]: "length (build_ipv4 s d p t payload) = 20 + length payload"
  by (simp add: build_ipv4_eq)

lemma build_ipv4_verifies: "verify_ip_checksum (take 20 (build_ipv4 s d p t payload))"
  unfolding verify_ip_checksum_def
  using util.fill [of "ipv4_front p t (length payload)" "ip4_bytes s @ ip4_bytes d"]
  by (simp add: build_ipv4_eq)

definition ipv4_header_of :: "ip4 \<Rightarrow> ip4 \<Rightarrow> u8 \<Rightarrow> u8 \<Rightarrow> bytes \<Rightarrow> Ipv4Header" where
  "ipv4_header_of src dst proto ttl payload =
     \<lparr>version_ihl = 0x45, dscp_ecn = 0, total_len = of_nat (20 + length payload), ip_id = 0,
      flags_frag = 0x4000, ip_ttl = ttl, protocol = proto,
      ip_checksum = checksum (ipv4_front proto ttl (length payload) @ [0, 0] @
        ip4_bytes src @ ip4_bytes dst),
      ip_src = src, ip_dst = dst\<rparr>"

lemma parse_build_ipv4:
  "parse_ipv4 (build_ipv4 s d p t payload) = Some (ipv4_header_of s d p t payload, payload)"
proof -
  have fields:
    "build_ipv4 s d p t payload ! 0 = 0x45" "build_ipv4 s d p t payload ! Suc 0 = 0"
    "build_ipv4 s d p t payload ! 8 = t" "build_ipv4 s d p t payload ! 9 = p"
    "u16_at 2 (build_ipv4 s d p t payload) = of_nat (20 + length payload)"
    "u16_at 4 (build_ipv4 s d p t payload) = 0" "u16_at 6 (build_ipv4 s d p t payload) = 0x4000"
    by (simp_all add: build_ipv4_eq ipv4_front_def nth_append field_at_skip wire_simps)
  have tail:
    "ip4_at 12 (build_ipv4 s d p t payload) = s" "ip4_at 16 (build_ipv4 s d p t payload) = d"
    "drop 20 (build_ipv4 s d p t payload) = payload"
    "u16_at 10 (build_ipv4 s d p t payload) = ip_checksum (ipv4_header_of s d p t payload)"
    by (simp_all add: build_ipv4_eq field_at_skip wire_simps ipv4_header_of_def)
  show ?thesis
    using build_ipv4_verifies [of s d p t payload]
    by (simp add: parse_ipv4_def IP_HDR_LEN_def fields tail)
      (simp add: ipv4_header_of_def)
qed

interpretation ipv4: wire_codec
  "\<lambda>(s, d, p, t, payload). build_ipv4 s d p t payload"
  "\<lambda>b. map_option (\<lambda>(h, payload). (ip_src h, ip_dst h, protocol h, ip_ttl h, payload)) (parse_ipv4 b)"
  "\<lambda>_. True"
  by unfold_locales (auto simp: parse_build_ipv4 ipv4_header_of_def)

lemma parse_ipv4_csum:
  assumes "parse_ipv4 data \<noteq> None"
  shows "u16_at 10 data = 0 \<or> verify_ip_checksum (take (unat (data ! 0 AND 0x0F) * 4) data)"
  using assms by (auto simp: parse_ipv4_def Let_def split: if_splits)

section \<open>Echo replies\<close>

lemma build_icmp_echo_reply_Some:
  assumes "8 \<le> length req" and "req ! 0 = 8" and "length req \<le> max_summed"
    and reply: "build_icmp_echo_reply req = Some reply"
  shows "checksum reply = 0 \<and> length reply = length req \<and> reply ! 0 = 0 \<and> reply ! 1 = req ! 1 \<and>
    drop 4 reply = drop 4 req"
proof -
  let ?z = "req[0 := 0, 2 := 0, 3 := 0]"
  have ne: "req \<noteq> []" using assms(1) by auto
  have r: "reply = copy_at 2 (u16_to_be (checksum ?z)) ?z"
    using assms by (simp add: build_icmp_echo_reply_def const_defs Let_def)
  have "checksum reply = 0"
    unfolding r by (rule util.fill_at) (use assms in \<open>simp_all add: nth_list_update\<close>)
  moreover have "length reply = length req" "reply ! 0 = 0" "reply ! 1 = req ! 1"
      "drop 4 reply = drop 4 req"
    unfolding r using assms(1) ne by (simp_all add: copy_at_def nth_append drop_update_cancel)
  ultimately show ?thesis by blast
qed

section \<open>Properties\<close>

text \<open>
  Every packet \<open>build_ipv4\<close> makes carries a valid header checksum and is read back by
  \<open>parse_ipv4\<close>: addresses, protocol, TTL, flags and payload unchanged, the total length
  modulo \<open>2 ^ 16\<close>.  Building is therefore injective.
\<close>

theorem ipv4_roundtrip:
  "verify_ip_checksum (take IP_HDR_LEN (build_ipv4 src dst proto ttl payload)) \<and>
   (\<exists>csum. parse_ipv4 (build_ipv4 src dst proto ttl payload) =
     Some (\<lparr>version_ihl = 0x45, dscp_ecn = 0, total_len = of_nat (IP_HDR_LEN + length payload),
            ip_id = 0, flags_frag = 0x4000, ip_ttl = ttl, protocol = proto, ip_checksum = csum,
            ip_src = src, ip_dst = dst\<rparr>, payload))"
  using build_ipv4_verifies [of src dst proto ttl payload]
  by (simp add: parse_build_ipv4 ipv4_header_of_def IP_HDR_LEN_def)

text \<open>
  A header with a non-zero checksum field is rejected after the corruption of any one of
  its bytes but the first (the first holds the header length, hence the extent of the
  checksum), unless the corruption turns the checksum field itself into zero.
\<close>

theorem ipv4_corruption_rejected:
  assumes "verify_ip_checksum (pre @ a # post)" and "pre \<noteq> []" and "a \<noteq> b"
    and "length (pre @ a # post) = unat (hd pre AND 0x0F) * 4"
    and "u16_at 10 (pre @ b # post @ payload) \<noteq> 0"
  shows "parse_ipv4 (pre @ b # post @ payload) = None"
proof (rule ccontr)
  assume "parse_ipv4 (pre @ b # post @ payload) \<noteq> None"
  then have "verify_ip_checksum (take (unat (hd pre AND 0x0F) * 4) (pre @ b # post @ payload))"
    using parse_ipv4_csum [of "pre @ b # post @ payload"] assms(2,5)
    by (simp add: nth_append hd_conv_nth)
  then have "checksum (pre @ b # post) = 0"
    using assms(4) by (simp add: verify_ip_checksum_def flip: assms(4))
  moreover have "length (pre @ a # post) \<le> max_summed"
    using assms(4) unat_u8_less [of "hd pre AND 0x0F"] by linarith
  ultimately show False
    using util.detects_byte assms(1,3) by (simp add: verify_ip_checksum_def)
qed

theorem ipv4_corruption_rejected_witness:
  "parse_ipv4 ([0x45, 0, 0, 20, 0, 0, 0x40, 0, 64] @ 7 # [0x26, 0xE2, 10, 0, 0, 2, 10, 0, 0, 1] @ []) = None"
proof (rule ipv4_corruption_rejected)
  show "verify_ip_checksum ([0x45, 0, 0, 20, 0, 0, 0x40, 0, 64] @ 6 # [0x26, 0xE2, 10, 0, 0, 2, 10, 0, 0, 1])"
    by (simp add: verify_ip_checksum_def util.zero_iff)
qed (simp_all add: u16_at_def u16_from_be_def)

text \<open>
  The checksum test is skipped when the stored checksum is zero: any twenty bytes that
  start with \<open>0x45\<close> and have zeros in the checksum field are accepted as a header, verified
  or not.  IPv4, unlike UDP, has no such \<open>no checksum\<close> value.
\<close>

theorem ipv4_zero_checksum_unverified:
  assumes "20 \<le> length data" and "data ! 0 = 0x45" and "data ! 10 = 0" and "data ! 11 = 0"
  shows "\<exists>h. parse_ipv4 data = Some (h, drop 20 data)"
  using assms by (simp add: parse_ipv4_def IP_HDR_LEN_def u16_at_def u16_from_be_def Let_def)

theorem ipv4_zero_checksum_unverified_witness:
  "(\<exists>h. parse_ipv4 [0x45, 1, 0, 0, 0, 0, 0, 0, 0, 0, 0, 0, 0, 0, 0, 0, 0, 0, 0, 0] = Some (h, [])) \<and>
   \<not> verify_ip_checksum [0x45, 1, 0, 0, 0, 0, 0, 0, 0, 0, 0, 0, 0, 0, 0, 0, 0, 0, 0, 0]"
  using ipv4_zero_checksum_unverified [of "[0x45, 1, 0, 0, 0, 0, 0, 0, 0, 0, 0, 0, 0, 0, 0, 0, 0, 0, 0, 0]"]
  by (simp add: verify_ip_checksum_def util.zero_iff)

text \<open>
  The answer to an ICMP echo request: same length, type zero, code, identifier, sequence
  number and data unchanged, and a checksum that verifies; anything shorter than a header or
  of another type gets no answer.
\<close>

theorem icmp_echo_reply_correct:
  assumes "length req \<le> 131074"
  shows "case build_icmp_echo_reply req of
      None \<Rightarrow> length req < ICMP_HDR_SIZE \<or> req ! 0 \<noteq> ICMP_ECHO_REQUEST
    | Some reply \<Rightarrow> checksum reply = 0 \<and> length reply = length req \<and> reply ! 0 = ICMP_ECHO_REPLY \<and>
        reply ! 1 = req ! 1 \<and> drop 4 reply = drop 4 req \<and> req ! 0 = ICMP_ECHO_REQUEST"
proof (cases "length req < 8 \<or> req ! 0 \<noteq> 8")
  case True
  then show ?thesis by (auto simp: build_icmp_echo_reply_def const_defs)
next
  case False
  then obtain reply where "build_icmp_echo_reply req = Some reply"
    by (auto simp: build_icmp_echo_reply_def const_defs Let_def)
  then show ?thesis
    using False build_icmp_echo_reply_Some [of req reply] assms by (auto simp: const_defs)
qed

theorem icmp_echo_reply_correct_witness:
  "case build_icmp_echo_reply [8, 0, 0, 0, 0x12, 0x34, 0, 1, 65] of
      None \<Rightarrow> False
    | Some reply \<Rightarrow> checksum reply = 0 \<and> drop 4 reply = [0x12, 0x34, 0, 1, 65]"
  using icmp_echo_reply_correct [of "[8, 0, 0, 0, 0x12, 0x34, 0, 1, 65]"]
  by (auto simp: const_defs split: option.splits)

end
