(* ===== verification/Tcp_Segment.thy ===== *)
theory Tcp_Segment
  imports Codec Util
begin

text \<open>
  \<^verbatim>\<open>TCP-stack/src/tcp.rs\<close>, first part: TCP segments on the wire.
\<close>

section \<open>The code\<close>

definition TCP_HDR_LEN :: nat where [const_defs]: "TCP_HDR_LEN = 20"
definition TCP_FIN :: u8 where [const_defs]: "TCP_FIN = 0x01"
definition TCP_SYN :: u8 where [const_defs]: "TCP_SYN = 0x02"
definition TCP_RST :: u8 where [const_defs]: "TCP_RST = 0x04"
definition TCP_PSH :: u8 where [const_defs]: "TCP_PSH = 0x08"
definition TCP_ACK :: u8 where [const_defs]: "TCP_ACK = 0x10"
definition DEFAULT_WINDOW :: u16 where "DEFAULT_WINDOW = 65535"

record TcpHeader =
  src_port :: u16
  dst_port :: u16
  hdr_seq :: u32
  hdr_ack :: u32
  data_offset :: u8
  hdr_flags :: u8
  window :: u16
  hdr_checksum :: u16
  urgent :: u16

definition parse_tcp :: "bytes \<Rightarrow> (TcpHeader \<times> bytes) option" where
  "parse_tcp data =
     (if length data < TCP_HDR_LEN then None
      else let doff = drop_bit 4 (data ! 12); hdr_len = unat doff * 4 in
        if hdr_len < TCP_HDR_LEN \<or> length data < hdr_len then None
        else Some (\<lparr>src_port = u16_at 0 data, dst_port = u16_at 2 data, hdr_seq = u32_at 4 data,
                    hdr_ack = u32_at 8 data, data_offset = doff, hdr_flags = data ! 13,
                    window = u16_at 14 data, hdr_checksum = u16_at 16 data,
                    urgent = u16_at 18 data\<rparr>,
                   drop hdr_len data))"

definition build_tcp_header :: "u16 \<Rightarrow> u16 \<Rightarrow> u32 \<Rightarrow> u32 \<Rightarrow> u8 \<Rightarrow> u16 \<Rightarrow> bytes" where
  "build_tcp_header sport dport sq ak fl win =
     (let buf = replicate TCP_HDR_LEN 0;
          buf = copy_at 0 (u16_to_be sport) buf;
          buf = copy_at 2 (u16_to_be dport) buf;
          buf = copy_at 4 (u32_to_be sq) buf;
          buf = copy_at 8 (u32_to_be ak) buf;
          buf = buf[12 := push_bit 4 5];
          buf = buf[13 := fl];
          buf = copy_at 14 (u16_to_be win) buf
      in buf)"

text \<open>The pseudo-header, which both functions below assemble in the same way.\<close>

definition pseudo_header :: "ip4 \<Rightarrow> ip4 \<Rightarrow> nat \<Rightarrow> bytes" where
  "pseudo_header src_ip dst_ip tcp_len =
     ip4_bytes src_ip @ ip4_bytes dst_ip @ [0] @ [6] @ u16_to_be (of_nat tcp_len)"

definition build_tcp_segment ::
  "ip4 \<Rightarrow> ip4 \<Rightarrow> u16 \<Rightarrow> u16 \<Rightarrow> u32 \<Rightarrow> u32 \<Rightarrow> u8 \<Rightarrow> u16 \<Rightarrow> bytes \<Rightarrow> bytes" where
  "build_tcp_segment src_ip dst_ip sport dport sq ak fl win payload =
     (let header = build_tcp_header sport dport sq ak fl win;
          tcp_len = TCP_HDR_LEN + length payload;
          full = pseudo_header src_ip dst_ip tcp_len @ header @ payload;
          cs = checksum full;
          header = copy_at 16 (u16_to_be cs) header
      in header @ payload)"

definition verify_tcp_checksum :: "ip4 \<Rightarrow> ip4 \<Rightarrow> bytes \<Rightarrow> bool" where
  "verify_tcp_checksum src_ip dst_ip segment =
     (let tcp_len = length segment;
          full = pseudo_header src_ip dst_ip tcp_len @ segment
      in checksum full = 0)"

section \<open>Building and parsing\<close>

lemma length_pseudo_header [simp]: "length (pseudo_header s d n) = 12"
  by (simp add: pseudo_header_def)

text \<open>The sixteen bytes before the checksum field.\<close>

definition tcp_front :: "u16 \<Rightarrow> u16 \<Rightarrow> u32 \<Rightarrow> u32 \<Rightarrow> u8 \<Rightarrow> u16 \<Rightarrow> bytes" where
  "tcp_front sport dport sq ak fl win =
     u16_to_be sport @ u16_to_be dport @ u32_to_be sq @ u32_to_be ak @ [0x50, fl] @ u16_to_be win"

lemma length_tcp_front [simp]: "length (tcp_front a b c d e f) = 16"
  by (simp add: tcp_front_def)

lemma build_tcp_header_eq:
  "build_tcp_header sport dport sq ak fl win = tcp_front sport dport sq ak fl win @ [0, 0, 0, 0]"
proof -
  have "build_tcp_header sport dport sq ak fl win =
      tcp_front sport dport sq ak fl win @ replicate 4 0"
    unfolding build_tcp_header_def TCP_HDR_LEN_def Let_def
    by (simp add: buffer_fill tcp_front_def del: append_assoc)
  then show ?thesis by (simp add: numeral_eq_Suc)
qed

definition segment_checksum ::
  "ip4 \<Rightarrow> ip4 \<Rightarrow> u16 \<Rightarrow> u16 \<Rightarrow> u32 \<Rightarrow> u32 \<Rightarrow> u8 \<Rightarrow> u16 \<Rightarrow> bytes \<Rightarrow> u16" where
  "segment_checksum s d sport dport sq ak fl win payload =
     checksum ((pseudo_header s d (20 + length payload) @ tcp_front sport dport sq ak fl win) @
       [0, 0] @ [0, 0] @ payload)"

lemma build_tcp_segment_eq:
  "build_tcp_segment s d sport dport sq ak fl win payload =
     tcp_front sport dport sq ak fl win @
     u16_to_be (segment_checksum s d sport dport sq ak fl win payload) @ [0, 0] @ payload"
  by (simp add: build_tcp_segment_def build_tcp_header_eq segment_checksum_def copy_at_def
      TCP_HDR_LEN_def Let_def)

lemma length_build_tcp_segment [simp]:
  "length (build_tcp_segment s d sport dport sq ak fl win payload) = 20 + length payload"
  by (simp add: build_tcp_segment_eq)

lemma build_tcp_segment_verifies:
  assumes "length payload \<le> 131042"
  shows "verify_tcp_checksum s d (build_tcp_segment s d sport dport sq ak fl win payload)"
proof -
  let ?pre = "pseudo_header s d (20 + length payload) @ tcp_front sport dport sq ak fl win"
  have "checksum (?pre @ u16_to_be (checksum (?pre @ [0, 0] @ [0, 0] @ payload)) @ [0, 0] @ payload) = 0"
    by (rule util.fill) (use assms in auto)
  then show ?thesis
    by (simp add: verify_tcp_checksum_def Let_def build_tcp_segment_eq segment_checksum_def)
qed

lemma parse_build_tcp_segment:
  "parse_tcp (build_tcp_segment s d sport dport sq ak fl win payload) =
     Some (\<lparr>src_port = sport, dst_port = dport, hdr_seq = sq, hdr_ack = ak, data_offset = 5,
            hdr_flags = fl, window = win,
            hdr_checksum = segment_checksum s d sport dport sq ak fl win payload, urgent = 0\<rparr>,
           payload)"
proof -
  let ?seg = "build_tcp_segment s d sport dport sq ak fl win payload"
  have fields: "?seg ! 12 = 0x50" "?seg ! 13 = fl" "u16_at 0 ?seg = sport" "u16_at 2 ?seg = dport"
    "u32_at 4 ?seg = sq" "u32_at 8 ?seg = ak" "u16_at 14 ?seg = win"
    by (simp_all add: build_tcp_segment_eq tcp_front_def nth_append field_at_skip wire_simps)
  have tail: "u16_at 16 ?seg = segment_checksum s d sport dport sq ak fl win payload"
    "u16_at 18 ?seg = 0" "drop 20 ?seg = payload"
    by (simp_all add: build_tcp_segment_eq field_at_skip wire_simps)
      (simp add: u16_at_def u16_from_be_def)
  show ?thesis
    by (simp add: parse_tcp_def TCP_HDR_LEN_def fields tail)
qed

interpretation tcp_codec: wire_codec
  "\<lambda>(sport, dport, sq, ak, fl, win, payload).
     build_tcp_segment s d sport dport sq ak fl win payload"
  "\<lambda>b. map_option (\<lambda>(h, payload). (src_port h, dst_port h, hdr_seq h, hdr_ack h, hdr_flags h,
     window h, payload)) (parse_tcp b)"
  "\<lambda>_. True" for s d
  by unfold_locales (auto simp: parse_build_tcp_segment)

section \<open>Properties\<close>

text \<open>
  A segment the stack builds is accepted by the receiver's checksum test over the same
  pseudo-header and parses back to the same ports, sequence numbers, flags, window and
  payload, for every payload that leaves the 32-bit accumulator exact.
\<close>

theorem tcp_segment_roundtrip:
  assumes "length payload \<le> 131042"
  shows "verify_tcp_checksum s d (build_tcp_segment s d sport dport sq ak fl win payload) \<and>
    (\<exists>csum. parse_tcp (build_tcp_segment s d sport dport sq ak fl win payload) =
      Some (\<lparr>src_port = sport, dst_port = dport, hdr_seq = sq, hdr_ack = ak, data_offset = 5,
             hdr_flags = fl, window = win, hdr_checksum = csum, urgent = 0\<rparr>, payload))"
  using build_tcp_segment_verifies [OF assms] by (simp add: parse_build_tcp_segment)

theorem tcp_segment_roundtrip_witness:
  "verify_tcp_checksum (10, 0, 0, 2) (10, 0, 0, 1)
     (build_tcp_segment (10, 0, 0, 2) (10, 0, 0, 1) 8080 80 100 200 0x18 65535 [104, 105])"
  using tcp_segment_roundtrip [of "[104, 105]" "(10, 0, 0, 2)" "(10, 0, 0, 1)" 8080 80 100 200 "0x18" 65535]
  by simp

end
