(* ===== verification/Tcp.thy ===== *)
theory Tcp
  imports Tcp_Segment
begin

text \<open>
  \<^verbatim>\<open>TCP-stack/src/tcp.rs\<close>, second part: the transmission control block, the processing of
  a segment in each state, retransmission and close of one connection.

  A handler that mutates \<^verbatim>\<open>&mut Tcb\<close> returns the segments to send and the new block; one
  definition per arm of the \<^verbatim>\<open>match tcb.state\<close> of \<^verbatim>\<open>process_existing_tcb\<close>.  Messages
  printed on the console are left out.
\<close>

section \<open>State\<close>

definition INITIAL_RTO :: duration where "INITIAL_RTO = from_secs 1"
definition MAX_RETRANSMITS :: nat where "MAX_RETRANSMITS = 5"
definition MAX_RTO :: duration where "MAX_RTO = from_secs 60"

lemmas timer_consts = INITIAL_RTO_def MAX_RETRANSMITS_def MAX_RTO_def from_secs_def

datatype TcpState = Closed | Listen | SynSent | SynReceived | Established | FinWait1 | FinWait2
  | CloseWait | Closing | LastAck | TimeWait

record Tcb =
  local_ip :: ip4
  remote_ip :: ip4
  local_port :: u16
  remote_port :: u16
  tcb_state :: TcpState
  iss :: u32
  snd_una :: u32
  snd_nxt :: u32
  snd_wnd :: u16
  irs :: u32
  rcv_nxt :: u32
  rcv_wnd :: u16
  rto :: duration
  retransmit_at :: "instant option"
  retransmit_count :: nat
  send_buffer :: bytes
  recv_buffer :: bytes

definition new_server :: "ip4 \<Rightarrow> ip4 \<Rightarrow> u16 \<Rightarrow> u16 \<Rightarrow> Tcb" where
  "new_server lip rip lport rport =
     \<lparr>local_ip = lip, remote_ip = rip, local_port = lport, remote_port = rport,
      tcb_state = Listen, iss = 0, snd_una = 0, snd_nxt = 0, snd_wnd = 0, irs = 0, rcv_nxt = 0,
      rcv_wnd = DEFAULT_WINDOW, rto = INITIAL_RTO, retransmit_at = None, retransmit_count = 0,
      send_buffer = [], recv_buffer = []\<rparr>"

record OutgoingSegment =
  seg_flags :: u8
  seg_seq :: u32
  seg_ack :: u32
  seg_payload :: bytes
  seg_dst_port :: u16

section \<open>Segments for a connection\<close>

definition has_flag :: "TcpHeader \<Rightarrow> u8 \<Rightarrow> bool" where
  "has_flag h f = (hdr_flags h AND f \<noteq> 0)"

definition ack_segment :: "Tcb \<Rightarrow> OutgoingSegment" where
  "ack_segment t =
     \<lparr>seg_flags = TCP_ACK, seg_seq = snd_nxt t, seg_ack = rcv_nxt t, seg_payload = [],
      seg_dst_port = remote_port t\<rparr>"

definition on_SynReceived ::
  "TcpHeader \<Rightarrow> bytes \<Rightarrow> instant \<Rightarrow> Tcb \<Rightarrow> OutgoingSegment list \<times> Tcb" where
  "on_SynReceived h payload now t =
     (if has_flag h TCP_ACK \<and> hdr_ack h = snd_nxt t
      then ([], t\<lparr>tcb_state := Established, rcv_nxt := hdr_seq h + 1, snd_una := hdr_ack h,
                  retransmit_at := None, retransmit_count := 0\<rparr>)
      else if (case retransmit_at t of None \<Rightarrow> False | Some d \<Rightarrow> now \<ge> d)
      then ([\<lparr>seg_flags = TCP_SYN OR TCP_ACK, seg_seq = iss t, seg_ack = rcv_nxt t,
              seg_payload = [], seg_dst_port = remote_port t\<rparr>], t)
      else ([], t))"

text \<open>\<^verbatim>\<open>Established\<close>: the acknowledgement first, then data, SYN and FIN.\<close>

definition established_ack :: "TcpHeader \<Rightarrow> Tcb \<Rightarrow> Tcb" where
  "established_ack h t =
     (if has_flag h TCP_ACK
      then let ack_val = hdr_ack h in
        if ack_val - snd_una t > 0 \<and> ack_val - snd_nxt t \<le> 0
        then let acked = unat (ack_val - snd_una t);
                 trim = min acked (length (send_buffer t));
                 t = (if trim > 0 then t\<lparr>send_buffer := drop trim (send_buffer t)\<rparr> else t);
                 t = t\<lparr>snd_una := ack_val\<rparr>
             in if snd_una t = snd_nxt t then t\<lparr>retransmit_at := None, retransmit_count := 0\<rparr> else t
        else t
      else t)"

definition established_data ::
  "TcpHeader \<Rightarrow> bytes \<Rightarrow> Tcb \<Rightarrow> OutgoingSegment list \<times> Tcb" where
  "established_data h payload t =
     (let seg_len = of_nat (length payload) :: u32;
          syn_flag = (if has_flag h TCP_SYN then 1 else 0 :: u32);
          fin_flag = (if has_flag h TCP_FIN then 1 else 0 :: u32)
      in if (seg_len > 0 \<or> syn_flag \<noteq> 0 \<or> fin_flag \<noteq> 0) \<and> hdr_seq h = rcv_nxt t
         then let t = (if seg_len > 0 then t\<lparr>recv_buffer := recv_buffer t @ payload\<rparr> else t);
                  t = t\<lparr>rcv_nxt := hdr_seq h + (seg_len + syn_flag + fin_flag)\<rparr>;
                  out = ack_segment t
              in ([out], if fin_flag \<noteq> 0 then t\<lparr>tcb_state := CloseWait\<rparr> else t)
         else ([], t))"

definition on_Established ::
  "TcpHeader \<Rightarrow> bytes \<Rightarrow> instant \<Rightarrow> Tcb \<Rightarrow> OutgoingSegment list \<times> Tcb" where
  "on_Established h payload now t = established_data h payload (established_ack h t)"

text \<open>Data in the states that only buffer it (the tail of the two \<^verbatim>\<open>FinWait\<close> arms).\<close>

definition buffer_data :: "TcpHeader \<Rightarrow> bytes \<Rightarrow> Tcb \<Rightarrow> Tcb" where
  "buffer_data h payload t =
     (let seg_len = of_nat (length payload) :: u32
      in if seg_len > 0 \<and> hdr_seq h = rcv_nxt t
         then t\<lparr>recv_buffer := recv_buffer t @ payload, rcv_nxt := rcv_nxt t + seg_len\<rparr> else t)"

definition on_CloseWait ::
  "TcpHeader \<Rightarrow> bytes \<Rightarrow> instant \<Rightarrow> Tcb \<Rightarrow> OutgoingSegment list \<times> Tcb" where
  "on_CloseWait h payload now t =
     (let seg_len = of_nat (length payload) :: u32
      in if seg_len > 0 \<and> hdr_seq h = rcv_nxt t
         then let t = t\<lparr>recv_buffer := recv_buffer t @ payload, rcv_nxt := rcv_nxt t + seg_len\<rparr>
              in ([ack_segment t], t)
         else ([], t))"

definition on_LastAck ::
  "TcpHeader \<Rightarrow> bytes \<Rightarrow> instant \<Rightarrow> Tcb \<Rightarrow> OutgoingSegment list \<times> Tcb" where
  "on_LastAck h payload now t =
     (if has_flag h TCP_ACK then ([], t\<lparr>tcb_state := Closed, retransmit_at := None\<rparr>) else ([], t))"

definition on_FinWait1 ::
  "TcpHeader \<Rightarrow> bytes \<Rightarrow> instant \<Rightarrow> Tcb \<Rightarrow> OutgoingSegment list \<times> Tcb" where
  "on_FinWait1 h payload now t =
     (let seg_len = of_nat (length payload) :: u32
      in if has_flag h TCP_ACK
         then if hdr_ack h = snd_nxt t
              then let t = t\<lparr>snd_una := hdr_ack h, retransmit_at := None, retransmit_count := 0\<rparr>
                   in if has_flag h TCP_FIN
                      then let t = t\<lparr>rcv_nxt := hdr_seq h + (seg_len + 1), tcb_state := TimeWait,
                                     retransmit_at := Some (now + from_secs 60)\<rparr>
                           in ([ack_segment t], t)
                      else ([], buffer_data h payload (t\<lparr>tcb_state := FinWait2\<rparr>))
              else ([], buffer_data h payload t)
         else if has_flag h TCP_FIN
         then let t = t\<lparr>rcv_nxt := hdr_seq h + (seg_len + 1), tcb_state := Closing\<rparr>
              in ([ack_segment t], t)
         else ([], buffer_data h payload t))"

definition on_FinWait2 ::
  "TcpHeader \<Rightarrow> bytes \<Rightarrow> instant \<Rightarrow> Tcb \<Rightarrow> OutgoingSegment list \<times> Tcb" where
  "on_FinWait2 h payload now t =
     (let seg_len = of_nat (length payload) :: u32
      in if has_flag h TCP_FIN \<and> hdr_seq h = rcv_nxt t
         then let t = t\<lparr>rcv_nxt := hdr_seq h + (seg_len + 1), tcb_state := TimeWait,
                        retransmit_at := Some (now + from_secs 60)\<rparr>
              in ([ack_segment t], t)
         else ([], buffer_data h payload t))"

definition on_SynSent ::
  "TcpHeader \<Rightarrow> bytes \<Rightarrow> instant \<Rightarrow> Tcb \<Rightarrow> OutgoingSegment list \<times> Tcb" where
  "on_SynSent h payload now t =
     (if hdr_flags h AND (TCP_SYN OR TCP_ACK) = TCP_SYN OR TCP_ACK
      then if hdr_ack h = snd_nxt t
           then let t = t\<lparr>irs := hdr_seq h, rcv_nxt := hdr_seq h + 1, snd_una := hdr_ack h,
                          snd_wnd := window h, tcb_state := Established, retransmit_at := None,
                          retransmit_count := 0\<rparr>
                in ([ack_segment t], t)
           else ([], t)
      else if has_flag h TCP_RST then ([], t\<lparr>tcb_state := Closed\<rparr>)
      else ([], t))"

definition on_Closing ::
  "TcpHeader \<Rightarrow> bytes \<Rightarrow> instant \<Rightarrow> Tcb \<Rightarrow> OutgoingSegment list \<times> Tcb" where
  "on_Closing h payload now t =
     (if has_flag h TCP_ACK \<and> hdr_ack h = snd_nxt t
      then ([], t\<lparr>tcb_state := TimeWait, retransmit_at := Some (now + from_secs 60),
                  retransmit_count := 0\<rparr>)
      else ([], t))"

definition process_existing_tcb ::
  "Tcb \<Rightarrow> TcpHeader \<Rightarrow> bytes \<Rightarrow> instant \<Rightarrow> OutgoingSegment list \<times> Tcb" where
  "process_existing_tcb t h payload now =
     (case tcb_state t of
        SynReceived \<Rightarrow> on_SynReceived h payload now t
      | Established \<Rightarrow> on_Established h payload now t
      | CloseWait \<Rightarrow> on_CloseWait h payload now t
      | LastAck \<Rightarrow> on_LastAck h payload now t
      | FinWait1 \<Rightarrow> on_FinWait1 h payload now t
      | FinWait2 \<Rightarrow> on_FinWait2 h payload now t
      | SynSent \<Rightarrow> on_SynSent h payload now t
      | Closing \<Rightarrow> on_Closing h payload now t
      | _ \<Rightarrow> ([], t))"

section \<open>Timers and close, for one connection\<close>

text \<open>\<^verbatim>\<open>build_retransmit\<close>, its arms for data and for a FIN first.\<close>

definition retransmit_data :: "Tcb \<Rightarrow> OutgoingSegment" where
  "retransmit_data t =
     (let offset = unat (snd_una t - (iss t + 1));
          payload = (if offset < length (send_buffer t) then drop offset (send_buffer t) else [])
      in \<lparr>seg_flags = (if payload = [] then TCP_ACK else TCP_PSH OR TCP_ACK), seg_seq = snd_una t,
          seg_ack = rcv_nxt t, seg_payload = payload, seg_dst_port = remote_port t\<rparr>)"

definition retransmit_fin :: "Tcb \<Rightarrow> OutgoingSegment" where
  "retransmit_fin t =
     \<lparr>seg_flags = TCP_FIN OR TCP_ACK, seg_seq = snd_nxt t - 1, seg_ack = rcv_nxt t,
      seg_payload = [], seg_dst_port = remote_port t\<rparr>"

definition build_retransmit :: "Tcb \<Rightarrow> OutgoingSegment" where
  "build_retransmit t =
     (case tcb_state t of
        SynSent \<Rightarrow> \<lparr>seg_flags = TCP_SYN, seg_seq = iss t, seg_ack = 0, seg_payload = [],
                    seg_dst_port = remote_port t\<rparr>
      | SynReceived \<Rightarrow> \<lparr>seg_flags = TCP_SYN OR TCP_ACK, seg_seq = iss t, seg_ack = rcv_nxt t,
                    seg_payload = [], seg_dst_port = remote_port t\<rparr>
      | Established \<Rightarrow> retransmit_data t
      | CloseWait \<Rightarrow> retransmit_data t
      | FinWait1 \<Rightarrow> retransmit_fin t
      | LastAck \<Rightarrow> retransmit_fin t
      | Closing \<Rightarrow> retransmit_fin t
      | _ \<Rightarrow> \<lparr>seg_flags = TCP_ACK, seg_seq = snd_una t, seg_ack = rcv_nxt t, seg_payload = [],
              seg_dst_port = remote_port t\<rparr>)"

text \<open>
  \<^verbatim>\<open>poll_retransmit\<close>: the body of its loop for one connection (the new block, and the
  segment pushed on \<^verbatim>\<open>retransmits\<close>), and the test of the \<^verbatim>\<open>retain\<close> that follows.
\<close>

definition retransmit_one :: "instant \<Rightarrow> Tcb \<Rightarrow> OutgoingSegment option \<times> Tcb" where
  "retransmit_one now t =
     (case retransmit_at t of
        None \<Rightarrow> (None, t)
      | Some deadline \<Rightarrow>
          if now \<ge> deadline
          then if retransmit_count t \<ge> MAX_RETRANSMITS then (None, t\<lparr>tcb_state := Closed\<rparr>)
               else let t = t\<lparr>retransmit_at := Some (now + rto t)\<rparr>;
                        t = t\<lparr>rto := min (rto t * 2) MAX_RTO\<rparr>;
                        t = t\<lparr>retransmit_count := retransmit_count t + 1\<rparr>
                    in (Some (build_retransmit t), t)
          else (None, t))"

definition keep_connection :: "instant \<Rightarrow> Tcb \<Rightarrow> bool" where
  "keep_connection now t =
     (if tcb_state t = Closed then False
      else if tcb_state t = TimeWait
      then (case retransmit_at t of None \<Rightarrow> True | Some expiry \<Rightarrow> \<not> now \<ge> expiry)
      else True)"

definition fin_segment :: "Tcb \<Rightarrow> OutgoingSegment" where
  "fin_segment t =
     \<lparr>seg_flags = TCP_FIN OR TCP_ACK, seg_seq = snd_nxt t, seg_ack = rcv_nxt t, seg_payload = [],
      seg_dst_port = remote_port t\<rparr>"

definition close_tcb :: "instant \<Rightarrow> Tcb \<Rightarrow> OutgoingSegment list \<times> Tcb" where
  "close_tcb now t =
     (case tcb_state t of
        Established \<Rightarrow>
          ([fin_segment t], t\<lparr>tcb_state := FinWait1, snd_nxt := snd_nxt t + 1,
                              retransmit_at := Some (now + rto t)\<rparr>)
      | CloseWait \<Rightarrow>
          ([fin_segment t], t\<lparr>tcb_state := LastAck, snd_nxt := snd_nxt t + 1,
                              retransmit_at := Some (now + rto t)\<rparr>)
      | Closed \<Rightarrow> ([], t)
      | TimeWait \<Rightarrow> ([], t)
      | Listen \<Rightarrow> ([], t)
      | _ \<Rightarrow>
          ([\<lparr>seg_flags = TCP_RST, seg_seq = snd_nxt t, seg_ack = 0, seg_payload = [],
             seg_dst_port = remote_port t\<rparr>], t\<lparr>tcb_state := Closed\<rparr>))"

section \<open>Reading the handlers\<close>

lemmas handler_defs = on_SynReceived_def on_Established_def on_CloseWait_def on_LastAck_def
  on_FinWait1_def on_FinWait2_def on_SynSent_def on_Closing_def

text \<open>
  The acknowledgement test of \<^verbatim>\<open>Established\<close> reads \<open>\<le> 0\<close> on an unsigned difference: it
  accepts an acknowledgement of everything that was sent, and no other.
\<close>

lemma drain_front:
  "(if 0 < min n (length (send_buffer t))
    then t\<lparr>send_buffer := drop (min n (length (send_buffer t))) (send_buffer t)\<rparr> else t) =
   t\<lparr>send_buffer := drop n (send_buffer t)\<rparr>"
  by (cases "send_buffer t = [] \<or> n = 0") (auto simp: min_def)

lemma established_ack_eq:
  "established_ack h t =
     (if has_flag h TCP_ACK \<and> hdr_ack h = snd_nxt t \<and> snd_una t \<noteq> snd_nxt t
      then t\<lparr>send_buffer := drop (unat (snd_nxt t - snd_una t)) (send_buffer t),
             snd_una := snd_nxt t, retransmit_at := None, retransmit_count := 0\<rparr>
      else t)"
proof -
  have test: "(a - b > 0 \<and> a - c \<le> 0) = (a = c \<and> b \<noteq> c)" for a b c :: u32
    by (metis eq_iff_diff_eq_0 word_gt_0 word_le_0_iff)
  show ?thesis
    unfolding established_ack_def Let_def drain_front test
    by (simp only: Tcb.simps if_cancel simp_thms split: if_split) auto
qed

text \<open>What the handlers leave alone: the identity of the connection and the send side's end.\<close>

definition conn_id :: "Tcb \<Rightarrow> ip4 \<times> u16 \<times> ip4 \<times> u16" where
  "conn_id t = (local_ip t, local_port t, remote_ip t, remote_port t)"

definition fixed_part :: "Tcb \<Rightarrow> (ip4 \<times> u16 \<times> ip4 \<times> u16) \<times> u32 \<times> duration \<times> u32" where
  "fixed_part t = (conn_id t, iss t, rto t, snd_nxt t)"

lemma fixed_part_established_ack [simp]: "fixed_part (established_ack h t) = fixed_part t"
  by (simp add: established_ack_eq fixed_part_def conn_id_def)

lemma fixed_part_established_data [simp]:
  "fixed_part (snd (established_data h p t)) = fixed_part t"
  by (simp add: established_data_def Let_def fixed_part_def conn_id_def)

lemma fixed_part_buffer_data [simp]: "fixed_part (buffer_data h p t) = fixed_part t"
  by (simp add: buffer_data_def Let_def fixed_part_def conn_id_def)

lemma fixed_part_updates [simp]:
  "fixed_part (t\<lparr>tcb_state := a\<rparr>) = fixed_part t"
  "fixed_part (t\<lparr>rcv_nxt := b\<rparr>) = fixed_part t"
  "fixed_part (t\<lparr>snd_una := c\<rparr>) = fixed_part t"
  "fixed_part (t\<lparr>retransmit_at := d\<rparr>) = fixed_part t"
  "fixed_part (t\<lparr>retransmit_count := e\<rparr>) = fixed_part t"
  "fixed_part (t\<lparr>recv_buffer := f\<rparr>) = fixed_part t"
  "fixed_part (t\<lparr>irs := g\<rparr>) = fixed_part t"
  "fixed_part (t\<lparr>snd_wnd := i\<rparr>) = fixed_part t"
  by (simp_all add: fixed_part_def conn_id_def)

lemma fixed_part_process [simp]: "fixed_part (snd (process_existing_tcb t h p now)) = fixed_part t"
  unfolding process_existing_tcb_def handler_defs Let_def
  by (simp split: TcpState.split option.split)

section \<open>The invariant of a block\<close>

text \<open>
  The sequence space of the sender: between \<open>snd_una\<close> and \<open>snd_nxt\<close> lie the bytes of
  \<open>send_buffer\<close>, plus one number for an unacknowledged SYN or FIN.  \<open>Listen\<close> and
  \<open>SynReceived\<close> are never entered by this client.
\<close>

definition send_inv :: "Tcb \<Rightarrow> bool" where
  "send_inv t =
     (case tcb_state t of
        SynSent \<Rightarrow> snd_una t = iss t \<and> snd_nxt t = iss t + 1 \<and> send_buffer t = []
      | Established \<Rightarrow> snd_nxt t = snd_una t + of_nat (length (send_buffer t))
      | CloseWait \<Rightarrow> snd_nxt t = snd_una t + of_nat (length (send_buffer t))
      | FinWait1 \<Rightarrow> snd_nxt t = snd_una t + of_nat (length (send_buffer t)) + 1
      | Closing \<Rightarrow> snd_nxt t = snd_una t + of_nat (length (send_buffer t)) + 1
      | LastAck \<Rightarrow> snd_nxt t = snd_una t + of_nat (length (send_buffer t)) + 1
      | FinWait2 \<Rightarrow> snd_una t = snd_nxt t
      | TimeWait \<Rightarrow> True
      | Closed \<Rightarrow> True
      | Listen \<Rightarrow> False
      | SynReceived \<Rightarrow> False)"

definition timer_inv :: "Tcb \<Rightarrow> bool" where
  "timer_inv t =
     (INITIAL_RTO \<le> rto t \<and> rto t \<le> MAX_RTO \<and> retransmit_count t \<le> MAX_RETRANSMITS)"

definition tcb_inv :: "Tcb \<Rightarrow> bool" where
  "tcb_inv t = (send_inv t \<and> timer_inv t)"

lemma of_nat_drop_mod: "of_nat (n - unat (of_nat n :: u32)) = (0 :: u32)"
proof -
  have "n - unat (of_nat n :: u32) = n div 4294967296 * 4294967296"
    by (simp add: unat_of_nat take_bit_eq_mod minus_mod_eq_div_mult)
  then have "(of_nat (n - unat (of_nat n :: u32)) :: u32) = of_nat (n div 4294967296) * 4294967296"
    by (metis of_nat_mult of_nat_numeral)
  also have "(4294967296 :: u32) = 0" by simp
  finally show ?thesis by simp
qed

lemma send_inv_established_ack:
  assumes "tcb_state t = Established" "send_inv t"
  shows "send_inv (established_ack h t) \<and> tcb_state (established_ack h t) = Established"
  using assms of_nat_drop_mod [of "length (send_buffer t)"]
  by (simp add: established_ack_eq send_inv_def)

lemma send_inv_established_data:
  assumes "tcb_state t = Established" "send_inv t"
  shows "send_inv (snd (established_data h p t))"
  using assms by (simp add: established_data_def send_inv_def Let_def)

lemma send_inv_updates [simp]:
  "send_inv (t\<lparr>retransmit_at := a\<rparr>) = send_inv t"
  "send_inv (t\<lparr>rto := b\<rparr>) = send_inv t"
  "send_inv (t\<lparr>retransmit_count := c\<rparr>) = send_inv t"
  "send_inv (t\<lparr>recv_buffer := d\<rparr>) = send_inv t"
  "send_inv (t\<lparr>rcv_nxt := e\<rparr>) = send_inv t"
  by (cases "tcb_state t"; simp add: send_inv_def)+

lemma send_inv_buffer_data: "send_inv (buffer_data h p t) = send_inv t"
  by (simp add: buffer_data_def Let_def)

lemma send_inv_process:
  assumes "send_inv t"
  shows "send_inv (snd (process_existing_tcb t h p now))"
proof (cases "tcb_state t = Established")
  case True
  then show ?thesis
    using send_inv_established_ack [OF True assms]
    by (simp add: process_existing_tcb_def on_Established_def send_inv_established_data)
next
  case False
  then show ?thesis
    using assms
    by (cases "tcb_state t")
      (simp_all add: process_existing_tcb_def handler_defs Let_def send_inv_buffer_data,
       simp_all add: send_inv_def)
qed

lemma timer_count_process:
  assumes "retransmit_count t \<le> n"
  shows "retransmit_count (snd (process_existing_tcb t h p now)) \<le> n"
  using assms
  by (simp add: process_existing_tcb_def handler_defs Let_def established_ack_eq
      established_data_def buffer_data_def split: TcpState.split option.split)

lemma tcb_inv_process: "tcb_inv t \<Longrightarrow> tcb_inv (snd (process_existing_tcb t h p now))"
  using fixed_part_process [of t h p now]
  by (simp add: tcb_inv_def timer_inv_def send_inv_process timer_count_process fixed_part_def)

lemma send_inv_Closed [simp]: "send_inv (t\<lparr>tcb_state := Closed\<rparr>)"
  by (simp add: send_inv_def)

lemma retransmit_one_simps:
  "retransmit_at t = None \<Longrightarrow> retransmit_one now t = (None, t)"
  "retransmit_at t = Some d \<Longrightarrow> now < d \<Longrightarrow> retransmit_one now t = (None, t)"
  "retransmit_at t = Some d \<Longrightarrow> d \<le> now \<Longrightarrow> MAX_RETRANSMITS \<le> retransmit_count t \<Longrightarrow>
     retransmit_one now t = (None, t\<lparr>tcb_state := Closed\<rparr>)"
  by (simp_all add: retransmit_one_def)

lemma build_retransmit_timer [simp]:
  "build_retransmit (t\<lparr>retransmit_at := a, rto := b, retransmit_count := c\<rparr>) = build_retransmit t"
  by (simp add: build_retransmit_def retransmit_data_def retransmit_fin_def Let_def split: TcpState.split)

lemma retransmit_one_fires:
  "retransmit_at t = Some d \<Longrightarrow> d \<le> now \<Longrightarrow> retransmit_count t < MAX_RETRANSMITS \<Longrightarrow>
     retransmit_one now t = (Some (build_retransmit t),
       t\<lparr>retransmit_at := Some (now + rto t), rto := min (rto t * 2) MAX_RTO,
         retransmit_count := retransmit_count t + 1\<rparr>)"
  by (simp add: retransmit_one_def Let_def)

lemma retransmit_one_cases:
  obtains (idle) "retransmit_one now t = (None, t)"
    "\<And>d. retransmit_at t = Some d \<Longrightarrow> now < d"
  | (dead) d where "retransmit_at t = Some d" "d \<le> now" "MAX_RETRANSMITS \<le> retransmit_count t"
      "retransmit_one now t = (None, t\<lparr>tcb_state := Closed\<rparr>)"
  | (fires) d where "retransmit_at t = Some d" "d \<le> now" "retransmit_count t < MAX_RETRANSMITS"
      "retransmit_one now t = (Some (build_retransmit t),
         t\<lparr>retransmit_at := Some (now + rto t), rto := min (rto t * 2) MAX_RTO,
           retransmit_count := retransmit_count t + 1\<rparr>)"
proof (cases "retransmit_at t")
  case None
  show ?thesis by (rule idle) (simp_all add: retransmit_one_simps None)
next
  case (Some d)
  show ?thesis
  proof (cases "now < d")
    case True
    show ?thesis by (rule idle) (simp_all add: retransmit_one_simps(2) [OF Some True] Some True)
  next
    case False
    then have le: "d \<le> now" by simp
    show ?thesis
    proof (cases "retransmit_count t < MAX_RETRANSMITS")
      case True
      show ?thesis by (rule fires [OF Some le True retransmit_one_fires [OF Some le True]])
    next
      case False
      then have "MAX_RETRANSMITS \<le> retransmit_count t" by simp
      from dead [OF Some le this retransmit_one_simps(3) [OF Some le this]] show ?thesis .
    qed
  qed
qed

lemma tcb_inv_retransmit_one:
  assumes "tcb_inv t"
  shows "tcb_inv (snd (retransmit_one now t))"
proof (cases rule: retransmit_one_cases [of now t])
  case dead
  then show ?thesis using assms by (simp add: tcb_inv_def timer_inv_def)
next
  case fires
  then show ?thesis using assms by (auto simp: tcb_inv_def timer_inv_def timer_consts)
qed (use assms in simp)

lemma tcb_inv_close_tcb: "tcb_inv t \<Longrightarrow> tcb_inv (snd (close_tcb now t))"
  by (cases "tcb_state t")
    (simp_all add: close_tcb_def tcb_inv_def timer_inv_def, simp_all add: send_inv_def)

section \<open>The connection-state diagram\<close>

text \<open>
  The edges the code takes, with the event that takes them: a segment from the peer, the
  application's close, or the retransmission timer.
\<close>

datatype tcb_event = Segment TcpHeader bytes | CloseCall | Timer

definition tcb_handle :: "tcb_event \<Rightarrow> instant \<Rightarrow> Tcb \<Rightarrow> Tcb" where
  "tcb_handle e now t =
     (case e of
        Segment h p \<Rightarrow> snd (process_existing_tcb t h p now)
      | CloseCall \<Rightarrow> snd (close_tcb now t)
      | Timer \<Rightarrow> snd (retransmit_one now t))"

inductive tcp_edge :: "tcb_event \<Rightarrow> TcpState \<Rightarrow> TcpState \<Rightarrow> bool" where
  syn_ack: "has_flag h TCP_SYN \<Longrightarrow> has_flag h TCP_ACK \<Longrightarrow>
    tcp_edge (Segment h p) SynSent Established"
| refused: "has_flag h TCP_RST \<Longrightarrow> tcp_edge (Segment h p) SynSent Closed"
| peer_fin: "has_flag h TCP_FIN \<Longrightarrow> tcp_edge (Segment h p) Established CloseWait"
| active_close: "tcp_edge CloseCall Established FinWait1"
| passive_close: "tcp_edge CloseCall CloseWait LastAck"
| last_ack: "has_flag h TCP_ACK \<Longrightarrow> tcp_edge (Segment h p) LastAck Closed"
| fin_acked: "has_flag h TCP_ACK \<Longrightarrow> \<not> has_flag h TCP_FIN \<Longrightarrow>
    tcp_edge (Segment h p) FinWait1 FinWait2"
| fin_ack_fin: "has_flag h TCP_ACK \<Longrightarrow> has_flag h TCP_FIN \<Longrightarrow>
    tcp_edge (Segment h p) FinWait1 TimeWait"
| simultaneous: "\<not> has_flag h TCP_ACK \<Longrightarrow> has_flag h TCP_FIN \<Longrightarrow>
    tcp_edge (Segment h p) FinWait1 Closing"
| fin_after: "has_flag h TCP_FIN \<Longrightarrow> tcp_edge (Segment h p) FinWait2 TimeWait"
| closing_acked: "has_flag h TCP_ACK \<Longrightarrow> tcp_edge (Segment h p) Closing TimeWait"
| abort: "s \<in> {SynSent, FinWait1, FinWait2, Closing, LastAck} \<Longrightarrow> tcp_edge CloseCall s Closed"
| timeout: "s \<noteq> Closed \<Longrightarrow> tcp_edge Timer s Closed"

inductive_simps tcp_edge_from [simp]:
  "tcp_edge e Closed s" "tcp_edge e Listen s" "tcp_edge CloseCall s s'" "tcp_edge Timer s s'"

lemma syn_ack_flags:
  assumes "hdr_flags h AND (TCP_SYN OR TCP_ACK) = TCP_SYN OR TCP_ACK"
  shows "has_flag h TCP_SYN \<and> has_flag h TCP_ACK"
proof -
  have "hdr_flags h AND f = (hdr_flags h AND (TCP_SYN OR TCP_ACK)) AND f"
    if "(TCP_SYN OR TCP_ACK) AND f = f" for f
    using that by (simp add: and.assoc)
  from this [of TCP_SYN] this [of TCP_ACK] show ?thesis
    by (simp add: has_flag_def assms) (simp add: const_defs)
qed

lemma state_buffer_data [simp]: "tcb_state (buffer_data h p t) = tcb_state t"
  by (simp add: buffer_data_def Let_def)

lemma state_established_ack [simp]: "tcb_state (established_ack h t) = tcb_state t"
  by (simp add: established_ack_eq)

lemma recv_side_established_ack [simp]:
  "rcv_nxt (established_ack h t) = rcv_nxt t"
  "recv_buffer (established_ack h t) = recv_buffer t"
  by (simp_all add: established_ack_eq)

lemma tcp_edge_process:
  assumes "tcb_state t \<noteq> SynReceived"
  shows "tcb_state (snd (process_existing_tcb t h p now)) = tcb_state t \<or>
    tcp_edge (Segment h p) (tcb_state t) (tcb_state (snd (process_existing_tcb t h p now)))"
  using assms
  by (cases "tcb_state t")
    (auto simp: process_existing_tcb_def handler_defs established_data_def Let_def
      dest!: syn_ack_flags intro: tcp_edge.intros)

lemma tcp_edge_handle:
  assumes "tcb_state t \<noteq> SynReceived"
  shows "tcb_state (tcb_handle e now t) = tcb_state t \<or>
    tcp_edge e (tcb_state t) (tcb_state (tcb_handle e now t))"
proof (cases e)
  case (Segment h p)
  then show ?thesis using tcp_edge_process [OF assms] by (simp add: tcb_handle_def)
next
  case CloseCall
  then show ?thesis
    using assms by (cases "tcb_state t") (auto simp: tcb_handle_def close_tcb_def intro: tcp_edge.intros)
next
  case Timer
  then show ?thesis
    by (cases rule: retransmit_one_cases [of now t])
      (auto simp: tcb_handle_def intro: tcp_edge.intros)
qed

lemma tcb_inv_handle: "tcb_inv t \<Longrightarrow> tcb_inv (tcb_handle e now t)"
  by (simp add: tcb_handle_def tcb_inv_process tcb_inv_retransmit_one tcb_inv_close_tcb
      split: tcb_event.split)

end
