(* ===== verification/Tcp_Manager.thy ===== *)
theory Tcp_Manager
  imports Tcp Hash_Map
begin

text \<open>
  \<^verbatim>\<open>TCP-stack/src/tcp.rs\<close>, third part: \<^verbatim>\<open>TcpManager\<close>, the table of connections.
\<close>

section \<open>The code\<close>

type_synonym ConnKey = "ip4 \<times> u16 \<times> ip4 \<times> u16"

record TcpManager =
  connections :: "(ConnKey, Tcb) hash_map"

definition manager_new :: TcpManager where
  "manager_new = \<lparr>connections = hm_new\<rparr>"

definition process ::
  "ip4 \<Rightarrow> ip4 \<Rightarrow> TcpHeader \<Rightarrow> bytes \<Rightarrow> instant \<Rightarrow> TcpManager \<Rightarrow>
     (ConnKey option \<times> OutgoingSegment list) \<times> TcpManager" where
  "process lip rip h payload now m =
     (let key = (lip, dst_port h, rip, src_port h)
      in case hm_get (connections m) key of
           Some t \<Rightarrow>
             let (outgoing, t') = process_existing_tcb t h payload now
             in ((Some key, outgoing), m\<lparr>connections := hm_insert key t' (connections m)\<rparr>)
         | None \<Rightarrow>
             if hdr_flags h AND TCP_RST = 0
             then ((None,
                    [\<lparr>seg_flags = TCP_RST OR TCP_ACK,
                      seg_seq = (if has_flag h TCP_ACK then hdr_ack h else 0),
                      seg_ack = hdr_seq h +
                        (of_nat (length payload) + (if has_flag h TCP_SYN then 1 else 0)),
                      seg_payload = [], seg_dst_port = src_port h\<rparr>]), m)
             else ((None, []), m))"

definition poll_retransmit ::
  "instant \<Rightarrow> TcpManager \<Rightarrow> (ConnKey \<times> OutgoingSegment) list \<times> TcpManager" where
  "poll_retransmit now m =
     ([(key, seg). (key, t) \<leftarrow> connections m, Some seg \<leftarrow> [fst (retransmit_one now t)]],
      m\<lparr>connections := hm_retain (\<lambda>_ t. keep_connection now t)
         (hm_update_all (\<lambda>_ t. snd (retransmit_one now t)) (connections m))\<rparr>)"

definition record_sent :: "ConnKey \<Rightarrow> instant \<Rightarrow> TcpManager \<Rightarrow> TcpManager" where
  "record_sent key now m =
     (case hm_get (connections m) key of
        None \<Rightarrow> m
      | Some t \<Rightarrow>
          if retransmit_at t = None
          then m\<lparr>connections := hm_insert key (t\<lparr>retransmit_at := Some (now + rto t)\<rparr>) (connections m)\<rparr>
          else m)"

definition drain_data :: "ConnKey \<Rightarrow> TcpManager \<Rightarrow> bytes \<times> TcpManager" where
  "drain_data key m =
     (case hm_get (connections m) key of
        None \<Rightarrow> ([], m)
      | Some t \<Rightarrow>
          (recv_buffer t, m\<lparr>connections := hm_insert key (t\<lparr>recv_buffer := []\<rparr>) (connections m)\<rparr>))"

definition close :: "ConnKey \<Rightarrow> instant \<Rightarrow> TcpManager \<Rightarrow> OutgoingSegment list \<times> TcpManager" where
  "close key now m =
     (case hm_get (connections m) key of
        None \<Rightarrow> ([], m)
      | Some t \<Rightarrow>
          let (segs, t') = close_tcb now t
          in (segs, m\<lparr>connections := hm_insert key t' (connections m)\<rparr>))"

definition close_conn ::
  "ConnKey \<Rightarrow> instant \<Rightarrow> TcpManager \<Rightarrow> OutgoingSegment list \<times> TcpManager" where
  "close_conn key now m = close key now m"

definition find_src_port :: "ip4 \<Rightarrow> u16 \<Rightarrow> TcpManager \<Rightarrow> u16 option" where
  "find_src_port rip rport m =
     map_option (\<lambda>((_, port, _, _), _). port)
       (find (\<lambda>((_, _, rip', rport'), _). rip' = rip \<and> rport' = rport) (connections m))"

definition port_used :: "TcpManager \<Rightarrow> u16 \<Rightarrow> bool" where
  "port_used m port = list_ex (\<lambda>((_, lport, _, _), _). lport = port) (connections m)"

text \<open>\<^verbatim>\<open>for port in 40000..60000\<close>\<close>

function ephemeral_from :: "TcpManager \<Rightarrow> nat \<Rightarrow> u16" where
  "ephemeral_from m port =
     (if port < 60000
      then if \<not> port_used m (of_nat port) then of_nat port else ephemeral_from m (port + 1)
      else 40000)"
  by pat_completeness auto
termination
  by (relation "measure (\<lambda>(m, port). 60000 - port)") auto

declare ephemeral_from.simps [simp del]

definition next_ephemeral :: "TcpManager \<Rightarrow> u16" where
  "next_ephemeral m = ephemeral_from m 40000"

text \<open>\<open>nanos\<close> is the reading of the system clock, in nanoseconds since the epoch.\<close>

definition rand_seq :: "nat \<Rightarrow> u32" where
  "rand_seq nanos = of_nat (nanos AND 0xFFFFFFFF)"

definition initiate_connect ::
  "nat \<Rightarrow> ip4 \<Rightarrow> ip4 \<Rightarrow> u16 \<Rightarrow> instant \<Rightarrow> TcpManager \<Rightarrow>
     (ConnKey option \<times> OutgoingSegment list) \<times> TcpManager" where
  "initiate_connect nanos lip rip rport now m =
     (let lport = next_ephemeral m;
          key = (lip, lport, rip, rport)
      in if (case hm_get (connections m) key of
               None \<Rightarrow> False
             | Some t \<Rightarrow> tcb_state t = Established \<or> tcb_state t = SynSent)
         then ((Some key, []), m)
         else let isn = rand_seq nanos;
                  t = (new_server lip rip lport rport)\<lparr>tcb_state := SynSent, iss := isn,
                        snd_una := isn, snd_nxt := isn + 1, retransmit_at := Some (now + INITIAL_RTO),
                        rto := INITIAL_RTO\<rparr>
              in ((Some key, [\<lparr>seg_flags = TCP_SYN, seg_seq = isn, seg_ack = 0, seg_payload = [],
                               seg_dst_port = rport\<rparr>]),
                  m\<lparr>connections := hm_insert key t (connections m)\<rparr>))"

end
