(* ===== verification/Socket.thy ===== *)
theory Socket
  imports Tcp_Manager
begin

text \<open>
  \<^verbatim>\<open>TCP-stack/src/socket.rs\<close>: the calls an application makes on a connection.
\<close>

section \<open>The code\<close>

text \<open>A \<^verbatim>\<open>TcpSocket\<close> is the key of its connection.\<close>

record TcpSocket =
  sock_key :: ConnKey

definition socket_recv :: "TcpSocket \<Rightarrow> TcpManager \<Rightarrow> bytes \<times> TcpManager" where
  "socket_recv sock m = drain_data (sock_key sock) m"

definition socket_send :: "TcpSocket \<Rightarrow> bytes \<Rightarrow> TcpManager \<Rightarrow> OutgoingSegment list \<times> TcpManager" where
  "socket_send sock data m =
     (case hm_get (connections m) (sock_key sock) of
        None \<Rightarrow> ([], m)
      | Some t \<Rightarrow>
          if tcb_state t \<noteq> Established then ([], m)
          else let sq = snd_nxt t;
                   t = t\<lparr>snd_nxt := snd_nxt t + of_nat (length data)\<rparr>;
                   t = t\<lparr>send_buffer := send_buffer t @ data\<rparr>
               in ([\<lparr>seg_flags = TCP_PSH OR TCP_ACK, seg_seq = sq, seg_ack = rcv_nxt t,
                     seg_payload = data, seg_dst_port = remote_port t\<rparr>],
                   m\<lparr>connections := hm_insert (sock_key sock) t (connections m)\<rparr>))"

definition socket_close :: "TcpSocket \<Rightarrow> instant \<Rightarrow> TcpManager \<Rightarrow> OutgoingSegment list \<times> TcpManager" where
  "socket_close sock now m = close_conn (sock_key sock) now m"

definition socket_connect ::
  "nat \<Rightarrow> ip4 \<Rightarrow> ip4 \<Rightarrow> u16 \<Rightarrow> instant \<Rightarrow> TcpManager \<Rightarrow>
     (TcpSocket option \<times> OutgoingSegment list) \<times> TcpManager" where
  "socket_connect nanos lip rip rport now m =
     (let ((opt_key, segs), m) = initiate_connect nanos lip rip rport now m
      in ((map_option (\<lambda>key. \<lparr>sock_key = key\<rparr>) opt_key, segs), m))"

end
