(* ===== verification/Tcp_Stream.thy ===== *)
theory Tcp_Stream
  imports Tcp
begin

text \<open>
  The receive side of a connection against the byte stream its peer sends: the notion of a
  segment that belongs to a stream, and the invariant that what was delivered to the
  application, followed by what is buffered, is a prefix of that stream.
\<close>

section \<open>Segments of a stream\<close>

text \<open>
  \<open>stream_segment isn S h p\<close>: the segment with header \<open>h\<close> and payload \<open>p\<close> carries a piece of
  the stream \<open>S\<close> whose SYN has the number \<open>isn\<close>; a FIN stands at the end of the stream.
\<close>

definition stream_segment :: "u32 \<Rightarrow> bytes \<Rightarrow> TcpHeader \<Rightarrow> bytes \<Rightarrow> bool" where
  "stream_segment isn S h p =
     (\<not> has_flag h TCP_SYN \<and>
      list_ex (\<lambda>k. k + length p \<le> length S \<and> hdr_seq h = isn + 1 + of_nat k \<and>
                 p = take (length p) (drop k S) \<and> (has_flag h TCP_FIN \<longrightarrow> k + length p = length S))
        [0..<length S + 1])"

lemma stream_segmentE:
  assumes "stream_segment isn S h p"
  obtains k where "k + length p \<le> length S" "hdr_seq h = isn + 1 + of_nat k"
    "p = take (length p) (drop k S)" "has_flag h TCP_FIN \<Longrightarrow> k + length p = length S"
    "\<not> has_flag h TCP_SYN"
  using assms unfolding stream_segment_def list_ex_iff by blast

abbreviation "short_stream S \<equiv> length (S :: bytes) + 2 < 4294967296"

lemma of_nat_u32_eq: "m < 4294967296 \<Longrightarrow> n < 4294967296 \<Longrightarrow> (of_nat m :: u32) = of_nat n \<longleftrightarrow> m = n"
  by (simp add: word_of_nat_eq_iff take_bit_nat_eq_self)

lemma of_nat_u32_pos: "n < 4294967296 \<Longrightarrow> (0 :: u32) < of_nat n \<longleftrightarrow> 0 < n"
  using of_nat_u32_eq [of n 0] by (simp add: word_gt_0)

text \<open>A segment at the expected number continues the prefix received so far.\<close>

lemma accept:
  assumes "stream_segment isn S h p" "short_stream S" "n \<le> length S" "hdr_seq h = isn + 1 + of_nat n"
  shows accept_len: "n + length p \<le> length S"
    and accept_take: "take n S @ p = take (n + length p) S"
    and accept_fin: "has_flag h TCP_FIN \<Longrightarrow> n + length p = length S"
    and accept_pos: "(0 :: u32) < of_nat (length p) \<longleftrightarrow> p \<noteq> []"
proof -
  obtain k where k: "k + length p \<le> length S" "hdr_seq h = isn + 1 + of_nat k"
      "p = take (length p) (drop k S)" "has_flag h TCP_FIN \<Longrightarrow> k + length p = length S"
    using stream_segmentE [OF assms(1)] by metis
  have "k = n" using k(1,2) assms(2-4) by (simp add: of_nat_u32_eq)
  then show "n + length p \<le> length S" "has_flag h TCP_FIN \<Longrightarrow> n + length p = length S"
    using k by auto
  show "take n S @ p = take (n + length p) S"
    by (subst k(3)) (simp add: \<open>k = n\<close> take_add)
  show "(0 :: u32) < of_nat (length p) \<longleftrightarrow> p \<noteq> []"
    using k(1) assms(2) by (simp add: of_nat_u32_pos)
qed

lemma no_accept_after_fin:
  assumes "stream_segment isn S h p" "short_stream S"
  shows "hdr_seq h \<noteq> isn + 2 + of_nat (length S)"
proof
  assume eq: "hdr_seq h = isn + 2 + of_nat (length S)"
  obtain k where k: "k + length p \<le> length S" "hdr_seq h = isn + 1 + of_nat k"
    using stream_segmentE [OF assms(1)] by metis
  have "(of_nat k :: u32) = of_nat (length S + 1)"
    using eq k(2) by (simp add: algebra_simps)
  then show False using k(1) assms(2) of_nat_u32_eq [of k "length S + 1"] by simp
qed

section \<open>The receive invariant\<close>

definition rcv_at :: "u32 \<Rightarrow> nat \<Rightarrow> nat \<Rightarrow> Tcb \<Rightarrow> bool" where
  "rcv_at isn len n t =
     (case tcb_state t of
        Established \<Rightarrow> rcv_nxt t = isn + 1 + of_nat n
      | FinWait1 \<Rightarrow> rcv_nxt t = isn + 1 + of_nat n
      | FinWait2 \<Rightarrow> rcv_nxt t = isn + 1 + of_nat n
      | CloseWait \<Rightarrow> n = len \<and> rcv_nxt t = isn + 2 + of_nat n
      | SynSent \<Rightarrow> False
      | SynReceived \<Rightarrow> False
      | Listen \<Rightarrow> False
      | _ \<Rightarrow> True)"

definition recv_ok :: "u32 \<Rightarrow> bytes \<Rightarrow> bytes \<Rightarrow> Tcb \<Rightarrow> bool" where
  "recv_ok isn S out t =
     (\<exists>n \<le> length S. out @ recv_buffer t = take n S \<and> rcv_at isn (length S) n t)"

lemma recv_okI: "n \<le> length S \<Longrightarrow> out @ recv_buffer t = take n S \<Longrightarrow> rcv_at isn (length S) n t \<Longrightarrow>
    recv_ok isn S out t"
  by (auto simp: recv_ok_def)

lemma recv_ok_prefix: "recv_ok isn S out t \<Longrightarrow> \<exists>n. out @ recv_buffer t = take n S"
  by (auto simp: recv_ok_def)

text \<open>Fields the receive side does not look at.\<close>

lemma rcv_at_updates [simp]:
  "rcv_at isn l n (t\<lparr>send_buffer := a\<rparr>) = rcv_at isn l n t"
  "rcv_at isn l n (t\<lparr>snd_una := b\<rparr>) = rcv_at isn l n t"
  "rcv_at isn l n (t\<lparr>snd_nxt := c\<rparr>) = rcv_at isn l n t"
  "rcv_at isn l n (t\<lparr>retransmit_at := d\<rparr>) = rcv_at isn l n t"
  "rcv_at isn l n (t\<lparr>retransmit_count := e\<rparr>) = rcv_at isn l n t"
  "rcv_at isn l n (t\<lparr>rto := f\<rparr>) = rcv_at isn l n t"
  "rcv_at isn l n (t\<lparr>recv_buffer := g\<rparr>) = rcv_at isn l n t"
  by (cases "tcb_state t"; simp add: rcv_at_def)+

lemma recv_ok_updates [simp]:
  "recv_ok isn S out (t\<lparr>send_buffer := a\<rparr>) = recv_ok isn S out t"
  "recv_ok isn S out (t\<lparr>snd_una := b\<rparr>) = recv_ok isn S out t"
  "recv_ok isn S out (t\<lparr>snd_nxt := c\<rparr>) = recv_ok isn S out t"
  "recv_ok isn S out (t\<lparr>retransmit_at := d\<rparr>) = recv_ok isn S out t"
  "recv_ok isn S out (t\<lparr>retransmit_count := e\<rparr>) = recv_ok isn S out t"
  "recv_ok isn S out (t\<lparr>rto := f\<rparr>) = recv_ok isn S out t"
  by (simp_all add: recv_ok_def)

lemma recv_ok_drain: "recv_ok isn S out t \<Longrightarrow> recv_ok isn S (out @ recv_buffer t) (t\<lparr>recv_buffer := []\<rparr>)"
  by (auto simp: recv_ok_def)

text \<open>Leaving for a state in which nothing more is received.\<close>

lemma recv_ok_final:
  "recv_ok isn S out t \<Longrightarrow> s \<in> {Closed, Closing, LastAck, TimeWait} \<Longrightarrow>
     recv_ok isn S out (t\<lparr>tcb_state := s\<rparr>)"
  "recv_ok isn S out t \<Longrightarrow> s \<in> {Closed, Closing, LastAck, TimeWait} \<Longrightarrow>
     recv_ok isn S out (t\<lparr>rcv_nxt := x, tcb_state := s\<rparr>)"
  by (auto simp: recv_ok_def rcv_at_def)

lemma recv_ok_finwait:
  "recv_ok isn S out t \<Longrightarrow> tcb_state t \<in> {Established, FinWait1} \<Longrightarrow> s \<in> {FinWait1, FinWait2} \<Longrightarrow>
     recv_ok isn S out (t\<lparr>tcb_state := s\<rparr>)"
  by (auto simp: recv_ok_def rcv_at_def)

section \<open>Every handler keeps it\<close>

lemma recv_ok_established_ack [simp]: "recv_ok isn S out (established_ack h t) = recv_ok isn S out t"
  by (simp add: established_ack_eq)

lemma recv_ok_established_data:
  assumes "recv_ok isn S out t" "tcb_state t = Established" "stream_segment isn S h p" "short_stream S"
  shows "recv_ok isn S out (snd (established_data h p t))"
proof (cases "hdr_seq h = rcv_nxt t")
  case True
  obtain n where n: "n \<le> length S" "out @ recv_buffer t = take n S" "rcv_nxt t = isn + 1 + of_nat n"
    using assms(1,2) by (auto simp: recv_ok_def rcv_at_def)
  note acc = accept [OF assms(3,4) n(1), folded n(3), OF True]
  have nsyn: "\<not> has_flag h TCP_SYN" using assms(3) by (simp add: stream_segment_def)
  have buf: "out @ recv_buffer t @ p = take (n + length p) S"
    using n(2) acc(2) by (metis append_assoc)
  show ?thesis
    by (rule recv_okI [of "n + length p"])
      (use acc(1,3,4) n assms(2) nsyn True buf in
        \<open>auto simp: established_data_def Let_def rcv_at_def algebra_simps\<close>)
next
  case False
  then show ?thesis using assms(1) by (simp add: established_data_def Let_def)
qed

lemma recv_ok_buffer_data:
  assumes "recv_ok isn S out t" "tcb_state t \<in> {FinWait1, FinWait2}" "stream_segment isn S h p"
    "short_stream S"
  shows "recv_ok isn S out (buffer_data h p t)"
proof (cases "hdr_seq h = rcv_nxt t")
  case True
  obtain n where n: "n \<le> length S" "out @ recv_buffer t = take n S" "rcv_nxt t = isn + 1 + of_nat n"
    using assms(1,2) by (auto simp: recv_ok_def rcv_at_def)
  note acc = accept [OF assms(3,4) n(1), folded n(3), OF True]
  have buf: "out @ recv_buffer t @ p = take (n + length p) S"
    using n(2) acc(2) by (metis append_assoc)
  show ?thesis
    by (rule recv_okI [of "n + length p"])
      (use acc(1,4) n assms(2) True buf in \<open>auto simp: buffer_data_def Let_def rcv_at_def algebra_simps\<close>)
next
  case False
  then show ?thesis using assms(1) by (simp add: buffer_data_def Let_def)
qed

lemma recv_ok_CloseWait:
  assumes "recv_ok isn S out t" "tcb_state t = CloseWait" "stream_segment isn S h p" "short_stream S"
  shows "recv_ok isn S out (snd (on_CloseWait h p now t))"
proof -
  have "hdr_seq h \<noteq> rcv_nxt t"
    using assms no_accept_after_fin [OF assms(3,4)] by (auto simp: recv_ok_def rcv_at_def)
  then show ?thesis using assms(1) by (simp add: on_CloseWait_def Let_def)
qed

lemma recv_ok_process:
  assumes ok: "recv_ok isn S out t" and seg: "stream_segment isn S h p" "short_stream S"
  shows "recv_ok isn S out (snd (process_existing_tcb t h p now))"
proof (cases "tcb_state t")
  case Established
  then show ?thesis
    using ok seg by (simp add: process_existing_tcb_def on_Established_def recv_ok_established_data)
next
  case CloseWait
  then show ?thesis using recv_ok_CloseWait [OF ok CloseWait seg] by (simp add: process_existing_tcb_def)
next
  case FinWait1
  then show ?thesis
    using ok seg
    by (simp add: process_existing_tcb_def on_FinWait1_def Let_def recv_ok_final recv_ok_finwait
        recv_ok_buffer_data)
next
  case FinWait2
  then show ?thesis
    using ok seg
    by (simp add: process_existing_tcb_def on_FinWait2_def Let_def recv_ok_final recv_ok_buffer_data)
next
  case Closing
  then show ?thesis
    using ok by (simp add: process_existing_tcb_def on_Closing_def recv_ok_final)
next
  case LastAck
  then show ?thesis
    using ok by (simp add: process_existing_tcb_def on_LastAck_def recv_ok_final)
qed (use ok in \<open>auto simp: process_existing_tcb_def recv_ok_def rcv_at_def\<close>)

lemma recv_ok_retransmit_one: "recv_ok isn S out t \<Longrightarrow> recv_ok isn S out (snd (retransmit_one now t))"
  by (cases rule: retransmit_one_cases [of now t]) (simp_all add: recv_ok_final)

lemma recv_ok_close_tcb: "recv_ok isn S out t \<Longrightarrow> recv_ok isn S out (snd (close_tcb now t))"
  by (cases "tcb_state t") (simp_all add: close_tcb_def recv_ok_final recv_ok_finwait)

end
