(* ===== verification/Transition.thy ===== *)
theory Transition
  imports Main
begin

text \<open>
  Runs of a component: sequences of calls, each of which changes the component's state, and
  the interface of an invariant that every admissible call keeps.
\<close>

inductive reaches :: "('e \<Rightarrow> 's \<Rightarrow> 's) \<Rightarrow> ('e \<Rightarrow> bool) \<Rightarrow> 's \<Rightarrow> 's \<Rightarrow> bool"
  for step :: "'e \<Rightarrow> 's \<Rightarrow> 's" and allowed :: "'e \<Rightarrow> bool" where
  start: "reaches step allowed s s"
| call: "reaches step allowed s s' \<Longrightarrow> allowed e \<Longrightarrow> reaches step allowed s (step e s')"

lemma reaches_fold:
  "list_all allowed es \<Longrightarrow> reaches step allowed s s' \<Longrightarrow> reaches step allowed s (fold step es s')"
  by (induction es arbitrary: s') (auto intro: reaches.call)

locale invariant_system =
  fixes step :: "'e \<Rightarrow> 's \<Rightarrow> 's"
    and allowed :: "'e \<Rightarrow> bool"
    and inv :: "'s \<Rightarrow> bool"
  assumes inv_step: "inv s \<Longrightarrow> allowed e \<Longrightarrow> inv (step e s)"
begin

lemma inv_reaches: "reaches step allowed s s' \<Longrightarrow> inv s \<Longrightarrow> inv s'"
  by (induction rule: reaches.induct) (auto intro: inv_step)

lemma inv_run: "inv s \<Longrightarrow> list_all allowed es \<Longrightarrow> inv (fold step es s)"
  using inv_reaches reaches_fold reaches.start by metis

end

end
