(* ===== verification/Tcp_Run.thy ===== *)
theory Tcp_Run
  imports Socket Tcp_Stream Transition "HOL-Library.Sublist"
begin

text \<open>
  The connection table under every sequence of calls: segments that arrive, the periodic
  retransmission check, and the application's connect, send, receive and close.  Shown here:
  the invariant of the table, and that what an application reads from a connection is a
  prefix of what the peer sent.
\<close>

section \<open>Calls\<close>

datatype tcp_call =
    Arrive ip4 ip4 TcpHeader bytes instant
  | Poll instant
  | Sent ConnKey instant
  | Recv ConnKey
  | Send ConnKey bytes
  | Close ConnKey instant
  | Connect nat ip4 ip4 u16 instant

fun tcp_step :: "tcp_call \<Rightarrow> TcpManager \<Rightarrow> TcpManager" where
  "tcp_step (Arrive lip rip h p now) m = snd (process lip rip h p now m)"
| "tcp_step (Poll now) m = snd (poll_retransmit now m)"
| "tcp_step (Sent key now) m = record_sent key now m"
| "tcp_step (Recv key) m = snd (socket_recv \<lparr>sock_key = key\<rparr> m)"
| "tcp_step (Send key data) m = snd (socket_send \<lparr>sock_key = key\<rparr> data m)"
| "tcp_step (Close key now) m = snd (socket_close \<lparr>sock_key = key\<rparr> now m)"
| "tcp_step (Connect nanos lip rip rport now) m = snd (socket_connect nanos lip rip rport now m)"

text \<open>A connection used in examples: established, the peer's SYN had number 999.\<close>

definition example_key :: ConnKey where
  "example_key = ((192, 168, 100, 2), 40000, (192, 168, 100, 1), 8080)"

definition example_tcb :: Tcb where
  "example_tcb =
     \<lparr>local_ip = (192, 168, 100, 2), remote_ip = (192, 168, 100, 1), local_port = 40000,
      remote_port = 8080, tcb_state = Established, iss = 500, snd_una = 501, snd_nxt = 501,
      snd_wnd = 1000, irs = 999, rcv_nxt = 1000, rcv_wnd = DEFAULT_WINDOW, rto = INITIAL_RTO,
      retransmit_at = None, retransmit_count = 0, send_buffer = [], recv_buffer = []\<rparr>"

definition example_manager :: TcpManager where
  "example_manager = \<lparr>connections = [(example_key, example_tcb)]\<rparr>"

definition example_header :: "u32 \<Rightarrow> u32 \<Rightarrow> u8 \<Rightarrow> TcpHeader" where
  "example_header sq ack fl =
     \<lparr>src_port = 8080, dst_port = 40000, hdr_seq = sq, hdr_ack = ack, data_offset = 5,
      hdr_flags = fl, window = 1000, hdr_checksum = 0, urgent = 0\<rparr>"

lemmas example_defs = example_key_def example_tcb_def example_manager_def example_header_def

definition example_arrival :: "u32 \<Rightarrow> u8 \<Rightarrow> bytes \<Rightarrow> tcp_call" where
  "example_arrival sq fl p =
     Arrive (192, 168, 100, 2) (192, 168, 100, 1) (example_header sq 501 fl) p 0"

section \<open>The invariant of the table\<close>

text \<open>Keys are distinct, each names the block stored under it, and every block is sound.\<close>

definition manager_inv :: "TcpManager \<Rightarrow> bool" where
  "manager_inv m =
     (hm_ok (connections m) \<and>
      list_all (\<lambda>(key, t). conn_id t = key \<and> tcb_inv t) (connections m))"

lemma manager_invD:
  "manager_inv m \<Longrightarrow> hm_get (connections m) key = Some t \<Longrightarrow> conn_id t = key \<and> tcb_inv t"
  by (auto simp: manager_inv_def list_all_iff dest: hm_get_in_set)

lemma manager_inv_insert:
  "manager_inv m \<Longrightarrow> conn_id t = key \<Longrightarrow> tcb_inv t \<Longrightarrow>
     manager_inv (m\<lparr>connections := hm_insert key t (connections m)\<rparr>)"
  by (auto simp: manager_inv_def list_all_iff hm.ok_insert dest!: set_hm_insert_cases)

lemma conn_id_process [simp]: "conn_id (snd (process_existing_tcb t h p now)) = conn_id t"
  using fixed_part_process [of t h p now] by (simp add: fixed_part_def)

lemma conn_id_updates [simp]:
  "conn_id (t\<lparr>tcb_state := a\<rparr>) = conn_id t"
  "conn_id (t\<lparr>snd_nxt := b\<rparr>) = conn_id t"
  "conn_id (t\<lparr>send_buffer := c\<rparr>) = conn_id t"
  "conn_id (t\<lparr>retransmit_at := d\<rparr>) = conn_id t"
  "conn_id (t\<lparr>retransmit_count := e\<rparr>) = conn_id t"
  "conn_id (t\<lparr>rto := f\<rparr>) = conn_id t"
  "conn_id (t\<lparr>recv_buffer := g\<rparr>) = conn_id t"
  by (simp_all add: conn_id_def)

lemma conn_id_retransmit_one [simp]: "conn_id (snd (retransmit_one now t)) = conn_id t"
  by (cases rule: retransmit_one_cases [of now t]) simp_all

lemma conn_id_close_tcb [simp]: "conn_id (snd (close_tcb now t)) = conn_id t"
  by (simp add: close_tcb_def split: TcpState.split)

lemma manager_inv_process:
  "manager_inv m \<Longrightarrow> manager_inv (snd (process lip rip h p now m))"
  by (auto simp: process_def Let_def split: option.split prod.split
      intro!: manager_inv_insert dest: manager_invD)
    (metis conn_id_process manager_invD snd_conv tcb_inv_process)+

lemma manager_inv_close: "manager_inv m \<Longrightarrow> manager_inv (snd (close key now m))"
  by (auto simp: close_def Let_def split: option.split prod.split intro!: manager_inv_insert)
    (metis conn_id_close_tcb manager_invD snd_conv tcb_inv_close_tcb)+

lemma manager_inv_poll: "manager_inv m \<Longrightarrow> manager_inv (snd (poll_retransmit now m))"
  by (auto simp: poll_retransmit_def manager_inv_def list_all_iff hm_retain_def hm_update_all_def
      tcb_inv_retransmit_one hm_ok_retain [unfolded hm_retain_def]
      hm_ok_update_all [unfolded hm_update_all_def])

lemma tcb_inv_send:
  assumes "tcb_inv t" "tcb_state t = Established"
  shows "tcb_inv (t\<lparr>snd_nxt := snd_nxt t + of_nat (length data), send_buffer := send_buffer t @ data\<rparr>)"
  using assms by (simp add: tcb_inv_def send_inv_def timer_inv_def)

lemma manager_inv_send: "manager_inv m \<Longrightarrow> manager_inv (snd (socket_send s data m))"
  by (auto simp: socket_send_def Let_def tcb_inv_send split: option.split
      intro!: manager_inv_insert dest: manager_invD)

lemma tcb_inv_timer_updates [simp]:
  "tcb_inv (t\<lparr>retransmit_at := a\<rparr>) = tcb_inv t"
  "tcb_inv (t\<lparr>recv_buffer := b\<rparr>) = tcb_inv t"
  by (simp_all add: tcb_inv_def timer_inv_def)

lemma manager_inv_recv: "manager_inv m \<Longrightarrow> manager_inv (snd (drain_data key m))"
  by (auto simp: drain_data_def split: option.split intro!: manager_inv_insert dest: manager_invD)

lemma manager_inv_record_sent: "manager_inv m \<Longrightarrow> manager_inv (record_sent key now m)"
  by (auto simp: record_sent_def split: option.split intro!: manager_inv_insert dest: manager_invD)

lemma tcb_inv_syn_sent:
  "tcb_inv ((new_server lip rip lport rport)\<lparr>tcb_state := SynSent, iss := isn, snd_una := isn,
     snd_nxt := isn + 1, retransmit_at := a, rto := INITIAL_RTO\<rparr>)"
  by (simp add: new_server_def tcb_inv_def send_inv_def timer_inv_def timer_consts)

lemma conn_id_syn_sent:
  "conn_id ((new_server lip rip lport rport)\<lparr>tcb_state := SynSent, iss := isn, snd_una := isn,
     snd_nxt := isn + 1, retransmit_at := a, rto := INITIAL_RTO\<rparr>) = (lip, lport, rip, rport)"
  by (simp add: new_server_def conn_id_def)

lemma manager_inv_connect:
  "manager_inv m \<Longrightarrow> manager_inv (snd (initiate_connect nanos lip rip rport now m))"
  unfolding initiate_connect_def Let_def
  by (simp add: manager_inv_insert [OF _ conn_id_syn_sent tcb_inv_syn_sent])

lemma manager_inv_new: "manager_inv manager_new"
  by (simp add: manager_inv_def manager_new_def hm.ok_empty) (simp add: hm_new_def)

interpretation manager_run: invariant_system tcp_step "\<lambda>_. True" manager_inv
proof unfold_locales
  fix m e assume "manager_inv m"
  then show "manager_inv (tcp_step e m)"
    by (cases e)
      (simp_all add: manager_inv_process manager_inv_poll manager_inv_record_sent socket_recv_def
        manager_inv_recv manager_inv_send socket_close_def close_conn_def manager_inv_close
        socket_connect_def manager_inv_connect split: prod.split, metis manager_inv_connect snd_conv)
qed
text \<open>
  (C3) Whatever sequence of segments, timer checks and application calls is made on a fresh
  connection table: the keys stay distinct, every block is stored under its own four-tuple,
  no block ever enters \<open>Listen\<close> or \<open>SynReceived\<close>, the unacknowledged sequence numbers are
  exactly the bytes in \<open>send_buffer\<close> plus one for an open SYN or FIN (\<open>send_inv\<close>), the
  retransmission timeout stays between \<open>INITIAL_RTO\<close> and \<open>MAX_RTO\<close> and no more than
  \<open>MAX_RETRANSMITS\<close> retransmissions are counted.
\<close>

theorem connection_table_invariant:
  "manager_inv (fold tcp_step calls manager_new) \<and>
   list_all (\<lambda>(key, t). conn_id t = key \<and> send_inv t \<and> tcb_state t \<notin> {Listen, SynReceived} \<and>
       INITIAL_RTO \<le> rto t \<and> rto t \<le> MAX_RTO \<and> retransmit_count t \<le> MAX_RETRANSMITS)
     (connections (fold tcp_step calls manager_new))"
proof -
  have inv: "manager_inv (fold tcp_step calls manager_new)"
    by (rule manager_run.inv_run [OF manager_inv_new]) (simp add: list_all_iff)
  moreover have "tcb_inv t \<Longrightarrow> tcb_state t \<notin> {Listen, SynReceived}" for t
    by (auto simp: tcb_inv_def send_inv_def)
  ultimately show ?thesis
    by (fastforce simp: manager_inv_def list_all_iff tcb_inv_def timer_inv_def)
qed

section \<open>Delivery\<close>

text \<open>What a call hands to the application that reads the connection \<open>key\<close>.\<close>

fun handed_over :: "ConnKey \<Rightarrow> tcp_call \<Rightarrow> TcpManager \<Rightarrow> bytes" where
  "handed_over key (Recv key') m = (if key' = key then fst (socket_recv \<lparr>sock_key = key'\<rparr> m) else [])"
| "handed_over key _ m = []"

fun delivered :: "ConnKey \<Rightarrow> tcp_call list \<Rightarrow> TcpManager \<Rightarrow> bytes" where
  "delivered key [] m = []"
| "delivered key (c # cs) m = handed_over key c m @ delivered key cs (tcp_step c m)"

text \<open>
  The environment of a connection: the segments that arrive for it are pieces of the peer's
  stream \<open>S\<close>, in any order, with any repetition and loss; the host does not open a second
  connection to the same remote endpoint meanwhile.
\<close>

fun peer_sends :: "ConnKey \<Rightarrow> u32 \<Rightarrow> bytes \<Rightarrow> tcp_call \<Rightarrow> bool" where
  "peer_sends key isn S (Arrive lip rip h p now) =
     (key = (lip, dst_port h, rip, src_port h) \<longrightarrow> stream_segment isn S h p)"
| "peer_sends key isn S (Connect nanos lip rip rport now) =
     ((rip, rport) \<noteq> (fst (snd (snd key)), snd (snd (snd key))))"
| "peer_sends key isn S _ = True"

definition stream_ok :: "ConnKey \<Rightarrow> u32 \<Rightarrow> bytes \<Rightarrow> bytes \<Rightarrow> TcpManager \<Rightarrow> bool" where
  "stream_ok key isn S out m =
     (hm_ok (connections m) \<and>
      (case hm_get (connections m) key of
         None \<Rightarrow> prefix out S
       | Some t \<Rightarrow> recv_ok isn S out t))"

lemma stream_ok_prefix: "stream_ok key isn S out m \<Longrightarrow> prefix out S"
  by (auto simp: stream_ok_def recv_ok_def split: option.splits)
    (metis append_prefixD take_is_prefix)

lemma stream_ok_insert:
  "stream_ok key isn S out m \<Longrightarrow> (key' = key \<Longrightarrow> recv_ok isn S out t) \<Longrightarrow>
     stream_ok key isn S out (m\<lparr>connections := hm_insert key' t (connections m)\<rparr>)"
  by (auto simp: stream_ok_def hm.ok_insert hm_simps)

lemma stream_okD: "stream_ok key isn S out m \<Longrightarrow> hm_get (connections m) key = Some t \<Longrightarrow> recv_ok isn S out t"
  by (simp add: stream_ok_def)

lemma stream_ok_process:
  assumes "stream_ok key isn S out m" "short_stream S"
    "key = (lip, dst_port h, rip, src_port h) \<Longrightarrow> stream_segment isn S h p"
  shows "stream_ok key isn S out (snd (process lip rip h p now m))"
proof (cases "hm_get (connections m) (lip, dst_port h, rip, src_port h)")
  case (Some t)
  obtain segs t' where r: "process_existing_tcb t h p now = (segs, t')" by force
  have "recv_ok isn S out t'" if "(lip, dst_port h, rip, src_port h) = key"
  proof -
    have "recv_ok isn S out (snd (process_existing_tcb t h p now))"
      using assms(2) assms(3) [OF that [symmetric]] stream_okD [OF assms(1)] Some that
      by (simp add: recv_ok_process)
    then show ?thesis by (simp add: r)
  qed
  then show ?thesis by (simp add: process_def Let_def Some r stream_ok_insert [OF assms(1)])
qed (simp add: process_def Let_def assms(1))

lemma stream_ok_poll:
  assumes "stream_ok key isn S out m"
  shows "stream_ok key isn S out (snd (poll_retransmit now m))"
  using assms stream_ok_prefix [OF assms]
  by (auto simp: stream_ok_def poll_retransmit_def hm_get_retain recv_ok_retransmit_one split: option.splits)

lemma stream_ok_close:
  assumes "stream_ok key isn S out m"
  shows "stream_ok key isn S out (snd (close key' now m))"
proof (cases "hm_get (connections m) key'")
  case (Some t)
  obtain segs t' where r: "close_tcb now t = (segs, t')" by force
  have "recv_ok isn S out t'" if "key' = key"
    using recv_ok_close_tcb [of isn S out t now] stream_okD [OF assms] Some that r by simp
  then show ?thesis by (simp add: close_def Some r stream_ok_insert [OF assms])
qed (simp add: close_def assms)

lemma stream_ok_send:
  "stream_ok key isn S out m \<Longrightarrow> stream_ok key isn S out (snd (socket_send s data m))"
  by (auto simp: socket_send_def Let_def split: option.split intro!: stream_ok_insert dest: stream_okD)

lemma stream_ok_record_sent:
  "stream_ok key isn S out m \<Longrightarrow> stream_ok key isn S out (record_sent key' now m)"
  by (auto simp: record_sent_def split: option.split intro!: stream_ok_insert dest: stream_okD)

lemma stream_ok_recv:
  assumes "stream_ok key isn S out m"
  shows "stream_ok key isn S (out @ fst (drain_data key m)) (snd (drain_data key m))"
    and "key' \<noteq> key \<Longrightarrow> stream_ok key isn S out (snd (drain_data key' m))"
  using assms
  by (auto simp: drain_data_def stream_ok_def hm_simps hm.ok_insert recv_ok_drain split: option.splits)

lemma stream_ok_connect:
  assumes "stream_ok key isn S out m" "(rip, rport) \<noteq> (fst (snd (snd key)), snd (snd (snd key)))"
  shows "stream_ok key isn S out (snd (socket_connect nanos lip rip rport now m))"
proof -
  have ne: "(lip, port, rip, rport) \<noteq> key" for port using assms(2) by auto
  have new: "stream_ok key isn S out (m\<lparr>connections := hm_insert (lip, port, rip, rport) t (connections m)\<rparr>)"
    for port t by (rule stream_ok_insert [OF assms(1)]) (simp add: ne)
  show ?thesis
    using assms(1) by (simp add: socket_connect_def initiate_connect_def Let_def new)
qed

fun reading_step :: "ConnKey \<Rightarrow> tcp_call \<Rightarrow> bytes \<times> TcpManager \<Rightarrow> bytes \<times> TcpManager" where
  "reading_step key c (out, m) = (out @ handed_over key c m, tcp_step c m)"

lemma delivered_fold: "fst (fold (reading_step key) cs (out, m)) = out @ delivered key cs m"
  by (induction cs arbitrary: out m) simp_all

interpretation reading: invariant_system "reading_step key" "peer_sends key isn S"
    "\<lambda>(out, m). short_stream S \<and> stream_ok key isn S out m" for key isn S
proof unfold_locales
  fix s e
  assume inv: "case s of (out, m) \<Rightarrow> short_stream S \<and> stream_ok key isn S out m"
    and sent: "peer_sends key isn S e"
  obtain out m where s: "s = (out, m)" by force
  have ok: "short_stream S" "stream_ok key isn S out m" using inv by (auto simp: s)
  have "stream_ok key isn S (out @ handed_over key e m) (tcp_step e m)"
    using sent ok(1)
    by (cases e)
      (simp_all add: stream_ok_recv [OF ok(2)] stream_ok_process [OF ok(2)] stream_ok_poll [OF ok(2)] stream_ok_send [OF ok(2)]
        stream_ok_record_sent [OF ok(2)] socket_recv_def socket_close_def close_conn_def
        stream_ok_close [OF ok(2)] stream_ok_connect [OF ok(2)])
  then show "case reading_step key e s of (out, m) \<Rightarrow> short_stream S \<and> stream_ok key isn S out m"
    using ok(1) by (simp add: s)
qed

text \<open>
  (C1) In-order delivery.  Take a connection that has just been established with a peer whose
  SYN had number \<open>isn\<close> and that sends the bytes \<open>S\<close>.  However the network reorders, repeats
  or drops the peer's segments, and however these are interleaved with timer checks, sends,
  closes and other connections, what the application reads is a prefix of \<open>S\<close>.
\<close>

theorem delivery_is_prefix:
  assumes "hm_ok (connections m)" "hm_get (connections m) key = Some t"
    "tcb_state t = Established" "rcv_nxt t = isn + 1" "recv_buffer t = []"
    "short_stream S" "list_all (peer_sends key isn S) calls"
  shows "prefix (delivered key calls m) S"
proof -
  have "stream_ok key isn S [] m"
    using assms(1-5) by (auto simp: stream_ok_def recv_ok_def rcv_at_def intro: exI [of _ 0])
  then have "case fold (reading_step key) calls ([], m) of
      (out, m) \<Rightarrow> short_stream S \<and> stream_ok key isn S out m"
    using assms(6,7) by (intro reading.inv_run) simp_all
  then have "prefix (fst (fold (reading_step key) calls ([], m))) S"
    by (auto dest: stream_ok_prefix split: prod.splits)
  then show ?thesis by (simp add: delivered_fold)
qed

lemmas example_run_simps = process_def Let_def hm_get_def hm_insert_def process_existing_tcb_def
  on_Established_def established_data_def established_ack_eq has_flag_def const_defs ack_segment_def
  socket_recv_def drain_data_def poll_retransmit_def hm_retain_def hm_update_all_def
  retransmit_one_def keep_connection_def buffer_data_def on_CloseWait_def

definition example_reordered :: "tcp_call list" where
  "example_reordered =
     [example_arrival 1002 0x18 [3, 4], example_arrival 1000 0x18 [1, 2], Recv example_key, Poll 5,
      example_arrival 1000 0x18 [1, 2], example_arrival 1002 0x19 [3, 4], Recv example_key]"

theorem delivery_is_prefix_witness:
  "list_all (peer_sends example_key 999 [1, 2, 3, 4]) example_reordered \<and>
   delivered example_key example_reordered example_manager = [1, 2, 3, 4] \<and>
   prefix (delivered example_key example_reordered example_manager) [1, 2, 3, 4]"
proof -
  have sends: "list_all (peer_sends example_key 999 [1, 2, 3, 4]) example_reordered"
    by (simp add: example_reordered_def example_arrival_def example_defs stream_segment_def
        has_flag_def const_defs)
  have "hm_ok (connections example_manager)"
    "hm_get (connections example_manager) example_key = Some example_tcb"
    by (simp_all add: example_manager_def hm_ok_def hm_get_def)
  then have "prefix (delivered example_key example_reordered example_manager) [1, 2, 3, 4]"
    by (rule delivery_is_prefix [OF _ _ _ _ _ _ sends]) (simp_all add: example_tcb_def)
  moreover have "delivered example_key example_reordered example_manager = [1, 2, 3, 4]"
    by (simp add: example_reordered_def example_arrival_def example_defs example_run_simps)
  ultimately show ?thesis using sends by blast
qed

text \<open>The segments of a stream in order, for the connection \<open>key\<close> that expects \<open>next\<close>.\<close>

fun in_order :: "ConnKey \<Rightarrow> u32 \<Rightarrow> (TcpHeader \<times> bytes) list \<Rightarrow> bool" where
  "in_order key next [] = True"
| "in_order key next ((h, p) # segs) =
     (dst_port h = fst (snd key) \<and> src_port h = snd (snd (snd key)) \<and> hdr_seq h = next \<and>
      \<not> has_flag h TCP_SYN \<and> \<not> has_flag h TCP_FIN \<and> p \<noteq> [] \<and> length p < 4294967296 \<and>
      in_order key (next + of_nat (length p)) segs)"

fun arrive_at :: "ConnKey \<Rightarrow> instant \<Rightarrow> TcpHeader \<times> bytes \<Rightarrow> tcp_call" where
  "arrive_at (lip, _, rip, _) now (h, p) = Arrive lip rip h p now"

lemma established_in_order:
  assumes "tcb_state t = Established" "hdr_seq h = rcv_nxt t" "p \<noteq> []" "length p < 4294967296"
    "\<not> has_flag h TCP_SYN" "\<not> has_flag h TCP_FIN"
  obtains t' where "process_existing_tcb t h p now = ([ack_segment t'], t')"
    "tcb_state t' = Established" "rcv_nxt t' = rcv_nxt t + of_nat (length p)"
    "recv_buffer t' = recv_buffer t @ p"
proof
  let ?t = "(established_ack h t)\<lparr>recv_buffer := recv_buffer t @ p, rcv_nxt := rcv_nxt t + of_nat (length p)\<rparr>"
  show "process_existing_tcb t h p now = ([ack_segment ?t], ?t)"
    using assms
    by (simp add: process_existing_tcb_def on_Established_def established_data_def established_ack_eq
        ack_segment_def of_nat_u32_pos Let_def)
qed (use assms in simp_all)

lemma process_hit:
  "hm_get (connections m) (lip, dst_port h, rip, src_port h) = Some t \<Longrightarrow>
   process_existing_tcb t h p now = (segs, t') \<Longrightarrow>
   process lip rip h p now m =
     ((Some (lip, dst_port h, rip, src_port h), segs),
      m\<lparr>connections := hm_insert (lip, dst_port h, rip, src_port h) t' (connections m)\<rparr>)"
  by (simp add: process_def Let_def)

lemma arrive_in_order:
  assumes "hm_get (connections m) key = Some t" "tcb_state t = Established"
    "in_order key (rcv_nxt t) segs"
  shows "\<exists>t'. hm_get (connections (fold tcp_step (map (arrive_at key now) segs) m)) key = Some t' \<and>
    tcb_state t' = Established \<and> recv_buffer t' = recv_buffer t @ concat (map snd segs) \<and>
    rcv_nxt t' = rcv_nxt t + of_nat (length (concat (map snd segs)))"
  using assms
proof (induction segs arbitrary: m t)
  case (Cons seg segs)
  obtain h p where seg: "seg = (h, p)" by force
  obtain lip lport rip rport where key: "key = (lip, lport, rip, rport)" by (cases key)
  have k: "key = (lip, dst_port h, rip, src_port h)" using Cons.prems(3) by (simp add: seg key)
  obtain out t' where t': "process_existing_tcb t h p now = (out, t')" "tcb_state t' = Established"
      "rcv_nxt t' = rcv_nxt t + of_nat (length p)" "recv_buffer t' = recv_buffer t @ p"
    using Cons.prems by (auto simp: seg elim: established_in_order [of t h p now])
  have step: "tcp_step (arrive_at key now seg) m = m\<lparr>connections := hm_insert key t' (connections m)\<rparr>"
    using process_hit [OF _ t'(1)] Cons.prems(1) by (simp add: seg k)
  show ?case
    using Cons.IH [of "tcp_step (arrive_at key now seg) m" t'] Cons.prems(3) t'
    by (simp add: seg step [unfolded seg] hm_simps add.assoc)
qed simp

lemma delivered_append:
  "delivered key (xs @ ys) m = delivered key xs m @ delivered key ys (fold tcp_step xs m)"
  by (induction xs arbitrary: m) simp_all

lemma delivered_arrivals [simp]: "delivered key (map (arrive_at key' now) segs) m = []"
  by (induction segs arbitrary: m) (auto simp: split_paired_all, cases key', simp)

text \<open>
  (C2) Complete delivery.  When the peer's segments arrive in order on an established
  connection, every byte is accepted: the next read returns exactly the bytes sent, the
  connection stays established and \<open>rcv_nxt\<close> has advanced by their number (modulo \<open>2^32\<close>).
\<close>

theorem in_order_segments_all_delivered:
  assumes "hm_get (connections m) key = Some t" "tcb_state t = Established" "recv_buffer t = []"
    "in_order key (rcv_nxt t) segs"
  shows "delivered key (map (arrive_at key now) segs @ [Recv key]) m = concat (map snd segs) \<and>
    (\<exists>t'. hm_get (connections (fold tcp_step (map (arrive_at key now) segs @ [Recv key]) m)) key = Some t' \<and>
      tcb_state t' = Established \<and> recv_buffer t' = [] \<and>
      rcv_nxt t' = rcv_nxt t + of_nat (length (concat (map snd segs))))"
  using arrive_in_order [OF assms(1,2,4), of now] assms(3)
  by (auto simp: delivered_append socket_recv_def drain_data_def hm_simps)

theorem in_order_segments_all_delivered_witness:
  "delivered example_key
     (map (arrive_at example_key 7)
       [(example_header 1000 501 0x18, [1, 2]), (example_header 1002 501 0x18, [3])] @ [Recv example_key])
     example_manager = [1, 2, 3]"
proof -
  have "in_order example_key (rcv_nxt example_tcb)
      [(example_header 1000 501 0x18, [1, 2]), (example_header 1002 501 0x18, [3])]"
    by (simp add: example_defs has_flag_def const_defs)
  from in_order_segments_all_delivered [OF _ _ _ this, of example_manager 7]
  show ?thesis by (simp add: example_manager_def hm_get_def) (simp add: example_tcb_def)
qed

end
