(* ===== verification/Tcp_Behaviour.thy ===== *)
theory Tcp_Behaviour
  imports Tcp_Run
begin

text \<open>
  The life of a connection: the state diagram, the handshake, sending, the two ways of closing,
  the reset of unknown connections and the choice of the local port.
\<close>

section \<open>The state diagram\<close>

text \<open>How far a connection is in its life; every edge of the diagram goes forward.\<close>

fun progress :: "TcpState \<Rightarrow> nat" where
  "progress Listen = 0"
| "progress SynSent = 1"
| "progress SynReceived = 1"
| "progress Established = 2"
| "progress CloseWait = 3"
| "progress FinWait1 = 3"
| "progress FinWait2 = 4"
| "progress Closing = 4"
| "progress LastAck = 4"
| "progress TimeWait = 5"
| "progress Closed = 6"

lemma tcp_edge_progress: "tcp_edge e s s' \<Longrightarrow> progress s < progress s'"
  by (induction rule: tcp_edge.induct) (auto intro: progress.cases, case_tac s, auto)

text \<open>
  (C5) Refinement of the connection-state diagram.  A segment, a close or a timer check moves a
  connection along an edge of \<open>tcp_edge\<close> (the diagram of RFC 793 restricted to the active
  opener, labelled with the flags the segment must carry) or leaves its state alone; a taken
  edge always goes forward, so a connection never returns to an earlier state.
\<close>

theorem tcb_follows_diagram:
  assumes "tcb_inv t"
  shows "tcb_inv (tcb_handle e now t) \<and>
    (tcb_state (tcb_handle e now t) = tcb_state t \<or>
     tcp_edge e (tcb_state t) (tcb_state (tcb_handle e now t)) \<and>
       progress (tcb_state t) < progress (tcb_state (tcb_handle e now t)))"
proof -
  have "tcb_state t \<noteq> SynReceived" using assms by (auto simp: tcb_inv_def send_inv_def)
  from tcp_edge_handle [OF this, of e now] show ?thesis
    using tcb_inv_handle [OF assms] tcp_edge_progress by blast
qed

lemma example_tcb_inv: "tcb_inv example_tcb"
  by (simp add: example_tcb_def tcb_inv_def send_inv_def timer_inv_def timer_consts)

theorem tcb_follows_diagram_witness:
  "tcb_state (tcb_handle (Segment (example_header 1000 501 0x11) []) 0 example_tcb) = CloseWait \<and>
   tcp_edge (Segment (example_header 1000 501 0x11) []) Established CloseWait"
proof -
  have "tcb_state (tcb_handle (Segment (example_header 1000 501 0x11) []) 0 example_tcb) = CloseWait"
    by (simp add: tcb_handle_def example_defs example_run_simps)
  moreover have "tcb_state example_tcb = Established" by (simp add: example_tcb_def)
  ultimately show ?thesis
    using tcb_follows_diagram [OF example_tcb_inv, of "Segment (example_header 1000 501 0x11) []" 0]
    by simp
qed

section \<open>Opening\<close>

text \<open>
  (C6) The three-way handshake.  Connecting from a table that has no such connection emits one
  SYN; the peer's SYN+ACK that acknowledges it establishes the connection, answered by one
  ACK of the peer's SYN.  The block then expects the first byte of the peer's stream, has
  nothing outstanding and its timer is off.
\<close>

theorem handshake_establishes:
  assumes "hm_get (connections m) (lip, next_ephemeral m, rip, rport) = None"
    "dst_port h = next_ephemeral m" "src_port h = rport"
    "hdr_flags h AND (TCP_SYN OR TCP_ACK) = TCP_SYN OR TCP_ACK" "hdr_ack h = rand_seq nanos + 1"
  shows "\<exists>m1 m2 t.
    initiate_connect nanos lip rip rport now m =
      ((Some (lip, next_ephemeral m, rip, rport),
        [\<lparr>seg_flags = TCP_SYN, seg_seq = rand_seq nanos, seg_ack = 0, seg_payload = [],
          seg_dst_port = rport\<rparr>]), m1) \<and>
    process lip rip h p now' m1 =
      ((Some (lip, next_ephemeral m, rip, rport),
        [\<lparr>seg_flags = TCP_ACK, seg_seq = rand_seq nanos + 1, seg_ack = hdr_seq h + 1,
          seg_payload = [], seg_dst_port = rport\<rparr>]), m2) \<and>
    hm_get (connections m2) (lip, next_ephemeral m, rip, rport) = Some t \<and>
    tcb_state t = Established \<and> rcv_nxt t = hdr_seq h + 1 \<and> recv_buffer t = [] \<and>
    send_buffer t = [] \<and> snd_una t = snd_nxt t \<and> retransmit_at t = None"
  using assms
  by (simp add: initiate_connect_def process_def Let_def hm_simps process_existing_tcb_def
      on_SynSent_def new_server_def ack_segment_def)

lemma next_ephemeral_new: "next_ephemeral manager_new = 40000"
  by (simp add: next_ephemeral_def ephemeral_from.simps port_used_def manager_new_def hm_new_def)

theorem handshake_establishes_witness:
  "\<exists>m1 m2 t.
    initiate_connect 77 (10, 0, 0, 1) (10, 0, 0, 2) 8080 0 manager_new =
      ((Some ((10, 0, 0, 1), 40000, (10, 0, 0, 2), 8080),
        [\<lparr>seg_flags = TCP_SYN, seg_seq = 77, seg_ack = 0, seg_payload = [], seg_dst_port = 8080\<rparr>]), m1) \<and>
    process (10, 0, 0, 1) (10, 0, 0, 2) (example_header 999 78 0x12) [] 1 m1 =
      ((Some ((10, 0, 0, 1), 40000, (10, 0, 0, 2), 8080),
        [\<lparr>seg_flags = TCP_ACK, seg_seq = 78, seg_ack = 1000, seg_payload = [], seg_dst_port = 8080\<rparr>]), m2) \<and>
    hm_get (connections m2) ((10, 0, 0, 1), 40000, (10, 0, 0, 2), 8080) = Some t \<and>
    tcb_state t = Established"
proof -
  have isn: "rand_seq 77 = 77" by (simp add: rand_seq_def)
  show ?thesis
    using handshake_establishes [of manager_new "(10, 0, 0, 1)" "(10, 0, 0, 2)" 8080
        "example_header 999 78 0x12" 77 0 "[]" 1]
    unfolding next_ephemeral_new isn
    by (simp add: manager_new_def hm.get_empty example_header_def const_defs) blast
qed

lemma ephemeral_from_range:
  "40000 \<le> port \<Longrightarrow> 40000 \<le> unat (ephemeral_from m port) \<and> unat (ephemeral_from m port) < 60000"
  by (induction m port rule: ephemeral_from.induct)
    (subst ephemeral_from.simps, auto simp: ephemeral_from.simps unat_of_nat take_bit_nat_eq_self)

lemma ephemeral_from_free:
  assumes "port \<le> q" "q < 60000" "\<not> port_used m (of_nat q)"
  shows "\<not> port_used m (ephemeral_from m port) \<and>
    (\<forall>r \<in> {port..<unat (ephemeral_from m port)}. port_used m (of_nat r))"
  using assms
proof (induction m port rule: ephemeral_from.induct)
  case (1 m port)
  have lt: "port < 60000" using "1.prems" by simp
  show ?case
  proof (cases "port_used m (of_nat port)")
    case False
    then show ?thesis
      using lt by (simp add: ephemeral_from.simps [of m port] unat_of_nat take_bit_nat_eq_self)
  next
    case True
    then have "port + 1 \<le> q" using "1.prems" by (cases "port = q") auto
    with "1.IH" [OF lt] True "1.prems" have IH: "\<not> port_used m (ephemeral_from m (port + 1)) \<and>
        (\<forall>r \<in> {port + 1..<unat (ephemeral_from m (port + 1))}. port_used m (of_nat r))"
      by simp
    have eq: "ephemeral_from m port = ephemeral_from m (port + 1)"
      using lt True by (subst ephemeral_from.simps) simp
    show ?thesis
      using IH True unfolding eq by (auto simp: Suc_le_eq le_less)
  qed
qed

text \<open>
  The local port of a new connection lies in \<open>40000 .. 59999\<close>; as long as some port of
  the range is free the chosen one is free, and it is the lowest free one.
\<close>

theorem next_ephemeral_free:
  "40000 \<le> unat (next_ephemeral m) \<and> unat (next_ephemeral m) < 60000 \<and>
   ((\<exists>q. 40000 \<le> q \<and> q < 60000 \<and> \<not> port_used m (of_nat q)) \<longrightarrow>
      \<not> port_used m (next_ephemeral m) \<and>
      (\<forall>r \<in> {40000..<unat (next_ephemeral m)}. port_used m (of_nat r)))"
  unfolding next_ephemeral_def
  using ephemeral_from_range [of 40000 m] ephemeral_from_free [of 40000 _ m] by blast

theorem next_ephemeral_free_witness:
  "\<not> port_used example_manager 40001 \<and> \<not> port_used example_manager (next_ephemeral example_manager) \<and>
   40000 < unat (next_ephemeral example_manager)"
proof -
  have free: "\<not> port_used example_manager 40001" and used: "port_used example_manager 40000"
    by (simp_all add: port_used_def example_defs)
  have "\<exists>q. 40000 \<le> q \<and> q < 60000 \<and> \<not> port_used example_manager (of_nat q)"
    by (rule exI [of _ 40001]) (simp add: free)
  with next_ephemeral_free [of example_manager]
  have "\<not> port_used example_manager (next_ephemeral example_manager)"
    "40000 \<le> unat (next_ephemeral example_manager)" by blast+
  moreover have "x = 40000" if "unat x = 40000" for x :: u16
    using that by (simp add: word_unat_eq_iff)
  with calculation(1) used have "unat (next_ephemeral example_manager) \<noteq> 40000" by metis
  ultimately show ?thesis using free by simp
qed

section \<open>Segments for no connection\<close>

text \<open>
  A segment that matches no connection is answered by one RST+ACK whose numbers make it
  acceptable to the sender (its acknowledgement field, and the first number after the
  segment's data and SYN), unless it is itself a RST; the table is left as it was.
\<close>

theorem unmatched_segment_reset:
  assumes "hm_get (connections m) (lip, dst_port h, rip, src_port h) = None"
  shows "process lip rip h p now m =
    ((None, if has_flag h TCP_RST then []
            else [\<lparr>seg_flags = TCP_RST OR TCP_ACK,
                   seg_seq = (if has_flag h TCP_ACK then hdr_ack h else 0),
                   seg_ack = hdr_seq h + of_nat (length p + (if has_flag h TCP_SYN then 1 else 0)),
                   seg_payload = [], seg_dst_port = src_port h\<rparr>]), m)"
  using assms by (simp add: process_def Let_def has_flag_def)

theorem unmatched_segment_reset_witness:
  "process (10, 0, 0, 1) (10, 0, 0, 2) (example_header 7 0 0x02) [] 0 manager_new =
    ((None, [\<lparr>seg_flags = 0x14, seg_seq = 0, seg_ack = 8, seg_payload = [], seg_dst_port = 8080\<rparr>]),
     manager_new)"
  using unmatched_segment_reset [of manager_new "(10, 0, 0, 1)" "example_header 7 0 0x02" "(10, 0, 0, 2)" "[]" 0]
  by (simp add: manager_new_def hm.get_empty example_header_def has_flag_def const_defs)

section \<open>Sending\<close>

text \<open>A sequence of sends on one connection: the segments emitted and the table left.\<close>

fun send_all :: "ConnKey \<Rightarrow> bytes list \<Rightarrow> TcpManager \<Rightarrow> OutgoingSegment list \<times> TcpManager" where
  "send_all key [] m = ([], m)"
| "send_all key (d # ds) m =
     (let (segs, m) = socket_send \<lparr>sock_key = key\<rparr> d m; (segs', m) = send_all key ds m
      in (segs @ segs', m))"

text \<open>The header under which the peer receives a segment.\<close>

definition header_of :: "u16 \<Rightarrow> OutgoingSegment \<Rightarrow> TcpHeader" where
  "header_of sport seg =
     \<lparr>src_port = sport, dst_port = seg_dst_port seg, hdr_seq = seg_seq seg, hdr_ack = seg_ack seg,
      data_offset = 5, hdr_flags = seg_flags seg, window = DEFAULT_WINDOW, hdr_checksum = 0,
      urgent = 0\<rparr>"

lemma stream_segmentI:
  "k + length p \<le> length S \<Longrightarrow> hdr_seq h = isn + 1 + of_nat k \<Longrightarrow> p = take (length p) (drop k S) \<Longrightarrow>
   \<not> has_flag h TCP_SYN \<Longrightarrow> \<not> has_flag h TCP_FIN \<Longrightarrow> stream_segment isn S h p"
  by (auto simp: stream_segment_def list_ex_iff intro!: bexI [of _ k])

lemma send_established:
  assumes "hm_get (connections m) key = Some t" "tcb_state t = Established"
  shows "socket_send \<lparr>sock_key = key\<rparr> d m =
    ([\<lparr>seg_flags = TCP_PSH OR TCP_ACK, seg_seq = snd_nxt t, seg_ack = rcv_nxt t, seg_payload = d,
       seg_dst_port = remote_port t\<rparr>],
     m\<lparr>connections := hm_insert key
       (t\<lparr>snd_nxt := snd_nxt t + of_nat (length d), send_buffer := send_buffer t @ d\<rparr>) (connections m)\<rparr>)"
  using assms by (simp add: socket_send_def Let_def)

text \<open>
  (C8) What an application sends is a stream.  With \<open>S0\<close> sent before, sending the pieces \<open>ds\<close>
  emits one segment per piece, in order; each is a piece of the stream \<open>S0 @ concat ds\<close>
  numbered from the connection's own SYN (the condition under which a receiver delivers a
  prefix of that stream), and all of it is kept in \<open>send_buffer\<close> for retransmission.
\<close>

theorem sends_form_stream:
  assumes "hm_get (connections m) key = Some t" "tcb_state t = Established"
    "snd_nxt t = iss t + 1 + of_nat (length S0)"
  shows "map seg_payload (fst (send_all key ds m)) = ds \<and>
    list_all (\<lambda>seg. stream_segment (iss t) (S0 @ concat ds) (header_of (local_port t) seg) (seg_payload seg))
      (fst (send_all key ds m)) \<and>
    (\<exists>t'. hm_get (connections (snd (send_all key ds m))) key = Some t' \<and> tcb_state t' = Established \<and>
      send_buffer t' = send_buffer t @ concat ds \<and>
      snd_nxt t' = iss t + 1 + of_nat (length (S0 @ concat ds)))"
  using assms
proof (induction ds arbitrary: m t S0)
  case (Cons d ds)
  let ?t = "t\<lparr>snd_nxt := snd_nxt t + of_nat (length d), send_buffer := send_buffer t @ d\<rparr>"
  let ?m = "m\<lparr>connections := hm_insert key ?t (connections m)\<rparr>"
  have first: "stream_segment (iss t) (S0 @ d @ concat ds)
      (header_of (local_port t) \<lparr>seg_flags = TCP_PSH OR TCP_ACK, seg_seq = snd_nxt t,
         seg_ack = rcv_nxt t, seg_payload = d, seg_dst_port = remote_port t\<rparr>) d"
    by (rule stream_segmentI [of "length S0"])
      (simp_all add: header_of_def has_flag_def const_defs Cons.prems)
  show ?case
    using Cons.IH [of ?m ?t "S0 @ d"] Cons.prems first
    by (simp add: send_established hm_simps add.assoc case_prod_beta)
qed simp

theorem sends_form_stream_witness:
  "map seg_payload (fst (send_all example_key [[1, 2], [3]] example_manager)) = [[1, 2], [3]] \<and>
   list_all (\<lambda>seg. stream_segment 500 [1, 2, 3] (header_of 40000 seg) (seg_payload seg))
     (fst (send_all example_key [[1, 2], [3]] example_manager))"
  using sends_form_stream [of example_manager example_key example_tcb "[]" "[[1, 2], [3]]"]
  by (simp add: example_manager_def hm_get_def del: send_all.simps)
    (simp add: example_tcb_def del: send_all.simps)

section \<open>Closing\<close>

lemma poll_get:
  "hm_ok (connections m) \<Longrightarrow>
   hm_get (connections (snd (poll_retransmit now m))) key =
     (case hm_get (connections m) key of
        None \<Rightarrow> None
      | Some t \<Rightarrow> let t' = snd (retransmit_one now t) in if keep_connection now t' then Some t' else None)"
  by (simp add: poll_retransmit_def hm_get_retain split: option.split)

lemma established_fin:
  assumes "tcb_state t = Established" "hdr_seq h = rcv_nxt t" "has_flag h TCP_FIN"
    "\<not> has_flag h TCP_SYN" "length p < 4294967296"
  obtains t' where "process_existing_tcb t h p now = ([ack_segment t'], t')" "tcb_state t' = CloseWait"
    "recv_buffer t' = recv_buffer t @ p" "rcv_nxt t' = rcv_nxt t + of_nat (length p) + 1"
proof -
  have data: "established_data h p u = (let u' = u\<lparr>recv_buffer := recv_buffer u @ p,
      rcv_nxt := rcv_nxt u + of_nat (length p) + 1, tcb_state := CloseWait\<rparr> in ([ack_segment u'], u'))"
    if "hdr_seq h = rcv_nxt u" for u
    using assms(3-5) that
    by (cases "p = []")
      (simp_all add: established_data_def Let_def ack_segment_def of_nat_u32_pos add.assoc)
  show ?thesis
    by (rule that [of "(established_ack h t)\<lparr>recv_buffer := recv_buffer t @ p,
        rcv_nxt := rcv_nxt t + of_nat (length p) + 1, tcb_state := CloseWait\<rparr>"])
      (use assms(1,2) in \<open>simp_all add: process_existing_tcb_def on_Established_def data Let_def\<close>)
qed

text \<open>
  (C34) Passive close.  The peer's FIN, with the last data \<open>p\<close>, moves an established connection to
  \<open>CloseWait\<close>: \<open>p\<close> is readable and one ACK covers data and FIN.  Closing then emits a FIN; the
  peer's ACK ends the connection, and the next timer check removes it from the table.
\<close>

theorem passive_close_completes:
  assumes "hm_ok (connections m)" "hm_get (connections m) (lip, lport, rip, rport) = Some t"
    "tcb_state t = Established"
    "dst_port h = lport" "src_port h = rport" "hdr_seq h = rcv_nxt t" "has_flag h TCP_FIN"
    "\<not> has_flag h TCP_SYN" "length p < 4294967296"
    "dst_port h' = lport" "src_port h' = rport" "has_flag h' TCP_ACK"
  shows "\<exists>m1 m2 m3 t1 ack.
    process lip rip h p n1 m = ((Some (lip, lport, rip, rport), [ack]), m1) \<and>
    seg_flags ack = TCP_ACK \<and> seg_ack ack = rcv_nxt t + of_nat (length p) + 1 \<and>
    hm_get (connections m1) (lip, lport, rip, rport) = Some t1 \<and> tcb_state t1 = CloseWait \<and>
    recv_buffer t1 = recv_buffer t @ p \<and>
    close (lip, lport, rip, rport) n2 m1 = ([fin_segment t1], m2) \<and>
    process lip rip h' [] n3 m2 = ((Some (lip, lport, rip, rport), []), m3) \<and>
    hm_get (connections (snd (poll_retransmit n4 m3))) (lip, lport, rip, rport) = None"
proof -
  let ?key = "(lip, lport, rip, rport)"
  obtain t1 where t1: "process_existing_tcb t h p n1 = ([ack_segment t1], t1)" "tcb_state t1 = CloseWait"
      "recv_buffer t1 = recv_buffer t @ p" "rcv_nxt t1 = rcv_nxt t + of_nat (length p) + 1"
    by (rule established_fin [OF assms(3,6-9)])
  define m1 where "m1 = m\<lparr>connections := hm_insert ?key t1 (connections m)\<rparr>"
  have r1: "process lip rip h p n1 m = ((Some ?key, [ack_segment t1]), m1)"
    using process_hit [OF _ t1(1)] assms(2,4,5) by (simp add: m1_def)
  define t2 where "t2 = t1\<lparr>tcb_state := LastAck, snd_nxt := snd_nxt t1 + 1, retransmit_at := Some (n2 + rto t1)\<rparr>"
  define m2 where "m2 = m1\<lparr>connections := hm_insert ?key t2 (connections m1)\<rparr>"
  have r2: "close ?key n2 m1 = ([fin_segment t1], m2)"
    by (simp add: close_def m1_def hm_simps close_tcb_def t1(2) m2_def t2_def)
  have t3: "process_existing_tcb t2 h' [] n3 = ([], t2\<lparr>tcb_state := Closed, retransmit_at := None\<rparr>)"
    using assms(12) by (simp add: process_existing_tcb_def t2_def on_LastAck_def)
  define m3 where "m3 = m2\<lparr>connections := hm_insert ?key (t2\<lparr>tcb_state := Closed, retransmit_at := None\<rparr>) (connections m2)\<rparr>"
  have r3: "process lip rip h' [] n3 m2 = ((Some ?key, []), m3)"
    using process_hit [OF _ t3] assms(10,11) by (simp add: m2_def hm_simps m3_def)
  have "hm_get (connections (snd (poll_retransmit n4 m3))) ?key = None"
    using assms(1) by (simp add: poll_get m3_def m2_def m1_def hm.ok_insert hm_simps
        retransmit_one_simps keep_connection_def)
  moreover have "hm_get (connections m1) ?key = Some t1" by (simp add: m1_def hm_simps)
  ultimately show ?thesis using r1 r2 r3 t1 by (auto simp: ack_segment_def)
qed

theorem passive_close_completes_witness:
  "\<exists>m1 m2 m3 t1 ack.
    process (192, 168, 100, 2) (192, 168, 100, 1) (example_header 1000 501 0x19) [7, 8] 1 example_manager =
      ((Some example_key, [ack]), m1) \<and>
    seg_flags ack = TCP_ACK \<and> seg_ack ack = 1003 \<and>
    hm_get (connections m1) example_key = Some t1 \<and> tcb_state t1 = CloseWait \<and> recv_buffer t1 = [7, 8] \<and>
    close example_key 2 m1 = ([fin_segment t1], m2) \<and>
    process (192, 168, 100, 2) (192, 168, 100, 1) (example_header 1003 502 0x10) [] 3 m2 =
      ((Some example_key, []), m3) \<and>
    hm_get (connections (snd (poll_retransmit 4 m3))) example_key = None"
proof -
  have t: "hm_ok (connections example_manager)"
    "hm_get (connections example_manager) example_key = Some example_tcb"
    by (simp_all add: example_manager_def hm_ok_def hm_get_def)
  from passive_close_completes [OF t(1) t(2) [unfolded example_key_def], of "example_header 1000 501 0x19"
      "[7, 8]" "example_header 1003 502 0x10" 1 2 3 4]
  show ?thesis unfolding example_key_def
    by (simp add: example_header_def has_flag_def const_defs example_tcb_def)
qed

lemma buffer_data_in_order:
  assumes "hdr_seq h = rcv_nxt t" "length p < 4294967296"
  shows "buffer_data h p t =
    t\<lparr>recv_buffer := recv_buffer t @ p, rcv_nxt := rcv_nxt t + of_nat (length p)\<rparr>"
  using assms by (cases "p = []") (simp_all add: buffer_data_def Let_def of_nat_u32_pos)

text \<open>
  Active close.  Closing an established connection emits one FIN; the ACK of that FIN,
  which may carry data, leads to \<open>FinWait2\<close> with the data readable, and the peer's FIN to
  \<open>TimeWait\<close>, answered by an ACK of everything the peer sent.
\<close>

theorem active_close_completes:
  assumes "hm_get (connections m) (lip, lport, rip, rport) = Some t" "tcb_state t = Established"
    "dst_port h = lport" "src_port h = rport" "has_flag h TCP_ACK" "\<not> has_flag h TCP_FIN"
    "hdr_ack h = snd_nxt t + 1" "hdr_seq h = rcv_nxt t" "length p < 4294967296"
    "dst_port h' = lport" "src_port h' = rport" "has_flag h' TCP_FIN"
    "hdr_seq h' = rcv_nxt t + of_nat (length p)"
  shows "\<exists>m1 m2 m3 t2 t3.
    close (lip, lport, rip, rport) n1 m = ([fin_segment t], m1) \<and>
    process lip rip h p n2 m1 = ((Some (lip, lport, rip, rport), []), m2) \<and>
    hm_get (connections m2) (lip, lport, rip, rport) = Some t2 \<and> tcb_state t2 = FinWait2 \<and>
    recv_buffer t2 = recv_buffer t @ p \<and> retransmit_at t2 = None \<and>
    process lip rip h' [] n3 m2 = ((Some (lip, lport, rip, rport), [ack_segment t3]), m3) \<and>
    hm_get (connections m3) (lip, lport, rip, rport) = Some t3 \<and> tcb_state t3 = TimeWait \<and>
    rcv_nxt t3 = rcv_nxt t + of_nat (length p) + 1 \<and> snd_una t3 = snd_nxt t3"
proof -
  let ?key = "(lip, lport, rip, rport)"
  define t1 where "t1 = t\<lparr>tcb_state := FinWait1, snd_nxt := snd_nxt t + 1, retransmit_at := Some (n1 + rto t)\<rparr>"
  define m1 where "m1 = m\<lparr>connections := hm_insert ?key t1 (connections m)\<rparr>"
  have r1: "close ?key n1 m = ([fin_segment t], m1)"
    using assms(1,2) by (simp add: close_def close_tcb_def m1_def t1_def)
  define t2 where "t2 = t1\<lparr>snd_una := snd_nxt t + 1, retransmit_at := None, retransmit_count := 0,
    tcb_state := FinWait2, recv_buffer := recv_buffer t @ p, rcv_nxt := rcv_nxt t + of_nat (length p)\<rparr>"
  have "process_existing_tcb t1 h p n2 = ([], t2)"
    using assms(5-9)
    by (simp add: process_existing_tcb_def on_FinWait1_def Let_def buffer_data_in_order t1_def t2_def)
  note r2 = process_hit [OF _ this]
  define m2 where "m2 = m1\<lparr>connections := hm_insert ?key t2 (connections m1)\<rparr>"
  define t3 where "t3 = t2\<lparr>rcv_nxt := rcv_nxt t + of_nat (length p) + 1, tcb_state := TimeWait,
    retransmit_at := Some (n3 + from_secs 60)\<rparr>"
  have "process_existing_tcb t2 h' [] n3 = ([ack_segment t3], t3)"
    using assms(12,13) by (simp add: process_existing_tcb_def on_FinWait2_def Let_def t2_def t3_def)
  note r3 = process_hit [OF _ this]
  have "process lip rip h p n2 m1 = ((Some ?key, []), m2)"
    "process lip rip h' [] n3 m2 =
       ((Some ?key, [ack_segment t3]), m2\<lparr>connections := hm_insert ?key t3 (connections m2)\<rparr>)"
    using r2 [of m1 lip rip] r3 [of m2 lip rip] assms(3,4,10,11) by (simp_all add: m1_def m2_def hm_simps)
  moreover have "tcb_state t2 = FinWait2" "recv_buffer t2 = recv_buffer t @ p" "retransmit_at t2 = None"
    "tcb_state t3 = TimeWait" "rcv_nxt t3 = rcv_nxt t + of_nat (length p) + 1" "snd_una t3 = snd_nxt t3"
    by (simp_all add: t3_def t2_def t1_def)
  ultimately show ?thesis using r1 by (simp add: m2_def hm_simps)
qed

theorem active_close_completes_witness:
  "\<exists>m1 m2 m3 t2 t3.
    close example_key 0 example_manager = ([fin_segment example_tcb], m1) \<and>
    process (192, 168, 100, 2) (192, 168, 100, 1) (example_header 1000 502 0x10) [9] 1 m1 =
      ((Some example_key, []), m2) \<and>
    hm_get (connections m2) example_key = Some t2 \<and> tcb_state t2 = FinWait2 \<and> recv_buffer t2 = [9] \<and>
    process (192, 168, 100, 2) (192, 168, 100, 1) (example_header 1001 502 0x11) [] 2 m2 =
      ((Some example_key, [ack_segment t3]), m3) \<and>
    tcb_state t3 = TimeWait \<and> rcv_nxt t3 = 1002"
proof -
  have t: "hm_get (connections example_manager) example_key = Some example_tcb"
    by (simp add: example_manager_def hm_get_def)
  from active_close_completes [OF t [unfolded example_key_def], of "example_header 1000 502 0x10" "[9]"
      "example_header 1001 502 0x11" 0 1 2]
  show ?thesis unfolding example_key_def
    by (simp add: example_header_def has_flag_def const_defs example_tcb_def) metis
qed

end
