(* ===== verification/Tcp_Retransmit.thy ===== *)
theory Tcp_Retransmit
  imports Tcp_Behaviour
begin

text \<open>
  Acknowledgement, retransmission and loss: what the retransmission timer sends and when it
  gives up, and the cases in which data is not recovered.
\<close>

section \<open>The retransmitted segment\<close>

text \<open>
  (C10) First flight.  As long as none of the data sent on a connection has been acknowledged, the
  timer of an established connection retransmits all of it, from the first unacknowledged
  number on; the segment is again a piece of the sender's stream.
\<close>

theorem first_flight_retransmitted:
  assumes "tcb_inv t" "tcb_state t \<in> {Established, CloseWait}" "snd_una t = iss t + 1"
    "send_buffer t \<noteq> []" "retransmit_at t = Some d" "d \<le> now" "retransmit_count t < MAX_RETRANSMITS"
  shows "\<exists>seg t'. retransmit_one now t = (Some seg, t') \<and>
    seg_seq seg = snd_una t \<and> seg_payload seg = send_buffer t \<and> seg_flags seg = TCP_PSH OR TCP_ACK \<and>
    seg_ack seg = rcv_nxt t \<and> seg_seq seg + of_nat (length (seg_payload seg)) = snd_nxt t \<and>
    stream_segment (iss t) (send_buffer t) (header_of (local_port t) seg) (seg_payload seg) \<and>
    retransmit_at t' = Some (now + rto t) \<and> rto t' = min (rto t * 2) MAX_RTO \<and>
    retransmit_count t' = retransmit_count t + 1"
proof -
  have seg: "build_retransmit t = \<lparr>seg_flags = TCP_PSH OR TCP_ACK, seg_seq = snd_una t,
      seg_ack = rcv_nxt t, seg_payload = send_buffer t, seg_dst_port = remote_port t\<rparr>"
    using assms(2-4) by (auto simp: build_retransmit_def retransmit_data_def Let_def)
  have "stream_segment (iss t) (send_buffer t) (header_of (local_port t) (build_retransmit t)) (send_buffer t)"
    by (rule stream_segmentI [of 0])
      (simp_all add: seg header_of_def has_flag_def const_defs assms(3))
  moreover have "snd_nxt t = snd_una t + of_nat (length (send_buffer t))"
    using assms(1,2) by (auto simp: tcb_inv_def send_inv_def)
  ultimately show ?thesis
    using retransmit_one_fires [OF assms(5-7)] by (simp add: seg)
qed

definition example_sent :: Tcb where
  "example_sent = example_tcb\<lparr>snd_nxt := 504, send_buffer := [1, 2, 3], retransmit_at := Some 10\<rparr>"

lemma example_sent_inv: "tcb_inv example_sent"
  by (simp add: example_sent_def example_tcb_def tcb_inv_def send_inv_def timer_inv_def timer_consts)

theorem first_flight_retransmitted_witness:
  "\<exists>seg t'. retransmit_one 11 example_sent = (Some seg, t') \<and> seg_seq seg = 501 \<and>
    seg_payload seg = [1, 2, 3]"
proof -
  from first_flight_retransmitted [OF example_sent_inv, of 10 11] show ?thesis
    by (simp add: example_sent_def example_tcb_def timer_consts) metis
qed

text \<open>
  (C39) Later flights are lost.  \<^verbatim>\<open>build_retransmit\<close> skips \<open>snd_una - (iss + 1)\<close> bytes of
  \<open>send_buffer\<close>, although acknowledged bytes have already been drained from its front.  After
  \<open>d1\<close> was sent and acknowledged, data \<open>d2\<close> that is not longer than \<open>d1\<close> is never retransmitted:
  the timer sends an empty ACK instead, while \<open>d2\<close> is still unacknowledged.
\<close>

theorem second_flight_not_retransmitted:
  assumes "hm_get (connections m) (lip, lport, rip, rport) = Some t" "tcb_state t = Established"
    "snd_una t = iss t + 1" "snd_nxt t = iss t + 1" "send_buffer t = []"
    "d1 \<noteq> []" "length d1 < 4294967296" "length d2 \<le> length d1"
    "dst_port h = lport" "src_port h = rport" "has_flag h TCP_ACK" "\<not> has_flag h TCP_SYN"
    "\<not> has_flag h TCP_FIN" "hdr_ack h = iss t + 1 + of_nat (length d1)"
  shows "\<exists>t'. hm_get (connections (snd (socket_send \<lparr>sock_key = (lip, lport, rip, rport)\<rparr> d2
        (snd (process lip rip h [] now
          (snd (socket_send \<lparr>sock_key = (lip, lport, rip, rport)\<rparr> d1 m))))))) (lip, lport, rip, rport) = Some t' \<and>
    send_buffer t' = d2 \<and> snd_nxt t' = snd_una t' + of_nat (length d2) \<and>
    build_retransmit t' =
      \<lparr>seg_flags = TCP_ACK, seg_seq = snd_una t', seg_ack = rcv_nxt t', seg_payload = [],
       seg_dst_port = remote_port t'\<rparr>"
proof -
  let ?key = "(lip, lport, rip, rport)"
  have len: "(of_nat (length d1) :: u32) \<noteq> 0" "unat (of_nat (length d1) :: u32) = length d1"
    using assms(6,7) of_nat_u32_eq [of "length d1" 0] by (simp_all add: unat_of_nat take_bit_nat_eq_self)
  let ?t1 = "t\<lparr>snd_nxt := snd_nxt t + of_nat (length d1), send_buffer := send_buffer t @ d1\<rparr>"
  let ?t2 = "?t1\<lparr>send_buffer := [], snd_una := snd_nxt ?t1, retransmit_at := None, retransmit_count := 0\<rparr>"
  have ack: "process_existing_tcb ?t1 h [] now = ([], ?t2)"
    using assms(2-5,11-14) len
    by (simp add: process_existing_tcb_def on_Established_def established_data_def established_ack_eq Let_def)
  note r = process_hit [OF _ ack, of _ lip rip]
  show ?thesis
    using assms(1-5,8-10) r len
    by (simp add: send_established hm_simps) (simp add: build_retransmit_def retransmit_data_def Let_def)
qed

theorem second_flight_not_retransmitted_witness:
  "\<exists>t'. hm_get (connections (snd (socket_send \<lparr>sock_key = example_key\<rparr> [3, 4]
        (snd (process (192, 168, 100, 2) (192, 168, 100, 1) (example_header 1000 503 0x10) [] 5
          (snd (socket_send \<lparr>sock_key = example_key\<rparr> [1, 2] example_manager))))))) example_key = Some t' \<and>
    send_buffer t' = [3, 4] \<and> seg_payload (build_retransmit t') = []"
proof -
  have t: "hm_get (connections example_manager) example_key = Some example_tcb"
    by (simp add: example_manager_def hm_get_def)
  from second_flight_not_retransmitted [OF t [unfolded example_key_def], of "[1, 2]" "[3, 4]"
      "example_header 1000 503 0x10" 5]
  show ?thesis unfolding example_key_def
    by (simp add: example_header_def has_flag_def const_defs) (simp add: example_tcb_def, force)
qed

section \<open>Acknowledgements\<close>

text \<open>
  Only a full acknowledgement counts.  The test on \<open>snd_nxt\<close> compares an unsigned difference
  with zero, so on an established connection a bare ACK of part of the outstanding data
  changes nothing: no byte leaves \<open>send_buffer\<close>, and the timer and its count go on.
\<close>

theorem partial_ack_ignored:
  assumes "tcb_state t = Established" "hdr_ack h \<noteq> snd_nxt t" "\<not> has_flag h TCP_SYN" "\<not> has_flag h TCP_FIN"
  shows "process_existing_tcb t h [] now = ([], t)"
  using assms
  by (simp add: process_existing_tcb_def on_Established_def established_ack_eq established_data_def Let_def)

theorem partial_ack_ignored_witness:
  "process_existing_tcb example_sent (example_header 1000 503 0x10) [] 12 = ([], example_sent)"
  by (rule partial_ack_ignored)
    (simp_all add: example_sent_def example_tcb_def example_header_def has_flag_def const_defs)

text \<open>
  A full acknowledgement empties \<open>send_buffer\<close> of everything outstanding and stops the timer.
\<close>

theorem full_ack_completes:
  assumes "tcb_inv t" "tcb_state t = Established" "length (send_buffer t) < 4294967296"
    "send_buffer t \<noteq> []" "has_flag h TCP_ACK" "hdr_ack h = snd_nxt t"
  shows "send_buffer (snd (process_existing_tcb t h p now)) = [] \<and>
    snd_una (snd (process_existing_tcb t h p now)) = snd_nxt t \<and>
    retransmit_at (snd (process_existing_tcb t h p now)) = None \<and>
    retransmit_count (snd (process_existing_tcb t h p now)) = 0"
proof -
  have nxt: "snd_nxt t - snd_una t = of_nat (length (send_buffer t))"
    using assms(1,2) by (simp add: tcb_inv_def send_inv_def)
  then have "snd_una t \<noteq> snd_nxt t" "unat (snd_nxt t - snd_una t) = length (send_buffer t)"
    using assms(3,4) of_nat_u32_eq [of "length (send_buffer t)" 0]
    by (auto simp: unat_of_nat take_bit_nat_eq_self)
  then show ?thesis
    using assms(2,5,6)
    by (simp add: process_existing_tcb_def on_Established_def established_ack_eq established_data_def Let_def)
qed

theorem full_ack_completes_witness:
  "send_buffer (snd (process_existing_tcb example_sent (example_header 1000 504 0x10) [] 12)) = []"
proof -
  from full_ack_completes [OF example_sent_inv, of "example_header 1000 504 0x10" "[]" 12] show ?thesis
    by (simp add: example_sent_def example_tcb_def example_header_def has_flag_def const_defs)
qed

section \<open>Giving up\<close>

text \<open>
  Timer checks at the times \<open>ns\<close>: the segments they emit for \<open>key\<close>, each with the time of its check, and the
  table left.
\<close>

fun polls :: "ConnKey \<Rightarrow> instant list \<Rightarrow> TcpManager \<Rightarrow> (instant \<times> OutgoingSegment) list \<times> TcpManager" where
  "polls key [] m = ([], m)"
| "polls key (n # ns) m =
     (let (segs, m) = poll_retransmit n m; (segs', m) = polls key ns m
      in (map (\<lambda>(k, seg). (n, seg)) (filter (\<lambda>(k, _). k = key) segs) @ segs', m))"

text \<open>
  What is promised of a timer due at \<open>d\<close> whose timeout is \<open>r\<close>, with \<open>k\<close> copies left: a copy at the first check
  not before \<open>d\<close>, the next one due \<open>r\<close> after that check and its timeout twice as long, up to \<open>MAX_RTO\<close>.  The
  first check at which a copy is due and none is left gives up.  \<open>total_wait\<close> adds the timeouts up.
\<close>

definition checks_from :: "instant \<Rightarrow> instant list \<Rightarrow> instant list" where
  "checks_from d ns = dropWhile (\<lambda>n. n < d) ns"

primrec copy_times :: "nat \<Rightarrow> duration \<Rightarrow> instant \<Rightarrow> instant list \<Rightarrow> instant list" where
  "copy_times 0 r d ns = []"
| "copy_times (Suc k) r d ns =
     (case checks_from d ns of
        [] \<Rightarrow> []
      | n # ns' \<Rightarrow> n # copy_times k (min (r * 2) MAX_RTO) (n + r) ns')"

primrec gives_up :: "nat \<Rightarrow> duration \<Rightarrow> instant \<Rightarrow> instant list \<Rightarrow> bool" where
  "gives_up 0 r d ns = (checks_from d ns \<noteq> [])"
| "gives_up (Suc k) r d ns =
     (case checks_from d ns of
        [] \<Rightarrow> False
      | n # ns' \<Rightarrow> gives_up k (min (r * 2) MAX_RTO) (n + r) ns')"

primrec total_wait :: "nat \<Rightarrow> duration \<Rightarrow> duration" where
  "total_wait 0 r = 0"
| "total_wait (Suc k) r = r + total_wait k (min (r * 2) MAX_RTO)"

lemma checks_from_simps [simp]:
  "checks_from d [] = []"
  "checks_from d (n # ns) = (if n < d then checks_from d ns else n # ns)"
  by (simp_all add: checks_from_def)

lemma no_checks [simp]: "copy_times k r d [] = []" "gives_up k r d [] = False"
  by (cases k; simp)+

text \<open>Checks that go on until \<open>z\<close> and never leave a gap longer than \<open>\<delta>\<close> after \<open>a\<close>.\<close>

fun steady :: "duration \<Rightarrow> instant \<Rightarrow> instant \<Rightarrow> instant list \<Rightarrow> bool" where
  "steady \<delta> a z [] = (z \<le> a)"
| "steady \<delta> a z (n # ns) = (n \<le> a + \<delta> \<and> steady \<delta> (max a n) z ns)"

lemma steady_mono: "steady \<delta> a z ns \<Longrightarrow> a \<le> a' \<Longrightarrow> z' \<le> z \<Longrightarrow> steady \<delta> a' z' ns"
proof (induction ns arbitrary: a a')
  case (Cons n ns)
  then show ?case using Cons.IH [of "max a n" "max a' n"] by simp
qed simp

lemma steady_checks_from:
  assumes "steady \<delta> a z ns" "a \<le> d" "d + \<delta> < z"
  obtains n ns' where "checks_from d ns = n # ns'" "d \<le> n" "n \<le> d + \<delta>" "steady \<delta> n z ns'"
  using assms
proof (induction ns arbitrary: a thesis)
  case (Cons n ns)
  show ?case
  proof (cases "n < d")
    case True
    have "steady \<delta> (max a n) z ns" "max a n \<le> d" using Cons.prems True by auto
    from Cons.IH [OF _ this Cons.prems(4)] Cons.prems(1) True show ?thesis by (simp add: checks_from_def) blast
  next
    case False
    moreover have "steady \<delta> n z ns" using Cons.prems(2,3) False by (simp add: max_def split: if_splits)
    ultimately show ?thesis using Cons.prems(1-3) by (simp add: checks_from_def)
  qed
qed simp

lemma steady_gives_up:
  "steady \<delta> a z ns \<Longrightarrow> a \<le> d \<Longrightarrow> d + total_wait k r + (k + 1) * \<delta> < z \<Longrightarrow>
     gives_up k r d ns \<and> length (copy_times k r d ns) = k"
proof (induction k arbitrary: a d r ns)
  case 0
  from 0 have "d + \<delta> < z" by simp
  from steady_checks_from [OF 0(1,2) this] show ?case by (metis copy_times.simps(1) gives_up.simps(1) list.distinct(1) list.size(3))
next
  case (Suc k)
  have "d + \<delta> < z" using Suc.prems(3) by simp
  from steady_checks_from [OF Suc.prems(1,2) this] obtain n ns' where n: "checks_from d ns = n # ns'" "d \<le> n"
    "n \<le> d + \<delta>" "steady \<delta> n z ns'" .
  have "n + r + total_wait k (min (r * 2) MAX_RTO) + (k + 1) * \<delta> < z"
    using n(3) Suc.prems(3) by simp
  from Suc.IH [OF n(4) _ this] show ?case by (simp add: n(1))
qed

lemma checks_from_empty: "(\<And>n. n \<in> set ns \<Longrightarrow> n < d) \<Longrightarrow> checks_from d ns = []"
  by (simp add: checks_from_def)

lemma checks_fromD:
  "checks_from d ns = n # ns' \<Longrightarrow> d \<le> n \<and> n \<in> set ns \<and> set ns' \<subseteq> set ns"
  unfolding checks_from_def
  by (metis dropWhile_eq_Cons_conv list.set_intros(1) not_less set_dropWhileD set_subset_Cons subset_iff)

lemma early_not_gives_up:
  "(\<And>n. n \<in> set ns \<Longrightarrow> n < d + total_wait k r) \<Longrightarrow> \<not> gives_up k r d ns"
proof (induction k arbitrary: d r ns)
  case (Suc k)
  show ?case
  proof (cases "checks_from d ns")
    case (Cons n ns')
    note n = checks_fromD [OF Cons]
    have "n' < n + r + total_wait k (min (r * 2) MAX_RTO)" if "n' \<in> set ns'" for n'
      using Suc.prems [of n'] that n by auto
    from Suc.IH [OF this] show ?thesis by (simp add: Cons)
  qed simp
qed (simp add: checks_from_empty)

lemma emissions_for_key:
  fixes conns :: "('k \<times> Tcb) list"
  assumes "hm_ok conns"
  shows "filter (\<lambda>(k, _). k = key) [(k, seg). (k, t) \<leftarrow> conns, Some seg \<leftarrow> [fst (retransmit_one now t)]] =
    (case hm_get conns key of
       None \<Rightarrow> []
     | Some t \<Rightarrow> (case fst (retransmit_one now t) of None \<Rightarrow> [] | Some seg \<Rightarrow> [(key, seg)]))"
  using assms
proof (induction conns)
  case (Cons c conns)
  obtain k t where c: "c = (k, t)" by force
  have "hm_ok conns" "hm_get conns k = None"
    using Cons.prems by (auto simp: c hm_ok_def hm_get_def map_of_eq_None_iff)
  then show ?case
    using Cons.IH by (auto simp: c hm_get_def split: option.splits)
qed (simp add: hm_get_def)

lemma poll_emits:
  assumes "hm_ok (connections m)" "hm_get (connections m) key = Some t"
  shows "map (\<lambda>(k, seg). (now, seg)) (filter (\<lambda>(k, _). k = key) (fst (poll_retransmit now m))) =
    (case fst (retransmit_one now t) of None \<Rightarrow> [] | Some seg \<Rightarrow> [(now, seg)])"
  unfolding poll_retransmit_def fst_conv emissions_for_key [OF assms(1)]
  by (simp add: assms(2) split: option.split)

lemma polls_Cons:
  "hm_ok (connections m) \<Longrightarrow> hm_get (connections m) key = Some t \<Longrightarrow>
   polls key (n # ns) m =
     ((case fst (retransmit_one n t) of None \<Rightarrow> [] | Some seg \<Rightarrow> [(n, seg)]) @
        fst (polls key ns (snd (poll_retransmit n m))),
      snd (polls key ns (snd (poll_retransmit n m))))"
  by (simp add: case_prod_beta poll_emits)

lemma polls_absent:
  "manager_inv m \<Longrightarrow> hm_get (connections m) key = None \<Longrightarrow>
     fst (polls key ns m) = [] \<and> hm_get (connections (snd (polls key ns m))) key = None"
proof (induction ns arbitrary: m)
  case (Cons n ns)
  have ok: "hm_ok (connections m)" using Cons.prems(1) by (simp add: manager_inv_def)
  have "hm_get (connections (snd (poll_retransmit n m))) key = None"
    using Cons.prems(2) ok by (simp add: poll_get)
  moreover have "filter (\<lambda>(k, _). k = key) (fst (poll_retransmit n m)) = []"
    unfolding poll_retransmit_def fst_conv emissions_for_key [OF ok] by (simp add: Cons.prems(2))
  ultimately show ?case
    using Cons.IH [OF manager_inv_poll [OF Cons.prems(1)]] by (simp add: case_prod_beta)
qed simp

lemma poll_fires:
  assumes "manager_inv m" "hm_get (connections m) key = Some t" "tcb_state t \<noteq> Closed"
    "retransmit_at t = Some d" "d \<le> n" "retransmit_count t < MAX_RETRANSMITS"
  obtains t' where "hm_get (connections (snd (poll_retransmit n m))) key = Some t'"
    "retransmit_one n t = (Some (build_retransmit t), t')" "tcb_state t' = tcb_state t"
    "build_retransmit t' = build_retransmit t" "rto t' = min (rto t * 2) MAX_RTO"
    "retransmit_at t' = Some (n + rto t)" "retransmit_count t' = retransmit_count t + 1"
proof -
  have rto: "0 < rto t" "rto t \<le> MAX_RTO"
    using manager_invD [OF assms(1,2)] by (auto simp: tcb_inv_def timer_inv_def timer_consts)
  note f = retransmit_one_fires [OF assms(4-6)]
  have "keep_connection n (snd (retransmit_one n t))"
    using rto(1) assms(3) by (simp add: f keep_connection_def)
  then have "hm_get (connections (snd (poll_retransmit n m))) key = Some (snd (retransmit_one n t))"
    using assms(1,2) by (simp add: poll_get manager_inv_def Let_def)
  then show ?thesis by (rule that) (simp_all add: f)
qed

lemma poll_early:
  assumes "manager_inv m" "hm_get (connections m) key = Some t" "tcb_state t \<noteq> Closed"
    "retransmit_at t = Some d" "n < d"
  shows "hm_get (connections (snd (poll_retransmit n m))) key = Some t"
  using assms by (simp add: poll_get manager_inv_def retransmit_one_simps(2) keep_connection_def)

lemma schedule_early:
  "n < d \<Longrightarrow> copy_times k r d (n # ns) = copy_times k r d ns"
  "n < d \<Longrightarrow> gives_up k r d (n # ns) = gives_up k r d ns"
  by (cases k; simp add: checks_from_def)+

lemma polls_schedule:
  assumes "manager_inv m" "hm_get (connections m) key = Some t" "tcb_state t \<noteq> Closed"
    "retransmit_at t = Some d" "k = MAX_RETRANSMITS - retransmit_count t"
  shows "fst (polls key ns m) = map (\<lambda>n. (n, build_retransmit t)) (copy_times k (rto t) d ns) \<and>
    (hm_get (connections (snd (polls key ns m))) key = None) = gives_up k (rto t) d ns"
  using assms
proof (induction ns arbitrary: m t d k)
  case Nil
  then show ?case by simp
next
  case (Cons n ns)
  have ok: "hm_ok (connections m)" using Cons.prems(1) by (simp add: manager_inv_def)
  note inv = manager_inv_poll [OF Cons.prems(1)] and unfold = polls_Cons [OF ok Cons.prems(2)]
  consider "n < d" | (fires) "d \<le> n" "retransmit_count t < MAX_RETRANSMITS"
    | (dead) "d \<le> n" "MAX_RETRANSMITS \<le> retransmit_count t" by linarith
  then show ?case
  proof cases
    case 1
    from Cons.IH [OF inv poll_early [OF Cons.prems(1-4) 1] Cons.prems(3-5)] show ?thesis
      by (simp add: unfold retransmit_one_simps(2) [OF Cons.prems(4) 1] schedule_early [OF 1] del: polls.simps)
  next
    case fires
    from poll_fires [OF Cons.prems(1-4) fires] obtain t' where t':
      "hm_get (connections (snd (poll_retransmit n m))) key = Some t'"
      "retransmit_one n t = (Some (build_retransmit t), t')" "tcb_state t' = tcb_state t"
      "build_retransmit t' = build_retransmit t" "rto t' = min (rto t * 2) MAX_RTO"
      "retransmit_at t' = Some (n + rto t)" "retransmit_count t' = retransmit_count t + 1" .
    have k: "k = Suc (MAX_RETRANSMITS - retransmit_count t')"
      using fires(2) Cons.prems(5) t'(7) by simp
    from Cons.IH [OF inv t'(1) _ t'(6) refl] Cons.prems(3) fires(1) show ?thesis
      by (simp add: unfold k t'(2-5) checks_from_def del: polls.simps)
  next
    case dead
    note fin = retransmit_one_simps(3) [OF Cons.prems(4) dead]
    have "hm_get (connections (snd (poll_retransmit n m))) key = None"
      using Cons.prems(2) ok by (simp add: poll_get fin keep_connection_def)
    from polls_absent [OF inv this] show ?thesis
      using dead Cons.prems(5) by (simp add: unfold fin checks_from_def del: polls.simps)
  qed
qed

text \<open>
  (C9) Giving up.  Nothing arrives for a connection whose timer runs, in any state but \<open>Closed\<close>, and the program
  checks its timers at any times \<open>ns\<close>, be it every millisecond.  Then it emits the same segment again exactly at the
  first check not before the deadline, and so on at the first check not before each next deadline: one timeout later,
  the timeout doubling up to \<open>MAX_RTO\<close>; at no other check.  When \<open>MAX_RETRANSMITS\<close> copies are counted, the first
  check not before the deadline removes the connection, and no other does.  So before all the timeouts have passed it
  stays, and with checks at most \<open>\<delta>\<close> apart it has emitted all its copies and is gone at most one \<open>\<delta>\<close> for each of
  them, and one for the last check, after that.
\<close>

theorem silent_connection_given_up:
  assumes "manager_inv m" "hm_get (connections m) key = Some t" "tcb_state t \<noteq> Closed"
    "retransmit_at t = Some d"
  shows "let k = MAX_RETRANSMITS - retransmit_count t;
             (copies, m') = polls key ns m
         in copies = map (\<lambda>n. (n, build_retransmit t)) (copy_times k (rto t) d ns) \<and>
            (hm_get (connections m') key = None) = gives_up k (rto t) d ns \<and>
            ((\<forall>n \<in> set ns. n < d + total_wait k (rto t)) \<longrightarrow> hm_get (connections m') key \<noteq> None) \<and>
            (\<forall>\<delta>. steady \<delta> d (d + total_wait k (rto t) + (k + 1) * \<delta> + 1) ns \<longrightarrow>
               length copies = k \<and> hm_get (connections m') key = None)"
  using polls_schedule [OF assms refl, of ns]
    early_not_gives_up [of ns d "MAX_RETRANSMITS - retransmit_count t" "rto t"]
    steady_gives_up [of _ d _ ns d "MAX_RETRANSMITS - retransmit_count t" "rto t"]
  by (auto simp: Let_def case_prod_beta)

definition example_waiting :: "Tcb \<Rightarrow> TcpManager" where
  "example_waiting t = \<lparr>connections = [(example_key, t)]\<rparr>"

lemma example_waiting_inv:
  "tcb_inv t \<Longrightarrow> conn_id t = example_key \<Longrightarrow> manager_inv (example_waiting t)"
  "hm_get (connections (example_waiting t)) example_key = Some t"
  by (simp_all add: example_waiting_def manager_inv_def hm_ok_def hm_get_def)

definition minutes :: "nat \<Rightarrow> instant" where
  "minutes n = from_secs (60 * n)"

definition seconds :: "nat \<Rightarrow> instant" where
  "seconds n = from_secs n"

text \<open>
  Checks every second: the deadline is 10 ns, so the copies leave after 1, 2, 4, 8 and 16 s, and the check after
  32 s gives up.
\<close>

theorem silent_connection_given_up_witness:
  "fst (polls example_key (map seconds (1 # [2..<33])) (example_waiting example_sent)) =
     map (\<lambda>n. (seconds n, build_retransmit example_sent)) [1, 2, 4, 8, 16] \<and>
   hm_get (connections (snd (polls example_key (map seconds (1 # [2..<32])) (example_waiting example_sent)))) example_key \<noteq> None \<and>
   hm_get (connections (snd (polls example_key (map seconds (1 # [2..<33])) (example_waiting example_sent)))) example_key = None \<and>
   hm_get (connections (snd (polls example_key (map seconds (1 # [2..<39])) (example_waiting example_sent)))) example_key = None"
proof -
  have id: "conn_id example_sent = example_key"
    by (simp add: conn_id_def example_sent_def example_tcb_def example_key_def)
  note inv = example_waiting_inv(1) [OF example_sent_inv id] example_waiting_inv(2)
  have t: "tcb_state example_sent \<noteq> Closed" "retransmit_at example_sent = Some 10"
    "retransmit_count example_sent = 0" "rto example_sent = 1000000000"
    by (simp_all add: example_sent_def example_tcb_def timer_consts)
  note run = silent_connection_given_up [OF inv t(1,2), unfolded t MAX_RETRANSMITS_def Let_def case_prod_beta diff_zero]
  have five: "(5 :: nat) = Suc (Suc (Suc (Suc (Suc 0))))" by simp
  have copies: "copy_times 5 1000000000 10 (map seconds (1 # [2..<33])) = map seconds [1, 2, 4, 8, 16]"
    "gives_up 5 1000000000 10 (map seconds (1 # [2..<33]))"
    unfolding five by (simp_all add: seconds_def timer_consts)
  have early: "\<not> gives_up 5 1000000000 10 (map seconds (1 # [2..<32]))"
    unfolding five by (simp add: seconds_def timer_consts)
  have wait: "10 + total_wait 5 1000000000 + (5 + 1) * 1000000000 + 1 = 37000000011"
    unfolding five by (simp add: timer_consts)
  have "steady 1000000000 10 37000000011 (map seconds (1 # [2..<39]))"
    by (simp add: seconds_def from_secs_def)
  then have "steady 1000000000 10 (10 + total_wait 5 1000000000 + (5 + 1) * 1000000000 + 1) (map seconds (1 # [2..<39]))"
    unfolding wait .
  then have "hm_get (connections (snd (polls example_key (map seconds (1 # [2..<39])) (example_waiting example_sent))))
      example_key = None"
    using run [of "map seconds (1 # [2..<39])"] by (simp only: diff_zero)
  moreover have "fst (polls example_key (map seconds (1 # [2..<33])) (example_waiting example_sent)) =
      map (\<lambda>n. (seconds n, build_retransmit example_sent)) [1, 2, 4, 8, 16]"
    using run [of "map seconds (1 # [2..<33])"] copies(1) by (simp only: list.map)
  moreover have "hm_get (connections (snd (polls example_key (map seconds (1 # [2..<33])) (example_waiting example_sent))))
      example_key = None"
    using run [of "map seconds (1 # [2..<33])"] copies(2) by (simp only: simp_thms)
  moreover have "hm_get (connections (snd (polls example_key (map seconds (1 # [2..<32])) (example_waiting example_sent))))
      example_key \<noteq> None"
    using run [of "map seconds (1 # [2..<32])"] early by (simp only: simp_thms)
  ultimately show ?thesis by (simp only: simp_thms)
qed

text \<open>
  \<open>TimeWait\<close> does not end after its minute.  The check that finds the deadline passed first
  re-arms it like a retransmission, so the test for an expired \<open>TimeWait\<close> block that follows
  always sees a deadline in the future: the block stays, and an unneeded ACK is sent.
\<close>

theorem time_wait_rearmed:
  assumes "manager_inv m" "hm_get (connections m) key = Some t" "tcb_state t = TimeWait"
    "retransmit_at t = Some d" "d \<le> now" "retransmit_count t < MAX_RETRANSMITS"
  shows "\<exists>t'. hm_get (connections (snd (poll_retransmit now m))) key = Some t' \<and>
    tcb_state t' = TimeWait \<and> retransmit_at t' = Some (now + rto t) \<and> now < now + rto t \<and>
    (key, \<lparr>seg_flags = TCP_ACK, seg_seq = snd_una t, seg_ack = rcv_nxt t, seg_payload = [],
       seg_dst_port = remote_port t\<rparr>) \<in> set (fst (poll_retransmit now m))"
proof -
  have inv: "hm_ok (connections m)" "0 < rto t"
    using assms(1) manager_invD [OF assms(1,2)]
    by (auto simp: manager_inv_def tcb_inv_def timer_inv_def timer_consts)
  have "tcb_state t \<noteq> Closed" by (simp add: assms(3))
  from poll_fires [OF assms(1,2) this assms(4-6)] obtain t' where t':
    "hm_get (connections (snd (poll_retransmit now m))) key = Some t'"
    "retransmit_one now t = (Some (build_retransmit t), t')" "tcb_state t' = tcb_state t"
    "build_retransmit t' = build_retransmit t" "rto t' = min (rto t * 2) MAX_RTO"
    "retransmit_at t' = Some (now + rto t)" "retransmit_count t' = retransmit_count t + 1" .
  have "filter (\<lambda>(k, _). k = key) (fst (poll_retransmit now m)) = [(key, build_retransmit t)]"
    unfolding poll_retransmit_def fst_conv emissions_for_key [OF inv(1)] by (simp add: assms(2) t'(2))
  then have "(key, build_retransmit t) \<in> set (filter (\<lambda>(k, _). k = key) (fst (poll_retransmit now m)))"
    by simp
  then have "(key, build_retransmit t) \<in> set (fst (poll_retransmit now m))"
    unfolding set_filter by blast
  moreover have "build_retransmit t = \<lparr>seg_flags = TCP_ACK, seg_seq = snd_una t, seg_ack = rcv_nxt t,
      seg_payload = [], seg_dst_port = remote_port t\<rparr>"
    by (simp add: build_retransmit_def assms(3))
  ultimately show ?thesis using t' assms(3) inv(2) by simp
qed

definition example_time_wait :: Tcb where
  "example_time_wait = example_tcb\<lparr>tcb_state := TimeWait, retransmit_at := Some (minutes 1)\<rparr>"

theorem time_wait_rearmed_witness:
  "\<exists>t'. hm_get (connections (snd (poll_retransmit (minutes 2) (example_waiting example_time_wait))))
      example_key = Some t' \<and> tcb_state t' = TimeWait"
proof -
  have "tcb_inv example_time_wait" "conn_id example_time_wait = example_key"
    by (simp_all add: example_time_wait_def example_tcb_def tcb_inv_def send_inv_def timer_inv_def
        timer_consts conn_id_def example_key_def)
  note inv = example_waiting_inv(1) [OF this] example_waiting_inv(2)
  from time_wait_rearmed [OF inv, of "minutes 1" "minutes 2"] show ?thesis
    by (simp add: example_time_wait_def example_tcb_def minutes_def timer_consts) blast
qed

section \<open>Data that arrives with a FIN\<close>

text \<open>
  After an active close, data that arrives together with the peer's FIN is acknowledged but
  never delivered: the ACK covers it, \<open>recv_buffer\<close> does not get it.
\<close>

theorem data_with_fin_dropped:
  assumes "tcb_state t = FinWait2" "has_flag h TCP_FIN" "hdr_seq h = rcv_nxt t"
  shows "\<exists>t' ack. process_existing_tcb t h p now = ([ack], t') \<and> tcb_state t' = TimeWait \<and>
    seg_flags ack = TCP_ACK \<and> seg_ack ack = hdr_seq h + of_nat (length p) + 1 \<and>
    recv_buffer t' = recv_buffer t"
  using assms
  by (simp add: process_existing_tcb_def on_FinWait2_def Let_def ack_segment_def add.assoc)

theorem data_with_fin_dropped_witness:
  "\<exists>t' ack. process_existing_tcb (example_tcb\<lparr>tcb_state := FinWait2\<rparr>) (example_header 1000 501 0x19) [1, 2] 0 =
      ([ack], t') \<and> seg_ack ack = 1003 \<and> recv_buffer t' = []"
  using data_with_fin_dropped [of "example_tcb\<lparr>tcb_state := FinWait2\<rparr>" "example_header 1000 501 0x19" "[1, 2]" 0]
  by (simp add: example_tcb_def example_header_def has_flag_def const_defs) blast

end
