(* ===== verification/Stack.thy ===== *)
theory Stack
  imports Arp Ethernet Ipv4 Tcp_Retransmit
begin

text \<open>
  \<^verbatim>\<open>TCP-stack/src/stack.rs\<close>: the stack that joins the TAP device, the ARP cache and the
  connection table, as one state record and one definition per method.

  The device is the list \<open>tap_out\<close> of frames handed to \<^verbatim>\<open>write_frame\<close>, whose result the
  code ignores, and the list of results of \<^verbatim>\<open>read_frame\<close> that \<open>poll\<close> is given.  The
  readings of \<^verbatim>\<open>Instant::now()\<close> are \<open>clock 0, clock 1, \<dots>\<close>, of which \<open>reads\<close> are used up;
  \<^verbatim>\<open>ArpCache\<close> takes a reading in \<^verbatim>\<open>lookup\<close>, \<^verbatim>\<open>learn\<close> and \<^verbatim>\<open>insert\<close>
  (where the code returns before it looks at the clock, a reading is used up here too; the
  readings being arbitrary, this makes no difference).  Console messages are left out.
\<close>

section \<open>State\<close>

record TcpStack =
  arp :: ArpCache
  tcp :: TcpManager
  our_ip :: ip4
  our_mac :: mac
  st_now :: instant
  tap_out :: "bytes list"
  clock :: "nat \<Rightarrow> instant"
  reads :: nat

definition instant_now :: "TcpStack \<Rightarrow> instant \<times> TcpStack" where
  "instant_now s = (clock s (reads s), s\<lparr>reads := reads s + 1\<rparr>)"

definition write_frame :: "bytes \<Rightarrow> TcpStack \<Rightarrow> TcpStack" where
  "write_frame fr s = s\<lparr>tap_out := tap_out s @ [fr]\<rparr>"

text \<open>\<^verbatim>\<open>TcpStack::new\<close>, once the device is open and its address \<open>tap_mac\<close> is read.\<close>

definition stack_new :: "mac \<Rightarrow> ip4 \<Rightarrow> (nat \<Rightarrow> instant) \<Rightarrow> TcpStack" where
  "stack_new tap_mac ip clk =
     \<lparr>arp = arp_new, tcp = manager_new, our_ip = ip, our_mac = tap_mac, st_now = clk 0,
      tap_out = [], clock = clk, reads = 1\<rparr>"

section \<open>Sending\<close>

definition send_frame :: "ip4 \<Rightarrow> bytes \<Rightarrow> ConnKey option \<Rightarrow> TcpStack \<Rightarrow> TcpStack" where
  "send_frame dst_ip ip_packet conn_key s =
     (let s = (case conn_key of
                 Some k \<Rightarrow> s\<lparr>tcp := record_sent k (st_now s) (tcp s)\<rparr>
               | None \<Rightarrow> s);
          (t, s) = instant_now s
      in case arp_lookup t dst_ip (arp s) of
           Some dst_mac \<Rightarrow>
             write_frame (build_frame dst_mac (our_mac s) ETH_TYPE_IPV4 ip_packet) s
         | None \<Rightarrow>
             let (is_new, cache) = queue_packet dst_ip ip_packet (st_now s) (arp s);
                 s = s\<lparr>arp := cache\<rparr>
             in if is_new
                then let req = build_arp_request (our_mac s) (our_ip s) dst_ip;
                         s = write_frame (build_frame BROADCAST_MAC (our_mac s) ETH_TYPE_ARP req) s
                     in s\<lparr>arp := record_request dst_ip (st_now s) (arp s)\<rparr>
                else s)"

definition send_segment :: "ConnKey option \<Rightarrow> ip4 \<Rightarrow> OutgoingSegment \<Rightarrow> TcpStack \<Rightarrow> TcpStack" where
  "send_segment key dst_ip seg s =
     (let sport = (case key of
                     Some (_, port, _, _) \<Rightarrow> port
                   | None \<Rightarrow> (case find_src_port dst_ip (seg_dst_port seg) (tcp s) of
                               Some port \<Rightarrow> port
                             | None \<Rightarrow> 0));
          seg_bytes = build_tcp_segment (our_ip s) dst_ip sport (seg_dst_port seg) (seg_seq seg)
            (seg_ack seg) (seg_flags seg) DEFAULT_WINDOW (seg_payload seg);
          ip_packet = build_ipv4 (our_ip s) dst_ip IP_PROTO_TCP 64 seg_bytes
      in send_frame dst_ip ip_packet key s)"

definition send_segments_with_key ::
  "OutgoingSegment list \<Rightarrow> ConnKey option \<Rightarrow> ip4 \<Rightarrow> TcpStack \<Rightarrow> TcpStack" where
  "send_segments_with_key segs key dst_ip s = fold (send_segment key dst_ip) segs s"

section \<open>The application's calls\<close>

definition stack_connect :: "nat \<Rightarrow> ip4 \<Rightarrow> u16 \<Rightarrow> TcpStack \<Rightarrow> TcpSocket option \<times> TcpStack" where
  "stack_connect nanos rip rport s =
     (let ((sock, outgoing), m) = socket_connect nanos (our_ip s) rip rport (st_now s) (tcp s);
          s = s\<lparr>tcp := m\<rparr>;
          key = map_option sock_key sock
      in (sock, send_segments_with_key outgoing key rip s))"

text \<open>The address a socket sends to: that of its block, or \<^verbatim>\<open>[0; 4]\<close>.\<close>

definition socket_remote_ip :: "TcpSocket \<Rightarrow> TcpManager \<Rightarrow> ip4" where
  "socket_remote_ip sock m =
     (case hm_get (connections m) (sock_key sock) of
        Some t \<Rightarrow> remote_ip t | None \<Rightarrow> (0, 0, 0, 0))"

definition stack_send :: "TcpSocket \<Rightarrow> bytes \<Rightarrow> TcpStack \<Rightarrow> nat \<times> TcpStack" where
  "stack_send sock data s =
     (let len = length data;
          (segs, m) = socket_send sock data (tcp s);
          s = s\<lparr>tcp := m\<rparr>
      in (len, send_segments_with_key segs (Some (sock_key sock)) (socket_remote_ip sock (tcp s)) s))"

definition stack_recv :: "TcpSocket \<Rightarrow> TcpStack \<Rightarrow> bytes \<times> TcpStack" where
  "stack_recv sock s = (let (data, m) = socket_recv sock (tcp s) in (data, s\<lparr>tcp := m\<rparr>))"

definition stack_close :: "TcpSocket \<Rightarrow> TcpStack \<Rightarrow> TcpStack" where
  "stack_close sock s =
     (let (segs, m) = socket_close sock (st_now s) (tcp s);
          s = s\<lparr>tcp := m\<rparr>
      in send_segments_with_key segs (Some (sock_key sock)) (socket_remote_ip sock (tcp s)) s)"

definition stack_state :: "TcpSocket \<Rightarrow> TcpStack \<Rightarrow> TcpState option" where
  "stack_state sock s = map_option tcb_state (hm_get (connections (tcp s)) (sock_key sock))"

definition is_established :: "TcpSocket \<Rightarrow> TcpStack \<Rightarrow> bool" where
  "is_established sock s = (stack_state sock s = Some Established)"

definition is_closed :: "TcpSocket \<Rightarrow> TcpStack \<Rightarrow> bool" where
  "is_closed sock s = (stack_state sock s = Some Closed \<or> stack_state sock s = None)"

section \<open>Receiving\<close>

definition handle_arp :: "EthernetHdr \<Rightarrow> bytes \<Rightarrow> TcpStack \<Rightarrow> TcpStack" where
  "handle_arp hdr payload s =
     (case parse_arp payload of
        None \<Rightarrow> s
      | Some pkt \<Rightarrow>
          let (t, s) = instant_now s;
              s = s\<lparr>arp := arp_learn t (spa pkt) (sha pkt) (arp s)\<rparr>
          in if oper pkt = ARP_OP_REQUEST \<and> tpa pkt = our_ip s
             then let reply = build_arp_reply (our_mac s) (our_ip s) (sha pkt) (spa pkt)
                  in write_frame (build_frame (sha pkt) (our_mac s) ETH_TYPE_ARP reply) s
             else if oper pkt = ARP_OP_REPLY
             then let (t, s) = instant_now s;
                      (queued, cache) = arp_insert t (spa pkt) (sha pkt) (arp s);
                      s = s\<lparr>arp := cache\<rparr>
                  in fold (\<lambda>qpkt s. write_frame (build_frame (sha pkt) (our_mac s) ETH_TYPE_IPV4 qpkt) s)
                       queued s
             else s)"

definition handle_icmp :: "Ipv4Header \<Rightarrow> bytes \<Rightarrow> TcpStack \<Rightarrow> TcpStack" where
  "handle_icmp ip_hdr ip_payload s =
     (case build_icmp_echo_reply ip_payload of
        None \<Rightarrow> s
      | Some reply \<Rightarrow>
          send_frame (ip_src ip_hdr) (build_ipv4 (our_ip s) (ip_src ip_hdr) IP_PROTO_ICMP 64 reply) None s)"

definition handle_tcp :: "Ipv4Header \<Rightarrow> bytes \<Rightarrow> TcpStack \<Rightarrow> TcpStack" where
  "handle_tcp ip_hdr ip_payload s =
     (if \<not> verify_tcp_checksum (ip_src ip_hdr) (ip_dst ip_hdr) ip_payload then s
      else case parse_tcp ip_payload of
             None \<Rightarrow> s
           | Some (tcp_hdr, tcp_data) \<Rightarrow>
               let ((key, outgoing), m) =
                     process (our_ip s) (ip_src ip_hdr) tcp_hdr tcp_data (st_now s) (tcp s);
                   s = s\<lparr>tcp := m\<rparr>
               in send_segments_with_key outgoing key (ip_src ip_hdr) s)"

definition handle_ipv4 :: "EthernetHdr \<Rightarrow> bytes \<Rightarrow> TcpStack \<Rightarrow> TcpStack" where
  "handle_ipv4 hdr payload s =
     (case parse_ipv4 payload of
        None \<Rightarrow> s
      | Some (ip_hdr, ip_payload) \<Rightarrow>
          let (t, s) = instant_now s;
              s = s\<lparr>arp := arp_learn t (ip_src ip_hdr) (eth_src hdr) (arp s)\<rparr>
          in if protocol ip_hdr = IP_PROTO_ICMP then handle_icmp ip_hdr ip_payload s
             else if protocol ip_hdr = IP_PROTO_TCP then handle_tcp ip_hdr ip_payload s
             else s)"

definition dispatch :: "bytes \<Rightarrow> TcpStack \<Rightarrow> TcpStack" where
  "dispatch data s =
     (case parse_frame data of
        None \<Rightarrow> s
      | Some (header, payload) \<Rightarrow>
          if ethertype header = ETH_TYPE_ARP then handle_arp header payload s
          else if ethertype header = ETH_TYPE_IPV4 then handle_ipv4 header payload s
          else s)"

section \<open>The main loop's step\<close>

definition arp_retry :: "ip4 \<Rightarrow> TcpStack \<Rightarrow> TcpStack" where
  "arp_retry ip s =
     (let req = build_arp_request (our_mac s) (our_ip s) ip;
          s = write_frame (build_frame BROADCAST_MAC (our_mac s) ETH_TYPE_ARP req) s
      in s\<lparr>arp := record_request ip (st_now s) (arp s)\<rparr>)"

definition stack_arp_tick :: "TcpStack \<Rightarrow> TcpStack" where
  "stack_arp_tick s =
     (let (tick, cache) = arp_tick (st_now s) (arp s)
      in fold arp_retry (retry_ips tick) (s\<lparr>arp := cache\<rparr>))"

definition send_retransmit :: "ConnKey \<times> OutgoingSegment \<Rightarrow> TcpStack \<Rightarrow> TcpStack" where
  "send_retransmit = (\<lambda>((lip, lport, rip, rport), seg) s.
     let seg_bytes = build_tcp_segment (our_ip s) rip lport (seg_dst_port seg) (seg_seq seg)
           (seg_ack seg) (seg_flags seg) DEFAULT_WINDOW (seg_payload seg);
         ip_packet = build_ipv4 (our_ip s) rip IP_PROTO_TCP 64 seg_bytes
     in send_frame rip ip_packet (Some (lip, lport, rip, rport)) s)"

definition tcp_retransmit :: "TcpStack \<Rightarrow> TcpStack" where
  "tcp_retransmit s =
     (let (retrans, m) = poll_retransmit (st_now s) (tcp s)
      in fold send_retransmit retrans (s\<lparr>tcp := m\<rparr>))"

text \<open>
  What \<^verbatim>\<open>read_frame\<close> returns: a frame, \<^verbatim>\<open>WouldBlock\<close>, or another error, by its code.
  The list ends where the device would block.
\<close>

datatype read_result = Frame bytes | WouldBlock | ReadError nat

fun read_loop :: "read_result list \<Rightarrow> TcpStack \<Rightarrow> (nat + unit) \<times> TcpStack" where
  "read_loop (Frame data # rs) s = read_loop rs (dispatch data s)"
| "read_loop (WouldBlock # rs) s = (Inr (), s)"
| "read_loop (ReadError e # rs) s = (Inl e, s)"
| "read_loop [] s = (Inr (), s)"

definition poll :: "read_result list \<Rightarrow> TcpStack \<Rightarrow> (nat + unit) \<times> TcpStack" where
  "poll results s =
     (let (t, s) = instant_now s;
          s = s\<lparr>st_now := t\<rparr>;
          s = stack_arp_tick s;
          s = tcp_retransmit s
      in read_loop results s)"

end
