(* ===== verification/Stack_Correct.thy ===== *)
theory Stack_Correct
  imports Stack
begin

text \<open>
  What the assembled stack does: the invariant of its state, the answers to ARP and ICMP
  requests, the frames it emits for TCP, address resolution, and how sending arms the timers.
\<close>

section \<open>What sending changes\<close>

lemma instant_now_simps [simp]:
  "fst (instant_now s) = clock s (reads s)"
  "snd (instant_now s) = s\<lparr>reads := reads s + 1\<rparr>"
  by (simp_all add: instant_now_def)

lemma write_frame_simps [simp]:
  "arp (write_frame fr s) = arp s" "tcp (write_frame fr s) = tcp s"
  "our_ip (write_frame fr s) = our_ip s" "our_mac (write_frame fr s) = our_mac s"
  "st_now (write_frame fr s) = st_now s" "clock (write_frame fr s) = clock s"
  "reads (write_frame fr s) = reads s" "tap_out (write_frame fr s) = tap_out s @ [fr]"
  by (simp_all add: write_frame_def)

lemma send_frame_fixed [simp]:
  "our_ip (send_frame ip pkt key s) = our_ip s" "our_mac (send_frame ip pkt key s) = our_mac s"
  "st_now (send_frame ip pkt key s) = st_now s" "clock (send_frame ip pkt key s) = clock s"
  by (simp_all add: send_frame_def Let_def case_prod_beta split: option.split)

lemma tcp_send_frame:
  "tcp (send_frame ip pkt key s) =
     (case key of None \<Rightarrow> tcp s | Some k \<Rightarrow> record_sent k (st_now s) (tcp s))"
  by (simp add: send_frame_def Let_def case_prod_beta split: option.split)

lemma arp_inv_request:
  "arp_inv c \<Longrightarrow> fst (queue_packet ip pkt now c) \<Longrightarrow>
     arp_inv (record_request ip now' (snd (queue_packet ip pkt now c)))"
  by (rule arp_inv_record_request [OF arp_inv_queue_packet])
    (auto simp: queue_packet_def Let_def hm_contains_def hm_simps MAX_RETRIES_def)

lemma arp_inv_send_frame: "arp_inv (arp s) \<Longrightarrow> arp_inv (arp (send_frame ip pkt key s))"
  by (simp add: send_frame_def Let_def case_prod_beta arp_inv_queue_packet arp_inv_request split: option.split)

text \<open>A destination whose address is known gets the packet at once.\<close>

lemma send_frame_known:
  "arp_lookup (clock s (reads s)) ip (arp s) = Some m \<Longrightarrow>
   tap_out (send_frame ip pkt key s) = tap_out s @ [build_frame m (our_mac s) ETH_TYPE_IPV4 pkt]"
  by (simp add: send_frame_def Let_def case_prod_beta split: option.split)

definition stack_inv :: "TcpStack \<Rightarrow> bool" where
  "stack_inv s = (arp_inv (arp s) \<and> manager_inv (tcp s))"

lemma stack_inv_updates [simp]:
  "stack_inv (s\<lparr>reads := n\<rparr>) = stack_inv s" "stack_inv (s\<lparr>st_now := t\<rparr>) = stack_inv s"
  "stack_inv (write_frame fr s) = stack_inv s"
  by (simp_all add: stack_inv_def)

lemma stack_inv_tcp: "stack_inv s \<Longrightarrow> manager_inv m \<Longrightarrow> stack_inv (s\<lparr>tcp := m\<rparr>)"
  by (simp add: stack_inv_def)

lemma stack_inv_arp: "stack_inv s \<Longrightarrow> arp_inv c \<Longrightarrow> stack_inv (s\<lparr>arp := c\<rparr>)"
  by (simp add: stack_inv_def)

lemma stack_invD: "stack_inv s \<Longrightarrow> arp_inv (arp s)" "stack_inv s \<Longrightarrow> manager_inv (tcp s)"
  by (simp_all add: stack_inv_def)

lemma stack_inv_send_frame: "stack_inv s \<Longrightarrow> stack_inv (send_frame ip pkt key s)"
  by (simp add: stack_inv_def arp_inv_send_frame tcp_send_frame manager_inv_record_sent split: option.split)

lemma stack_inv_fold:
  "(\<And>x s. stack_inv s \<Longrightarrow> stack_inv (f x s)) \<Longrightarrow> stack_inv s \<Longrightarrow> stack_inv (fold f xs s)"
  by (induction xs arbitrary: s) auto

lemma stack_inv_send_segments: "stack_inv s \<Longrightarrow> stack_inv (send_segments_with_key segs key ip s)"
  unfolding send_segments_with_key_def
  by (rule stack_inv_fold) (simp_all add: send_segment_def Let_def stack_inv_send_frame)

section \<open>The invariant\<close>

lemma stack_inv_handle_arp: "stack_inv s \<Longrightarrow> stack_inv (handle_arp hdr payload s)"
  by (simp add: handle_arp_def Let_def case_prod_beta stack_inv_arp stack_invD arp_inv_learn arp_inv_insert
      stack_inv_fold split: option.split)

lemma stack_inv_handle_tcp: "stack_inv s \<Longrightarrow> stack_inv (handle_tcp h payload s)"
  by (simp add: handle_tcp_def Let_def case_prod_beta stack_inv_send_segments stack_inv_tcp stack_invD
      manager_inv_process split: option.split)

lemma stack_inv_handle_ipv4: "stack_inv s \<Longrightarrow> stack_inv (handle_ipv4 hdr payload s)"
  by (simp add: handle_ipv4_def handle_icmp_def Let_def case_prod_beta stack_inv_handle_tcp
      stack_inv_send_frame stack_inv_arp stack_invD arp_inv_learn split: option.split)

lemma stack_inv_dispatch: "stack_inv s \<Longrightarrow> stack_inv (dispatch data s)"
  by (simp add: dispatch_def stack_inv_handle_arp stack_inv_handle_ipv4 split: option.split prod.split)

lemma stack_inv_read_loop: "stack_inv s \<Longrightarrow> stack_inv (snd (read_loop results s))"
  by (induction results s rule: read_loop.induct) (simp_all add: stack_inv_dispatch)

text \<open>
  The retries of one tick: the addresses are distinct and each has retries left, and a request
  for one address leaves the entries of the others alone.
\<close>

lemma distinct_retry_ips: "arp_inv c \<Longrightarrow> distinct (retry_ips (fst (arp_tick now c)))"
  by (simp add: arp_tick_def Let_def fold_tick_entry arp_inv_def hm_ok_def distinct_fst_filter)

lemma get_record_request_other:
  "ip' \<noteq> ip \<Longrightarrow> hm_get (pending (record_request ip now c)) ip' = hm_get (pending c) ip'"
  by (simp add: record_request_def hm_simps split: option.split)

lemma stack_inv_arp_retries:
  assumes "stack_inv s" "distinct ips"
    "\<And>ip e. ip \<in> set ips \<Longrightarrow> hm_get (pending (arp s)) ip = Some e \<Longrightarrow> retries e < MAX_RETRIES"
  shows "stack_inv (fold arp_retry ips s)"
  using assms
proof (induction ips arbitrary: s)
  case (Cons ip ips)
  have "arp_inv (record_request ip (st_now s) (arp s))"
    by (rule arp_inv_record_request [OF stack_invD(1) [OF Cons.prems(1)]]) (simp add: Cons.prems(3) [of ip])
  then have inv: "stack_inv (arp_retry ip s)"
    using Cons.prems(1) by (simp add: arp_retry_def Let_def stack_inv_arp)
  have same: "hm_get (pending (arp (arp_retry ip s))) ip' = hm_get (pending (arp s)) ip'" if "ip' \<in> set ips" for ip'
    using that Cons.prems(2) get_record_request_other [of ip' ip]
    by (simp add: arp_retry_def Let_def) (metis)
  have "stack_inv (fold arp_retry ips (arp_retry ip s))"
  proof (rule Cons.IH [OF inv])
    show "distinct ips" using Cons.prems(2) by simp
    show "retries e < MAX_RETRIES"
      if "ip' \<in> set ips" "hm_get (pending (arp (arp_retry ip s))) ip' = Some e" for ip' e
      using Cons.prems(3) [of ip' e] that same by simp
  qed
  then show ?case by simp
qed simp

lemma stack_inv_arp_tick: "stack_inv s \<Longrightarrow> stack_inv (stack_arp_tick s)"
  unfolding stack_arp_tick_def Let_def case_prod_beta
  by (rule stack_inv_arp_retries)
    (auto simp: stack_inv_arp stack_invD arp_inv_tick distinct_retry_ips arp_tick_pending arp_inv_oks
      arp_tick_retry split: if_splits)

lemma stack_inv_tcp_retransmit: "stack_inv s \<Longrightarrow> stack_inv (tcp_retransmit s)"
  unfolding tcp_retransmit_def Let_def case_prod_beta
  by (rule stack_inv_fold)
    (simp_all add: send_retransmit_def case_prod_beta Let_def stack_inv_send_frame stack_inv_tcp stack_invD
      manager_inv_poll)

lemma stack_inv_poll: "stack_inv s \<Longrightarrow> stack_inv (snd (poll results s))"
  by (simp add: poll_def Let_def case_prod_beta stack_inv_read_loop stack_inv_tcp_retransmit stack_inv_arp_tick)

lemma stack_inv_new: "stack_inv (stack_new m ip clk)"
  by (simp add: stack_inv_def stack_new_def arp_inv_new manager_inv_new)

datatype stack_call =
    Stack_connect nat ip4 u16
  | Stack_send TcpSocket bytes
  | Stack_recv TcpSocket
  | Stack_close TcpSocket
  | Stack_poll "read_result list"

fun stack_step :: "stack_call \<Rightarrow> TcpStack \<Rightarrow> TcpStack" where
  "stack_step (Stack_connect nanos rip rport) s = snd (stack_connect nanos rip rport s)"
| "stack_step (Stack_send sock data) s = snd (stack_send sock data s)"
| "stack_step (Stack_recv sock) s = snd (stack_recv sock s)"
| "stack_step (Stack_close sock) s = stack_close sock s"
| "stack_step (Stack_poll results) s = snd (poll results s)"

interpretation stack_run: invariant_system stack_step "\<lambda>_. True" stack_inv
proof unfold_locales
  fix s e assume inv: "stack_inv s"
  show "stack_inv (stack_step e s)"
    by (cases e)
      (simp_all add: inv stack_connect_def stack_send_def stack_recv_def stack_close_def Let_def
        case_prod_beta socket_connect_def socket_recv_def socket_close_def close_conn_def
        stack_inv_send_segments stack_inv_tcp stack_invD manager_inv_connect manager_inv_send
        manager_inv_recv manager_inv_close stack_inv_poll)
qed

text \<open>
  (C4) The stack as a whole.  Whatever the application calls and whatever frames, valid or not,
  arrive: the connection table keeps its invariant, the ARP cache has one entry per address
  and asks no more than \<open>MAX_RETRIES\<close> times for an address it waits for.
\<close>

theorem stack_invariant:
  "manager_inv (tcp (fold stack_step calls (stack_new tap_mac ip clk))) \<and>
   hm_ok (entries (arp (fold stack_step calls (stack_new tap_mac ip clk)))) \<and>
   list_all (\<lambda>(ip, e). retries e \<le> MAX_RETRIES)
     (pending (arp (fold stack_step calls (stack_new tap_mac ip clk))))"
  using stack_run.inv_run [OF stack_inv_new, of calls tap_mac ip clk]
  by (auto simp: stack_inv_def arp_inv_def list_all_iff)

section \<open>ARP\<close>

text \<open>
  An ARP request for the stack's address, in a frame from anywhere, is answered by exactly
  one frame: an ARP reply to the asker that names the stack's MAC address.  The asker's address
  is learnt on the way (unless it is zero), the connections are not touched.  A request for
  another address is not answered.
\<close>

theorem arp_request_answered:
  "tap_out (dispatch (build_frame d src ETH_TYPE_ARP (build_arp_request mac ip target @ padding)) s) =
     tap_out s @ (if target = our_ip s
                  then [build_frame mac (our_mac s) ETH_TYPE_ARP (build_arp_reply (our_mac s) (our_ip s) mac ip)]
                  else []) \<and>
   tcp (dispatch (build_frame d src ETH_TYPE_ARP (build_arp_request mac ip target @ padding)) s) = tcp s \<and>
   arp (dispatch (build_frame d src ETH_TYPE_ARP (build_arp_request mac ip target @ padding)) s) =
     arp_learn (clock s (reads s)) ip mac (arp s)"
  by (simp add: dispatch_def parse_build_frame handle_arp_def build_arp_request_def parse_build_arp
      Let_def case_prod_beta const_defs)

lemma fold_write_frames:
  "tap_out (fold (\<lambda>q s. write_frame (build_frame m (our_mac s) ety q) s) qs s) =
     tap_out s @ map (build_frame m (our_mac s) ety) qs"
  "arp (fold (\<lambda>q s. write_frame (build_frame m (our_mac s) ety q) s) qs s) = arp s"
  "tcp (fold (\<lambda>q s. write_frame (build_frame m (our_mac s) ety q) s) qs s) = tcp s"
  by (induction qs arbitrary: s) simp_all

lemma waiting_learn [simp]: "waiting (arp_learn t ip m c) ip' = waiting c ip'"
  by (simp add: waiting_def arp_learn_def)

text \<open>
  (C36) Resolution.  An ARP reply from \<open>ip\<close> sends every packet that waited for \<open>ip\<close>, in the order
  in which they were queued, to the MAC address the reply names; nothing waits for \<open>ip\<close> any
  more, what waits for other addresses stays, and for the next \<open>CACHE_TTL\<close> packets for \<open>ip\<close>
  find the address in the cache.
\<close>

theorem arp_reply_releases_queue:
  "tap_out (dispatch (build_frame d src ETH_TYPE_ARP (build_arp_reply mac ip tmac tip @ padding)) s) =
     tap_out s @ map (build_frame mac (our_mac s) ETH_TYPE_IPV4) (waiting (arp s) ip) \<and>
   waiting (arp (dispatch (build_frame d src ETH_TYPE_ARP (build_arp_reply mac ip tmac tip @ padding)) s)) ip' =
     (if ip' = ip then [] else waiting (arp s) ip') \<and>
   arp_lookup t ip (arp (dispatch (build_frame d src ETH_TYPE_ARP (build_arp_reply mac ip tmac tip @ padding)) s)) =
     (if t \<le> clock s (reads s + 1) + CACHE_TTL then Some mac else None)"
  by (simp add: dispatch_def parse_build_frame handle_arp_def build_arp_reply_def parse_build_arp
      Let_def case_prod_beta const_defs fold_write_frames arp.insert_drains arp.waits_insert arp.lookup_insert)

text \<open>
  One question per address.  The first packet for an address that is not in the cache is
  queued and one ARP request is broadcast; as long as the address is pending, further packets are
  queued behind it and nothing is sent.
\<close>

theorem unresolved_packets_queued:
  assumes "\<And>n. arp_lookup (clock s n) ip (arp s) = None" "hm_get (pending (arp s)) ip = None"
  shows "tap_out (fold (\<lambda>pkt. send_frame ip pkt key) (p # ps) s) =
      tap_out s @ [build_frame BROADCAST_MAC (our_mac s) ETH_TYPE_ARP
        (build_arp_request (our_mac s) (our_ip s) ip)] \<and>
    waiting (arp (fold (\<lambda>pkt. send_frame ip pkt key) (p # ps) s)) ip = p # ps"
proof -
  have first: "tap_out (send_frame ip p key s) = tap_out s @ [build_frame BROADCAST_MAC (our_mac s) ETH_TYPE_ARP
        (build_arp_request (our_mac s) (our_ip s) ip)] \<and>
      arp (send_frame ip p key s) = record_request ip (st_now s) (snd (queue_packet ip p (st_now s) (arp s)))"
    using assms by (simp add: send_frame_def Let_def case_prod_beta queue_packet_def hm_contains_def split: option.split)
  have rest: "tap_out (fold (\<lambda>pkt. send_frame ip pkt key) ps s') = tap_out s' \<and>
      waiting (arp (fold (\<lambda>pkt. send_frame ip pkt key) ps s')) ip = waiting (arp s') ip @ ps"
    if "\<And>n. arp_lookup (clock s' n) ip (arp s') = None" "hm_get (pending (arp s')) ip \<noteq> None" for s'
    using that
  proof (induction ps arbitrary: s')
    case (Cons p ps)
    have step: "tap_out (send_frame ip p key s') = tap_out s' \<and>
        arp (send_frame ip p key s') = snd (queue_packet ip p (st_now s') (arp s'))"
      using Cons.prems by (simp add: send_frame_def Let_def case_prod_beta queue_packet_def hm_contains_def split: option.split)
    have "hm_get (pending (snd (queue_packet ip p (st_now s') (arp s')))) ip \<noteq> None"
      by (simp add: queue_packet_def Let_def hm_simps)
    with Cons.IH [of "send_frame ip p key s'"] Cons.prems(1) step show ?case
      by (simp add: arp.lookup_queue waiting_queue_packet)
  qed simp
  let ?c = "record_request ip (st_now s) (snd (queue_packet ip p (st_now s) (arp s)))"
  have c: "hm_get (pending ?c) ip \<noteq> None" "waiting ?c ip = [p]" "entries ?c = entries (arp s)"
    using assms(2)
    by (simp_all add: record_request_def queue_packet_def Let_def hm_simps waiting_def split: option.split)
  have "arp_lookup (clock s n) ip ?c = None" for n
    using assms(1) [of n] by (simp add: arp_lookup_def c(3))
  with rest [of "send_frame ip p key s"] first c show ?thesis by simp
qed

theorem unresolved_packets_queued_witness:
  "waiting (arp (fold (\<lambda>pkt. send_frame (10, 0, 0, 1) pkt None) [[1], [2]] (stack_new (2, 0, 0, 0, 0, 1) (10, 0, 0, 2) id)))
     (10, 0, 0, 1) = [[1], [2]]"
  using unresolved_packets_queued [of "stack_new (2, 0, 0, 0, 0, 1) (10, 0, 0, 2) id" "(10, 0, 0, 1)" None "[1]" "[[2]]"]
  by (simp add: stack_new_def arp_new_def arp_lookup_def hm.get_empty)

section \<open>ICMP\<close>

text \<open>
  (C35) Ping.  An ICMP echo request from a host with ordinary addresses is answered by exactly one
  frame, sent to the MAC address the request came from: an IPv4 packet from the stack to that host with
  a valid header checksum, whose ICMP message is an echo reply with a valid checksum and the
  request's identifier, sequence number and data.
\<close>

theorem ping_answered:
  assumes "src \<noteq> (0, 0, 0, 0)" "src_mac \<noteq> (0, 0, 0, 0, 0, 0)"
    "clock s (reads s + 1) \<le> clock s (reads s) + CACHE_TTL"
    "8 \<le> length req" "length req \<le> 131074" "req ! 0 = ICMP_ECHO_REQUEST"
  shows "\<exists>pkt iph reply.
    tap_out (dispatch (build_frame d src_mac ETH_TYPE_IPV4 (build_ipv4 src dst IP_PROTO_ICMP ttl req)) s) =
      tap_out s @ [build_frame src_mac (our_mac s) ETH_TYPE_IPV4 pkt] \<and>
    parse_ipv4 pkt = Some (iph, reply) \<and> verify_ip_checksum (take IP_HDR_LEN pkt) \<and>
    ip_src iph = our_ip s \<and> ip_dst iph = src \<and> protocol iph = IP_PROTO_ICMP \<and>
    checksum reply = 0 \<and> reply ! 0 = ICMP_ECHO_REPLY \<and> length reply = length req \<and>
    drop 4 reply = drop 4 req"
proof -
  obtain reply where r: "build_icmp_echo_reply req = Some reply"
    using assms(4,6) by (auto simp: build_icmp_echo_reply_def const_defs Let_def)
  let ?s = "s\<lparr>reads := reads s + 1, arp := arp_learn (clock s (reads s)) src src_mac (arp s)\<rparr>"
  have "arp_lookup (clock ?s (reads ?s)) src (arp ?s) = Some src_mac"
    using assms(1-3) by (simp add: arp_lookup_def arp_learn_def hm_simps)
  from send_frame_known [OF this, of "build_ipv4 (our_ip s) src IP_PROTO_ICMP 64 reply" None]
  have "tap_out (dispatch (build_frame d src_mac ETH_TYPE_IPV4 (build_ipv4 src dst IP_PROTO_ICMP ttl req)) s) =
      tap_out s @ [build_frame src_mac (our_mac s) ETH_TYPE_IPV4 (build_ipv4 (our_ip s) src IP_PROTO_ICMP 64 reply)]"
    by (simp add: dispatch_def parse_build_frame ETH_TYPE_IPV4_def ETH_TYPE_ARP_def handle_ipv4_def
        parse_build_ipv4 ipv4_header_of_def Let_def case_prod_beta handle_icmp_def r)
  then show ?thesis
    using build_icmp_echo_reply_Some [OF assms(4) assms(6) [unfolded const_defs] assms(5) r]
      build_ipv4_verifies [of "our_ip s" src IP_PROTO_ICMP 64 reply]
    by (auto simp: parse_build_ipv4 ipv4_header_of_def const_defs IP_HDR_LEN_def)
qed

theorem ping_answered_witness:
  "\<exists>pkt iph reply.
    tap_out (dispatch (build_frame BROADCAST_MAC (2, 0, 0, 0, 0, 9) ETH_TYPE_IPV4
        (build_ipv4 (10, 0, 0, 1) (10, 0, 0, 2) IP_PROTO_ICMP 64 [8, 0, 0, 0, 1, 2, 0, 1, 65]))
        (stack_new (2, 0, 0, 0, 0, 1) (10, 0, 0, 2) id)) =
      [build_frame (2, 0, 0, 0, 0, 9) (2, 0, 0, 0, 0, 1) ETH_TYPE_IPV4 pkt] \<and>
    parse_ipv4 pkt = Some (iph, reply) \<and> drop 4 reply = [1, 2, 0, 1, 65]"
proof -
  have "length [8, 0, 0, 0, 1, 2, 0, 1, 65 :: u8] \<le> 131074" by simp
  from ping_answered [OF _ _ _ _ this, of "(10, 0, 0, 1)" "(2, 0, 0, 0, 0, 9)"
      "stack_new (2, 0, 0, 0, 0, 1) (10, 0, 0, 2) id" BROADCAST_MAC "(10, 0, 0, 2)" 64]
  show ?thesis
    by (simp add: stack_new_def ICMP_ECHO_REQUEST_def CACHE_TTL_def from_secs_def) blast
qed

section \<open>TCP\<close>

lemma record_sent_idem: "record_sent k n (record_sent k n m) = record_sent k n m"
  by (simp add: record_sent_def hm_simps split: option.split)

lemma send_segment_fixed [simp]:
  "st_now (send_segment key ip seg s) = st_now s" "our_ip (send_segment key ip seg s) = our_ip s"
  "our_mac (send_segment key ip seg s) = our_mac s" "clock (send_segment key ip seg s) = clock s"
  by (simp_all add: send_segment_def Let_def)

lemma tcp_send_segment:
  "tcp (send_segment key ip seg s) =
     (case key of None \<Rightarrow> tcp s | Some k \<Rightarrow> record_sent k (st_now s) (tcp s))"
  by (simp add: send_segment_def Let_def tcp_send_frame)

lemma tcp_send_segments:
  "tcp (send_segments_with_key segs key ip s) =
     (if segs = [] then tcp s
      else case key of None \<Rightarrow> tcp s | Some k \<Rightarrow> record_sent k (st_now s) (tcp s))"
  unfolding send_segments_with_key_def
  by (induction segs arbitrary: s) (auto simp: tcp_send_segment record_sent_idem split: option.split)

text \<open>The frame in which a segment travels.\<close>

definition segment_frame :: "mac \<Rightarrow> mac \<Rightarrow> ip4 \<Rightarrow> ip4 \<Rightarrow> u16 \<Rightarrow> OutgoingSegment \<Rightarrow> bytes" where
  "segment_frame dst_mac src_mac src dst sport seg =
     build_frame dst_mac src_mac ETH_TYPE_IPV4 (build_ipv4 src dst IP_PROTO_TCP 64
       (build_tcp_segment src dst sport (seg_dst_port seg) (seg_seq seg) (seg_ack seg) (seg_flags seg)
         DEFAULT_WINDOW (seg_payload seg)))"

lemma tap_out_send_segment:
  "arp_lookup (clock s (reads s)) dst (arp s) = Some m \<Longrightarrow>
   tap_out (send_segment key dst seg s) = tap_out s @
     [segment_frame m (our_mac s) (our_ip s) dst
        (case key of Some (_, port, _, _) \<Rightarrow> port
         | None \<Rightarrow> (case find_src_port dst (seg_dst_port seg) (tcp s) of Some port \<Rightarrow> port | None \<Rightarrow> 0)) seg]"
  by (simp add: send_segment_def Let_def send_frame_known segment_frame_def)

text \<open>The header the receiver reads: that of \<open>header_of\<close>, with the checksum filled in.\<close>

definition received_header :: "ip4 \<Rightarrow> ip4 \<Rightarrow> u16 \<Rightarrow> OutgoingSegment \<Rightarrow> TcpHeader" where
  "received_header src dst sport seg =
     (header_of sport seg)\<lparr>hdr_checksum := segment_checksum src dst sport (seg_dst_port seg) (seg_seq seg)
        (seg_ack seg) (seg_flags seg) DEFAULT_WINDOW (seg_payload seg)\<rparr>"

lemma received_header_simps [simp]:
  "src_port (received_header a b p seg) = p" "dst_port (received_header a b p seg) = seg_dst_port seg"
  "hdr_seq (received_header a b p seg) = seg_seq seg" "hdr_ack (received_header a b p seg) = seg_ack seg"
  "hdr_flags (received_header a b p seg) = seg_flags seg" "window (received_header a b p seg) = DEFAULT_WINDOW"
  by (simp_all add: received_header_def header_of_def)

lemma dispatch_segment_frame:
  assumes "length (seg_payload seg) \<le> 131042"
  shows "dispatch (segment_frame d src_mac src dst sport seg) s =
    (let s = s\<lparr>reads := reads s + 1, arp := arp_learn (clock s (reads s)) src src_mac (arp s)\<rparr>;
         ((key, out), m) = process (our_ip s) src (received_header src dst sport seg) (seg_payload seg) (st_now s) (tcp s)
     in send_segments_with_key out key src (s\<lparr>tcp := m\<rparr>))"
  using build_tcp_segment_verifies [OF assms]
  by (simp add: dispatch_def segment_frame_def parse_build_frame ETH_TYPE_IPV4_def ETH_TYPE_ARP_def handle_ipv4_def
      parse_build_ipv4 ipv4_header_of_def Let_def case_prod_beta const_defs handle_tcp_def
      parse_build_tcp_segment received_header_def header_of_def instant_now_def)

text \<open>
  (C7) From host to host.  A segment sent on a connection to a host whose MAC address is cached
  leaves as one frame.  A second stack that is given this frame processes exactly this
  segment, with the sender's address and port, the same sequence numbers, flags and payload;
  its connection table afterwards is what \<open>process\<close> makes of it, with the timer of the
  connection armed if an answer went out.
\<close>

theorem segment_crosses_wire:
  assumes "arp_lookup (clock s (reads s)) dst (arp s) = Some dst_mac" "length (seg_payload seg) \<le> 131042"
  shows "\<exists>frame h.
    tap_out (send_segment (Some (lip, lport, rip, rport)) dst seg s) = tap_out s @ [frame] \<and>
    src_port h = lport \<and> dst_port h = seg_dst_port seg \<and> hdr_seq h = seg_seq seg \<and>
    hdr_ack h = seg_ack seg \<and> hdr_flags h = seg_flags seg \<and>
    (case process (our_ip s') (our_ip s) h (seg_payload seg) (st_now s') (tcp s') of
       ((key, out), m) \<Rightarrow>
         tcp (dispatch frame s') =
           (case key of Some k \<Rightarrow> if out = [] then m else record_sent k (st_now s') m | None \<Rightarrow> m))"
proof (intro exI conjI)
  show "tap_out (send_segment (Some (lip, lport, rip, rport)) dst seg s) =
      tap_out s @ [segment_frame dst_mac (our_mac s) (our_ip s) dst lport seg]"
    by (simp add: tap_out_send_segment [OF assms(1)])
  show "case process (our_ip s') (our_ip s) (received_header (our_ip s) dst lport seg) (seg_payload seg) (st_now s') (tcp s') of
     ((key, out), m) \<Rightarrow>
       tcp (dispatch (segment_frame dst_mac (our_mac s) (our_ip s) dst lport seg) s') =
         (case key of Some k \<Rightarrow> if out = [] then m else record_sent k (st_now s') m | None \<Rightarrow> m)"
    by (simp add: dispatch_segment_frame [OF assms(2)] Let_def case_prod_beta tcp_send_segments split: option.split)
qed simp_all

definition example_stack :: TcpStack where
  "example_stack =
     (stack_new (2, 0, 0, 0, 0, 1) (192, 168, 100, 2) id)
       \<lparr>arp := arp_learn 0 (192, 168, 100, 1) (2, 0, 0, 0, 0, 9) arp_new, tcp := example_manager\<rparr>"

lemma example_stack_lookup:
  "arp_lookup (clock example_stack (reads example_stack)) (192, 168, 100, 1) (arp example_stack) =
     Some (2, 0, 0, 0, 0, 9)"
  by (simp add: example_stack_def stack_new_def arp_lookup_def arp_learn_def hm_simps CACHE_TTL_def from_secs_def)

theorem segment_crosses_wire_witness:
  "\<exists>frame. tap_out (send_segment (Some example_key) (192, 168, 100, 1) (fin_segment example_tcb) example_stack) =
     tap_out example_stack @ [frame]"
  using segment_crosses_wire [OF example_stack_lookup, of "fin_segment example_tcb"
      "(192, 168, 100, 2)" 40000 "(192, 168, 100, 1)" 8080 example_stack]
  by (simp add: fin_segment_def example_key_def) blast

text \<open>
  A reset leaves from the wrong port.  A segment that matches no connection yields a RST,
  but \<^verbatim>\<open>send_segments_with_key\<close> is given no key and guesses the source port from some
  connection to the same remote endpoint, or takes 0; the port the segment was sent to is
  not used.  When there is no such connection the peer receives a RST from port 0, whatever
  port it had addressed.
\<close>

theorem reset_source_port_zero:
  assumes "arp_lookup (clock s (reads s + 1)) src (arp_learn (clock s (reads s)) src src_mac (arp s)) = Some src_mac"
    "length (seg_payload seg) \<le> 131042" "seg_flags seg AND TCP_RST = 0"
    "find_src_port src sport (tcp s) = None"
    "hm_get (connections (tcp s)) (our_ip s, seg_dst_port seg, src, sport) = None"
  shows "\<exists>rst. tap_out (dispatch (segment_frame d src_mac src dst sport seg) s) =
      tap_out s @ [segment_frame src_mac (our_mac s) (our_ip s) src 0 rst] \<and>
    seg_flags rst = TCP_RST OR TCP_ACK \<and> seg_dst_port rst = sport"
proof -
  let ?s = "s\<lparr>reads := reads s + 1, arp := arp_learn (clock s (reads s)) src src_mac (arp s)\<rparr>"
  have known: "arp_lookup (clock ?s (reads ?s)) src (arp ?s) = Some src_mac" using assms(1) by simp
  obtain rst where "process (our_ip s) src (received_header src dst sport seg) (seg_payload seg) (st_now s) (tcp s) =
      ((None, [rst]), tcp s)" "seg_flags rst = TCP_RST OR TCP_ACK" "seg_dst_port rst = sport"
    using assms(3,5) by (simp add: process_def Let_def)
  then show ?thesis
    using assms(4) tap_out_send_segment [OF known, of None rst]
    by (auto simp: dispatch_segment_frame [OF assms(2)] Let_def send_segments_with_key_def)
qed

lemma example_stack_relearn:
  "arp_lookup (clock example_stack (reads example_stack + 1)) (192, 168, 100, 1)
     (arp_learn (clock example_stack (reads example_stack)) (192, 168, 100, 1) (2, 0, 0, 0, 0, 9) (arp example_stack)) =
     Some (2, 0, 0, 0, 0, 9)"
  by (simp add: example_stack_def stack_new_def arp_lookup_def arp_learn_def hm_simps CACHE_TTL_def from_secs_def)

lemma example_stack_no_match:
  "find_src_port (192, 168, 100, 1) 1234 (tcp example_stack) = None"
  "hm_get (connections (tcp example_stack)) (our_ip example_stack, 80, (192, 168, 100, 1), 1234) = None"
  by (simp_all add: example_stack_def example_manager_def example_key_def find_src_port_def hm_get_def)

theorem reset_source_port_zero_witness:
  "\<exists>rst. tap_out (dispatch (segment_frame (2, 0, 0, 0, 0, 1) (2, 0, 0, 0, 0, 9) (192, 168, 100, 1)
        (192, 168, 100, 2) 1234 (\<lparr>seg_flags = TCP_SYN, seg_seq = 1, seg_ack = 0, seg_payload = [], seg_dst_port = 80\<rparr>))
        example_stack) =
      [segment_frame (2, 0, 0, 0, 0, 9) (2, 0, 0, 0, 0, 1) (192, 168, 100, 2) (192, 168, 100, 1) 0 rst] \<and>
    seg_flags rst = TCP_RST OR TCP_ACK \<and> seg_dst_port rst = 1234"
  using reset_source_port_zero [of example_stack "(192, 168, 100, 1)" "(2, 0, 0, 0, 0, 9)"
      "\<lparr>seg_flags = TCP_SYN, seg_seq = 1, seg_ack = 0, seg_payload = [], seg_dst_port = 80\<rparr>" 1234
      "(2, 0, 0, 0, 0, 1)" "(192, 168, 100, 2)"]
  using example_stack_relearn example_stack_no_match
  by (simp add: example_stack_def stack_new_def const_defs)

section \<open>Timers\<close>

text \<open>The retransmission check of the stack does to the connection table what \<open>poll_retransmit\<close> does.\<close>

lemma record_sent_armed:
  "(\<And>t. hm_get (connections m) k = Some t \<Longrightarrow> retransmit_at t \<noteq> None) \<Longrightarrow> record_sent k n m = m"
  by (auto simp: record_sent_def split: option.split)

lemma retransmits_armed:
  assumes "hm_ok (connections m)" "(k, seg) \<in> set (fst (poll_retransmit n m))"
    "hm_get (connections (snd (poll_retransmit n m))) k = Some t'"
  shows "retransmit_at t' \<noteq> None"
proof -
  obtain t where t: "(k, t) \<in> set (connections m)" "fst (retransmit_one n t) = Some seg"
    using assms(2) by (auto simp: poll_retransmit_def split: option.splits)
  then have "hm_get (connections m) k = Some t" using assms(1) by (simp add: hm_set_iff_get)
  then have "t' = snd (retransmit_one n t)"
    using assms(1,3) by (simp add: poll_get Let_def split: if_splits)
  with t(2) show ?thesis by (cases rule: retransmit_one_cases [of n t]) simp_all
qed

lemma tcp_fold_send_retransmit:
  assumes "\<And>k seg. (k, seg) \<in> set rs \<Longrightarrow> record_sent k (st_now s) (tcp s) = tcp s"
  shows "tcp (fold send_retransmit rs s) = tcp s"
  using assms
proof (induction rs arbitrary: s)
  case (Cons r rs)
  obtain k seg where r: "r = (k, seg)" by (rule prod.exhaust)
  have "tcp (send_retransmit r s) = tcp s" "st_now (send_retransmit r s) = st_now s"
    using Cons.prems [of k seg] by (simp_all add: r send_retransmit_def case_prod_beta Let_def tcp_send_frame)
  moreover from this have "tcp (fold send_retransmit rs (send_retransmit r s)) = tcp (send_retransmit r s)"
    by (intro Cons.IH) (metis Cons.prems list.set_intros(2))
  ultimately show ?case by simp
qed simp

lemma tcp_tcp_retransmit:
  assumes "hm_ok (connections (tcp s))"
  shows "tcp (tcp_retransmit s) = snd (poll_retransmit (st_now s) (tcp s))"
  unfolding tcp_retransmit_def Let_def case_prod_beta
  by (subst tcp_fold_send_retransmit)
    (auto intro!: record_sent_armed dest: retransmits_armed [OF assms])

text \<open>
  Checks at the times \<open>ns\<close>, in which no frame arrives.
\<close>

definition check_at :: "instant \<Rightarrow> TcpStack \<Rightarrow> TcpStack" where
  "check_at n s = tcp_retransmit (s\<lparr>st_now := n\<rparr>)"

lemma tcp_checks:
  "manager_inv (tcp s) \<Longrightarrow> tcp (fold check_at ns s) = snd (polls key ns (tcp s))"
proof (induction ns arbitrary: s)
  case (Cons n ns)
  have "tcp (check_at n s) = snd (poll_retransmit n (tcp s))"
    using Cons.prems by (simp add: check_at_def tcp_tcp_retransmit manager_inv_def)
  with Cons.IH [of "check_at n s"] Cons.prems show ?case
    by (simp add: case_prod_beta manager_inv_poll)
qed simp

text \<open>
  An acknowledgement is treated like data.  Answering data with an ACK arms the retransmission
  timer of the connection, although nothing of its own is outstanding; only an acknowledgement
  of new data would stop it.  If the peer stays silent, the timer checks give up an established
  connection on which nothing was lost.
\<close>

theorem idle_receiver_dropped:
  assumes "manager_inv (tcp s)" "hm_get (connections (tcp s)) (our_ip s, seg_dst_port seg, src, sport) = Some t"
    "tcb_state t = Established" "retransmit_at t = None" "retransmit_count t = 0"
    "seg_seq seg = rcv_nxt t" "seg_payload seg \<noteq> []" "length (seg_payload seg) \<le> 131042"
    "seg_flags seg = TCP_PSH OR TCP_ACK" "snd_una t = snd_nxt t"
    "gives_up MAX_RETRANSMITS (rto t) (st_now s + rto t) ns"
  shows "(\<exists>t'. hm_get (connections (tcp (dispatch (segment_frame d src_mac src dst sport seg) s)))
        (our_ip s, seg_dst_port seg, src, sport) = Some t' \<and>
      tcb_state t' = Established \<and> snd_una t' = snd_nxt t' \<and> retransmit_at t' = Some (st_now s + rto t)) \<and>
    hm_get (connections (tcp (fold check_at ns (dispatch (segment_frame d src_mac src dst sport seg) s))))
      (our_ip s, seg_dst_port seg, src, sport) = None"
proof -
  let ?key = "(our_ip s, seg_dst_port seg, src, sport)"
  let ?h = "received_header src dst sport seg"
  let ?s = "dispatch (segment_frame d src_mac src dst sport seg) s"
  have flags: "\<not> has_flag ?h TCP_SYN" "\<not> has_flag ?h TCP_FIN"
    by (simp_all add: has_flag_def assms(9) const_defs)
  define t1 where "t1 = t\<lparr>recv_buffer := recv_buffer t @ seg_payload seg,
    rcv_nxt := rcv_nxt t + of_nat (length (seg_payload seg))\<rparr>"
  have "process_existing_tcb t ?h (seg_payload seg) (st_now s) = ([ack_segment t1], t1)"
    using assms(3,6-8,10) flags
    by (simp add: process_existing_tcb_def on_Established_def established_ack_eq established_data_def
        Let_def of_nat_u32_pos t1_def)
  note hit = process_hit [OF _ this, of _ "our_ip s" src]
  have tcp: "tcp ?s = record_sent ?key (st_now s) ((tcp s)\<lparr>connections := hm_insert ?key t1 (connections (tcp s))\<rparr>)"
    using hit assms(2) by (simp add: dispatch_segment_frame [OF assms(8)] Let_def tcp_send_segments)
  then have get: "hm_get (connections (tcp ?s)) ?key = Some (t1\<lparr>retransmit_at := Some (st_now s + rto t)\<rparr>)"
    using assms(4) by (simp add: record_sent_def hm_simps t1_def)
  have inv: "manager_inv (tcp ?s)"
    using manager_inv_process [OF assms(1), of "our_ip s" src ?h "seg_payload seg" "st_now s"] hit assms(2)
    by (simp add: tcp manager_inv_record_sent)
  have "hm_get (connections (snd (polls ?key ns (tcp ?s)))) ?key = None"
    using polls_schedule [OF inv get _ _ refl, of "st_now s + rto t" ns] assms(3,5,11) by (simp add: t1_def)
  then show ?thesis
    using get tcp_checks [OF inv, of ns ?key] assms(3,10) by (simp add: t1_def)
qed

lemma example_manager_inv: "manager_inv example_manager"
  using example_waiting_inv(1) [OF example_tcb_inv]
  by (simp add: example_waiting_def example_manager_def) (simp add: conn_id_def example_tcb_def example_key_def)

definition example_segment :: OutgoingSegment where
  "example_segment = \<lparr>seg_flags = TCP_PSH OR TCP_ACK, seg_seq = 1000, seg_ack = 501, seg_payload = [1],
     seg_dst_port = 40000\<rparr>"

theorem idle_receiver_dropped_witness:
  "hm_get (connections (tcp (fold check_at (map minutes [1, 2, 3, 4, 5, 6])
      (dispatch (segment_frame (2, 0, 0, 0, 0, 1) (2, 0, 0, 0, 0, 9) (192, 168, 100, 1) (192, 168, 100, 2) 8080
        example_segment) example_stack)))) example_key = None"
proof -
  have st: "tcp example_stack = example_manager" "our_ip example_stack = (192, 168, 100, 2)" "st_now example_stack = 0"
    by (simp_all add: example_stack_def stack_new_def)
  have key: "hm_get (connections example_manager) example_key = Some example_tcb"
    by (simp add: example_manager_def hm_get_def)
  have seg: "seg_seq example_segment = 1000" "seg_payload example_segment = [1]" "seg_dst_port example_segment = 40000"
    "seg_flags example_segment = TCP_PSH OR TCP_ACK" by (simp_all add: example_segment_def)
  have t: "tcb_state example_tcb = Established" "retransmit_at example_tcb = None" "retransmit_count example_tcb = 0"
    "rcv_nxt example_tcb = 1000" "snd_una example_tcb = snd_nxt example_tcb" "rto example_tcb = INITIAL_RTO"
    by (simp_all add: example_tcb_def)
  have "gives_up (Suc (Suc (Suc (Suc (Suc 0))))) INITIAL_RTO (0 + INITIAL_RTO) (map minutes [1, 2, 3, 4, 5, 6])"
    by (simp add: minutes_def timer_consts)
  then have "gives_up MAX_RETRANSMITS INITIAL_RTO (0 + INITIAL_RTO) (map minutes [1, 2, 3, 4, 5, 6])"
    by (simp add: MAX_RETRANSMITS_def numeral_eq_Suc del: gives_up.simps list.map)
  then show ?thesis
    using idle_receiver_dropped [of example_stack example_segment "(192, 168, 100, 1)" 8080 example_tcb
        "map minutes [1, 2, 3, 4, 5, 6]" "(2, 0, 0, 0, 0, 1)" "(2, 0, 0, 0, 0, 9)" "(192, 168, 100, 2)"]
      example_manager_inv key
    by (simp only: st seg t example_key_def) simp
qed

end
