(* ===== verification/Icmp_Tools.thy ===== *)
theory Icmp_Tools
  imports Ipv4
begin

text \<open>
  \<^verbatim>\<open>toolkit/ping/src/icmp.rs\<close> and \<^verbatim>\<open>toolkit/traceroute/src/icmp.rs\<close>: the echo
  requests the two tools send and what they read from the answers.  Both files repeat the
  loops of the stack's checksum, which are shared here.
\<close>

section \<open>The code: ping\<close>

definition ICMP_HEADER_SIZE :: nat where [const_defs]: "ICMP_HEADER_SIZE = 8"

definition ping_checksum :: "bytes \<Rightarrow> u16" where
  "ping_checksum data = NOT (ucast (fold_carries (sum_words data 0 0)))"

definition ping_build_echo_request :: "u16 \<Rightarrow> u16 \<Rightarrow> bytes \<Rightarrow> bytes" where
  "ping_build_echo_request ident sq payload =
     (let len = ICMP_HEADER_SIZE + length payload;
          buf = replicate len 0;
          buf = buf[0 := ICMP_ECHO_REQUEST];
          buf = buf[1 := 0];
          buf = copy_at 4 (u16_to_be ident) buf;
          buf = copy_at 6 (u16_to_be sq) buf;
          buf = copy_at 8 payload buf;
          cs = ping_checksum buf
      in copy_at 2 (u16_to_be cs) buf)"

definition ping_parse_echo_reply :: "bytes \<Rightarrow> (u16 \<times> u16 \<times> bytes) option" where
  "ping_parse_echo_reply data =
     (if length data < ICMP_HEADER_SIZE then None
      else if data ! 0 \<noteq> ICMP_ECHO_REPLY then None
      else Some (u16_at 4 data, u16_at 6 data, drop ICMP_HEADER_SIZE data))"

section \<open>The code: traceroute\<close>

definition ICMP_DEST_UNREACH :: u8 where [const_defs]: "ICMP_DEST_UNREACH = 3"
definition ICMP_TIME_EXCEEDED :: u8 where [const_defs]: "ICMP_TIME_EXCEEDED = 11"

definition traceroute_checksum :: "bytes \<Rightarrow> u16" where
  "traceroute_checksum data = NOT (ucast (fold_carries (sum_words data 0 0)))"

definition traceroute_build_echo_request :: "u16 \<Rightarrow> u16 \<Rightarrow> bytes \<Rightarrow> bytes" where
  "traceroute_build_echo_request ident sq payload =
     (let len = ICMP_HEADER_SIZE + length payload;
          buf = replicate len 0;
          buf = buf[0 := ICMP_ECHO_REQUEST];
          buf = buf[1 := 0];
          buf = copy_at 4 (u16_to_be ident) buf;
          buf = copy_at 6 (u16_to_be sq) buf;
          buf = copy_at 8 payload buf;
          cs = traceroute_checksum buf
      in copy_at 2 (u16_to_be cs) buf)"

definition traceroute_parse_echo_reply :: "bytes \<Rightarrow> (u16 \<times> u16 \<times> bytes) option" where
  "traceroute_parse_echo_reply data =
     (if length data < ICMP_HEADER_SIZE then None
      else if data ! 0 \<noteq> ICMP_ECHO_REPLY then None
      else Some (u16_at 4 data, u16_at 6 data, drop ICMP_HEADER_SIZE data))"

text \<open>The quoted transport header, \<^verbatim>\<open>[u8; 8]\<close>, is the list of its eight bytes.\<close>

definition parse_icmp_error :: "bytes \<Rightarrow> (u8 \<times> u8 \<times> u8 \<times> bytes) option" where
  "parse_icmp_error icmp_body =
     (if length icmp_body < 8 + 20 + 8 then None
      else let icmp_type = icmp_body ! 0; icmp_code = icmp_body ! 1
           in if icmp_type \<noteq> ICMP_TIME_EXCEEDED \<and> icmp_type \<noteq> ICMP_DEST_UNREACH then None
              else let inner_ip = drop 8 icmp_body;
                       inner_ihl = unat (inner_ip ! 0 AND 0x0F) * 4;
                       proto = inner_ip ! 9
                   in if length inner_ip < inner_ihl + 8 then None
                      else Some (icmp_type, icmp_code, proto, slice inner_ihl (inner_ihl + 8) inner_ip))"

section \<open>The tools' checksums\<close>

lemma tool_checksums [simp]: "ping_checksum = checksum" "traceroute_checksum = checksum"
  by (simp_all add: fun_eq_iff ping_checksum_def traceroute_checksum_def checksum_def)

interpretation ping: inet_checksum ping_checksum
  unfolding tool_checksums by (rule util.inet_checksum_axioms)

interpretation traceroute: inet_checksum traceroute_checksum
  unfolding tool_checksums by (rule util.inet_checksum_axioms)

lemma request_buffer:
  "copy_at 8 payload (copy_at 6 (u16_to_be sq) (copy_at 4 (u16_to_be ident)
     ((replicate (8 + length payload) 0)[0 := 8, 1 := 0]))) =
   [8, 0] @ [0, 0] @ u16_to_be ident @ u16_to_be sq @ payload"
  by (simp add: copy_at_def numeral_eq_Suc u16_to_be_def)

lemma request_eq:
  "ping_build_echo_request ident sq payload =
     [8, 0] @ u16_to_be (ping_checksum ([8, 0] @ [0, 0] @ u16_to_be ident @ u16_to_be sq @ payload)) @
     u16_to_be ident @ u16_to_be sq @ payload"
  "traceroute_build_echo_request ident sq payload =
     [8, 0] @ u16_to_be (traceroute_checksum ([8, 0] @ [0, 0] @ u16_to_be ident @ u16_to_be sq @ payload)) @
     u16_to_be ident @ u16_to_be sq @ payload"
  unfolding ping_build_echo_request_def traceroute_build_echo_request_def Let_def const_defs request_buffer
  by (simp_all add: copy_at_def)

lemma request_verifies:
  "length payload \<le> 131066 \<Longrightarrow> ping_checksum (ping_build_echo_request ident sq payload) = 0"
  "length payload \<le> 131066 \<Longrightarrow> traceroute_checksum (traceroute_build_echo_request ident sq payload) = 0"
  unfolding request_eq
  using ping.fill [of "[8, 0]" "u16_to_be ident @ u16_to_be sq @ payload"]
    traceroute.fill [of "[8, 0]" "u16_to_be ident @ u16_to_be sq @ payload"] by auto

text \<open>The reply of the stack to a request, as the tools read it.\<close>

lemma reply_fields:
  assumes "length payload \<le> 131066"
    and "build_icmp_echo_reply ([8, 0] @ u16_to_be cs @ u16_to_be ident @ u16_to_be sq @ payload) = Some reply"
  shows "checksum reply = 0 \<and> 8 \<le> length reply \<and> reply ! 0 = 0 \<and> u16_at 4 reply = ident \<and> u16_at 6 reply = sq \<and>
    drop 8 reply = payload"
proof -
  let ?req = "[8, 0] @ u16_to_be cs @ u16_to_be ident @ u16_to_be sq @ payload"
  have ok: "checksum reply = 0 \<and> length reply = length ?req \<and> reply ! 0 = 0 \<and> reply ! 1 = ?req ! 1 \<and> drop 4 reply = drop 4 ?req"
    using assms by (intro build_icmp_echo_reply_Some) simp_all
  have "4 \<le> length reply" "drop 4 ?req = u16_to_be ident @ u16_to_be sq @ payload" using ok by (simp_all add: u16_to_be_def)
  then have split: "reply = take 4 reply @ u16_to_be ident @ u16_to_be sq @ payload"
    by (metis append_take_drop_id ok)
  have "u16_at 4 reply = ident" "u16_at 6 reply = sq" "drop 8 reply = payload"
    using \<open>4 \<le> length reply\<close> by (subst split, simp add: field_at_skip wire_simps)+
  then show ?thesis using ok by simp
qed

section \<open>Properties\<close>

text \<open>
  Ping against the stack.  The request of \<^verbatim>\<open>ping\<close> carries a valid checksum; the stack's
  echo reply to it is accepted by \<^verbatim>\<open>ping\<close>, which reads back the identifier, the
  sequence number and the payload it sent, under a checksum that is again valid.
\<close>

theorem ping_request_reply:
  assumes "length payload \<le> 131066"
  shows "checksum (ping_build_echo_request ident sq payload) = 0 \<and>
    (\<exists>reply. build_icmp_echo_reply (ping_build_echo_request ident sq payload) = Some reply \<and>
       ping_checksum reply = 0 \<and> ping_parse_echo_reply reply = Some (ident, sq, payload))"
proof -
  let ?req = "ping_build_echo_request ident sq payload"
  obtain reply where r: "build_icmp_echo_reply ?req = Some reply"
    by (auto simp: build_icmp_echo_reply_def const_defs Let_def request_eq)
  then show ?thesis
    using reply_fields [OF assms r [unfolded request_eq]] request_verifies(1) [OF assms]
    by (simp add: ping_parse_echo_reply_def const_defs)
qed

theorem ping_request_reply_witness:
  "\<exists>reply. build_icmp_echo_reply (ping_build_echo_request 0x1234 1 [72, 69]) = Some reply \<and>
     ping_parse_echo_reply reply = Some (0x1234, 1, [72, 69])"
  using ping_request_reply [of "[72, 69]" "0x1234" 1] by auto

text \<open>
  Traceroute recognises its probe.  From an ICMP error that quotes the IPv4 packet of a
  probe (the header and at least the first eight bytes of the request), \<^verbatim>\<open>parse_icmp_error\<close>
  recovers the type and code of the error, the protocol and the eight quoted bytes, which
  hold the probe's identifier and sequence number.
\<close>

theorem traceroute_probe_recognised:
  assumes "ty \<in> {ICMP_TIME_EXCEEDED, ICMP_DEST_UNREACH}" "length mid = 6"
  shows "\<exists>quoted. parse_icmp_error ([ty, code] @ mid @
        build_ipv4 src dst IP_PROTO_ICMP ttl (traceroute_build_echo_request ident sq payload)) =
      Some (ty, code, IP_PROTO_ICMP, quoted) \<and>
    length quoted = 8 \<and> u16_at 4 quoted = ident \<and> u16_at 6 quoted = sq"
proof -
  let ?req = "traceroute_build_echo_request ident sq payload"
  let ?ip = "build_ipv4 src dst IP_PROTO_ICMP ttl ?req"
  have ip: "?ip ! 0 = 0x45" "?ip ! 9 = IP_PROTO_ICMP" "length ?req = 8 + length payload"
    "drop 20 ?ip = ?req"
    by (simp_all add: build_ipv4_eq ipv4_front_def nth_append request_eq)
  have body: "drop 8 ([ty, code] @ mid @ ?ip) = ?ip" using assms(2) by simp
  have "slice 20 28 ?ip = take 8 ?req" by (simp add: slice_def ip(4))
  moreover have "u16_at 4 (take 8 ?req) = ident" "u16_at 6 (take 8 ?req) = sq" "length (take 8 ?req) = 8"
    by (simp_all add: request_eq u16_to_be_def u16_at_def)
  moreover have "parse_icmp_error ([ty, code] @ mid @ ?ip) = Some (ty, code, IP_PROTO_ICMP, slice 20 28 ?ip)"
    using assms unfolding parse_icmp_error_def Let_def body
    by (auto simp: ip [unfolded IP_PROTO_ICMP_def] const_defs)
  ultimately show ?thesis by auto
qed

theorem traceroute_probe_recognised_witness:
  "\<exists>quoted. parse_icmp_error ([11, 0] @ [0, 0, 0, 0, 0, 0] @
      build_ipv4 (10, 0, 0, 1) (10, 0, 0, 2) IP_PROTO_ICMP 3 (traceroute_build_echo_request 7 3 [1])) =
    Some (11, 0, IP_PROTO_ICMP, quoted) \<and> u16_at 4 quoted = 7"
  using traceroute_probe_recognised [of 11 "[0, 0, 0, 0, 0, 0]" 0 "(10, 0, 0, 1)" "(10, 0, 0, 2)" 3 7 3 "[1]"]
  by (auto simp: const_defs)

end
