(* ===== verification/Text.thy ===== *)
theory Text
  imports Prelude
begin

text \<open>
  What the sources use of Rust's \<^verbatim>\<open>str\<close>, over the bytes of its UTF-8 form: validity,
  \<^verbatim>\<open>to_ascii_lowercase\<close>, \<^verbatim>\<open>split\<close>, \<^verbatim>\<open>join\<close> and \<^verbatim>\<open>trim_end_matches\<close> for an ASCII
  character.
\<close>

section \<open>UTF-8\<close>

text \<open>The test of \<^verbatim>\<open>String::from_utf8\<close>: well-formed UTF-8 (RFC 3629).\<close>

definition in_range :: "u8 \<Rightarrow> u8 \<Rightarrow> u8 \<Rightarrow> bool" where
  "in_range a b x = (a \<le> x \<and> x \<le> b)"

fun utf8_valid :: "bytes \<Rightarrow> bool" where
  "utf8_valid [] = True"
| "utf8_valid (a # rest) =
     (if a < 0x80 then utf8_valid rest
      else if in_range 0xC2 0xDF a
      then (case rest of b # r \<Rightarrow> in_range 0x80 0xBF b \<and> utf8_valid r | _ \<Rightarrow> False)
      else if in_range 0xE0 0xEF a
      then (case rest of
              b # c # r \<Rightarrow>
                in_range (if a = 0xE0 then 0xA0 else 0x80) (if a = 0xED then 0x9F else 0xBF) b \<and>
                in_range 0x80 0xBF c \<and> utf8_valid r
            | _ \<Rightarrow> False)
      else if in_range 0xF0 0xF4 a
      then (case rest of
              b # c # d # r \<Rightarrow>
                in_range (if a = 0xF0 then 0x90 else 0x80) (if a = 0xF4 then 0x8F else 0xBF) b \<and>
                in_range 0x80 0xBF c \<and> in_range 0x80 0xBF d \<and> utf8_valid r
            | _ \<Rightarrow> False)
      else False)"

section \<open>Splitting and joining\<close>

definition to_ascii_lowercase :: "bytes \<Rightarrow> bytes" where
  "to_ascii_lowercase = map (\<lambda>b. if in_range 65 90 b then b + 32 else b)"

fun split_on :: "'a \<Rightarrow> 'a list \<Rightarrow> 'a list list" where
  "split_on c [] = [[]]"
| "split_on c (x # xs) =
     (if x = c then [] # split_on c xs
      else (case split_on c xs of [] \<Rightarrow> [[x]] | p # ps \<Rightarrow> (x # p) # ps))"

fun join :: "'a list \<Rightarrow> 'a list list \<Rightarrow> 'a list" where
  "join sep [] = []"
| "join sep [p] = p"
| "join sep (p # q # ps) = p @ sep @ join sep (q # ps)"

definition trim_end :: "'a \<Rightarrow> 'a list \<Rightarrow> 'a list" where
  "trim_end c xs = rev (dropWhile (\<lambda>x. x = c) (rev xs))"

lemma split_on_no_sep: "c \<notin> set p \<Longrightarrow> split_on c p = [p]"
  by (induction p) auto

lemma split_on_sep: "c \<notin> set p \<Longrightarrow> split_on c (p @ c # xs) = p # split_on c xs"
  by (induction p) auto

lemma split_join:
  "ps \<noteq> [] \<Longrightarrow> (\<And>p. p \<in> set ps \<Longrightarrow> c \<notin> set p) \<Longrightarrow> split_on c (join [c] ps) = ps"
  by (induction "[c]" ps rule: join.induct) (auto simp: split_on_no_sep split_on_sep)

lemma split_on_nonempty [simp]: "split_on c xs \<noteq> []"
  by (induction xs) (auto split: list.split)

lemma join_split: "join [c] (split_on c xs) = xs"
proof (induction xs)
  case (Cons x xs)
  obtain p ps where sp: "split_on c xs = p # ps" by (meson neq_Nil_conv split_on_nonempty)
  then show ?case using Cons by (cases ps) auto
qed simp

lemma trim_end_join:
  assumes "ps \<noteq> []" "\<And>p. p \<in> set ps \<Longrightarrow> p \<noteq> [] \<and> c \<notin> set p"
  shows "trim_end c (join [c] ps @ [c]) = join [c] ps"
proof -
  have "join [c] ps \<noteq> [] \<and> last (join [c] ps) \<noteq> c"
    using assms by (induction "[c]" ps rule: join.induct) (auto simp: last_append split: if_splits)
  then obtain ys y where "join [c] ps = ys @ [y]" "y \<noteq> c"
    by (metis append_butlast_last_id)
  then show ?thesis by (simp add: trim_end_def)
qed

end
