(* ===== verification/Dns_Message.thy ===== *)
theory Dns_Message
  imports Codec Text
begin

text \<open>
  \<^verbatim>\<open>toolkit/dnsresolver/src/message.rs\<close>: the DNS wire format.  A \<^verbatim>\<open>String\<close> is the list of its
  UTF-8 bytes; the set of visited pointers is a list.  The compressing encoder, which the program does not call,
  is in theory Dns_Compress, the display of data in theory Dns_Server.
\<close>

section \<open>Data\<close>

definition TYPE_A :: u16 where "TYPE_A = 1"
definition TYPE_NS :: u16 where "TYPE_NS = 2"
definition TYPE_CNAME :: u16 where "TYPE_CNAME = 5"
definition TYPE_SOA :: u16 where "TYPE_SOA = 6"
definition TYPE_MX :: u16 where "TYPE_MX = 15"
definition TYPE_AAAA :: u16 where "TYPE_AAAA = 28"

lemmas type_defs = TYPE_A_def TYPE_NS_def TYPE_CNAME_def TYPE_SOA_def TYPE_MX_def TYPE_AAAA_def

record DnsHeader =
  dns_id :: u16
  dns_flags :: u16
  qdcount :: u16
  ancount :: u16
  nscount :: u16
  arcount :: u16

definition is_response :: "DnsHeader \<Rightarrow> bool" where
  "is_response h = (dns_flags h AND 0x8000 \<noteq> 0)"

definition rcode :: "DnsHeader \<Rightarrow> u8" where
  "rcode h = ucast (dns_flags h AND 0x000F)"

record DnsQuestion =
  qname :: bytes
  qtype :: u16
  qclass :: u16

datatype RData =
    A ip4
  | AAAA bytes
  | NS bytes
  | CNAME bytes
  | MX u16 bytes
  | SOA bytes bytes u32 u32 u32 u32 u32
  | Unknown bytes

record DnsRR =
  rr_name :: bytes
  rr_type :: u16
  rr_class :: u16
  rr_ttl :: u32
  rr_data :: RData

record DnsMessage =
  msg_header :: DnsHeader
  questions :: "DnsQuestion list"
  answers :: "DnsRR list"
  authorities :: "DnsRR list"
  additionals :: "DnsRR list"

section \<open>Names\<close>

text \<open>The full stop is byte 46.\<close>

definition encode_name :: "bytes \<Rightarrow> bytes" where
  "encode_name name =
     concat (map (\<lambda>label. if label = [] then [] else of_nat (length label) # label)
       (split_on 46 (trim_end 46 name))) @ [0]"

lemma pointer_bound: "unat (w AND 0x3FFF :: u16) < 16384"
proof -
  have "w AND 0x3FFF = take_bit 14 w" by (simp add: take_bit_eq_mask mask_eq_exp_minus_1)
  then have "unat (w AND 0x3FFF) = unat w mod 16384" by (simp add: take_bit_eq_mod unat_mod)
  then show ?thesis by simp
qed

lemma fewer_pointers:
  assumes "p < 16384" "p \<notin> set visited"
  shows "card ({..<16384} - set (p # visited)) < card ({..<16384 :: nat} - set visited)"
  by (rule psubset_card_mono) (use assms in auto)

text \<open>
  The loop of \<^verbatim>\<open>decode_name\<close>.  Each pointer is followed once, and there are \<open>2^14\<close> of them, so
  it ends.
\<close>

function decode_name_loop ::
  "bytes \<Rightarrow> bytes list \<Rightarrow> nat \<Rightarrow> bool \<Rightarrow> nat \<Rightarrow> nat list \<Rightarrow> (bytes list \<times> nat \<times> bool \<times> nat) option" where
  "decode_name_loop msg labels offset jumped jump_end visited =
     (if offset \<ge> length msg then None
      else let len = msg ! offset in
        if len = 0 then Some (labels, offset + 1, jumped, jump_end)
        else if len AND 0xC0 = 0xC0
        then if offset + 1 \<ge> length msg then None
             else let ptr = unat (u16_from_be (msg ! offset) (msg ! (offset + 1)) AND 0x3FFF) in
               if ptr \<in> set visited then None
               else decode_name_loop msg labels ptr True (if jumped then jump_end else offset + 2) (ptr # visited)
        else let label_len = unat len in
          if offset + 1 + label_len > length msg then None
          else let label = slice (offset + 1) (offset + 1 + label_len) msg in
            if \<not> utf8_valid label then None
            else decode_name_loop msg (labels @ [to_ascii_lowercase label]) (offset + 1 + label_len) jumped jump_end visited)"
  by pat_completeness auto
termination
proof (relation "measures [\<lambda>(msg, labels, offset, jumped, jump_end, visited). card ({..<16384} - set visited),
    \<lambda>(msg, labels, offset, jumped, jump_end, visited). length msg - offset]", goal_cases)
  case (2 msg labels offset jumped jump_end visited len ptr)
  then show ?case using fewer_pointers [OF pointer_bound] by simp
next
  case (3 msg labels offset jumped jump_end visited len label_len label)
  then show ?case by simp
qed simp

declare decode_name_loop.simps [simp del]

definition decode_name :: "bytes \<Rightarrow> nat \<Rightarrow> (bytes \<times> nat) option" where
  "decode_name msg start =
     (case decode_name_loop msg [] start False start [] of
        None \<Rightarrow> None
      | Some (labels, offset, jumped, jump_end) \<Rightarrow>
          Some (if labels = [] then [46] else join [46] labels @ [46], if jumped then jump_end else offset))"

section \<open>Header, questions and records\<close>

definition encode_header :: "DnsHeader \<Rightarrow> bytes" where
  "encode_header h =
     u16_to_be (dns_id h) @ u16_to_be (dns_flags h) @ u16_to_be (qdcount h) @ u16_to_be (ancount h) @
     u16_to_be (nscount h) @ u16_to_be (arcount h)"

definition decode_header :: "bytes \<Rightarrow> DnsHeader option" where
  "decode_header msg =
     (if length msg < 12 then None
      else Some \<lparr>dns_id = u16_at 0 msg, dns_flags = u16_at 2 msg, qdcount = u16_at 4 msg,
                 ancount = u16_at 6 msg, nscount = u16_at 8 msg, arcount = u16_at 10 msg\<rparr>)"

definition decode_question :: "bytes \<Rightarrow> nat \<Rightarrow> (DnsQuestion \<times> nat) option" where
  "decode_question msg offset =
     (case decode_name msg offset of
        None \<Rightarrow> None
      | Some (name, off) \<Rightarrow>
          if off + 4 > length msg then None
          else Some (\<lparr>qname = name, qtype = u16_at off msg, qclass = u16_at (off + 2) msg\<rparr>, off + 4))"

definition encode_question :: "DnsQuestion \<Rightarrow> bytes" where
  "encode_question q = encode_name (qname q) @ u16_to_be (qtype q) @ u16_to_be (qclass q)"

definition encode_rdata :: "RData \<Rightarrow> bytes" where
  "encode_rdata rdata =
     (case rdata of
        A ip \<Rightarrow> ip4_bytes ip
      | AAAA ip \<Rightarrow> ip
      | NS n \<Rightarrow> encode_name n
      | CNAME n \<Rightarrow> encode_name n
      | MX preference exchange \<Rightarrow> u16_to_be preference @ encode_name exchange
      | SOA mname rname serial refresh retry expire minimum \<Rightarrow>
          encode_name mname @ encode_name rname @ u32_to_be serial @ u32_to_be refresh @ u32_to_be retry @
          u32_to_be expire @ u32_to_be minimum
      | Unknown d \<Rightarrow> d)"

definition encode_rr :: "DnsRR \<Rightarrow> bytes" where
  "encode_rr rr =
     (let rdata = encode_rdata (rr_data rr)
      in encode_name (rr_name rr) @ u16_to_be (rr_type rr) @ u16_to_be (rr_class rr) @ u32_to_be (rr_ttl rr) @
         u16_to_be (of_nat (length rdata)) @ rdata)"

definition decode_rdata :: "bytes \<Rightarrow> u16 \<Rightarrow> nat \<Rightarrow> nat \<Rightarrow> RData option" where
  "decode_rdata msg rtype start len =
     (let s = slice start (start + len) msg
      in if rtype = TYPE_A then (if len < 4 then None else Some (A (ip4_at 0 s)))
         else if rtype = TYPE_AAAA then (if len < 16 then None else Some (AAAA (take 16 s)))
         else if rtype = TYPE_NS then map_option (\<lambda>(n, _). NS n) (decode_name msg start)
         else if rtype = TYPE_CNAME then map_option (\<lambda>(n, _). CNAME n) (decode_name msg start)
         else if rtype = TYPE_MX
         then if len < 3 then None
              else map_option (\<lambda>(n, _). MX (u16_at 0 s) n) (decode_name msg (start + 2))
         else if rtype = TYPE_SOA
         then (case decode_name msg start of
                 None \<Rightarrow> None
               | Some (mname, o1) \<Rightarrow>
                   (case decode_name msg o1 of
                      None \<Rightarrow> None
                    | Some (rname, o2) \<Rightarrow>
                        if o2 + 20 > start + len then None
                        else Some (SOA mname rname (u32_at o2 msg) (u32_at (o2 + 4) msg) (u32_at (o2 + 8) msg)
                               (u32_at (o2 + 12) msg) (u32_at (o2 + 16) msg))))
         else Some (Unknown s))"

definition decode_rr :: "bytes \<Rightarrow> nat \<Rightarrow> (DnsRR \<times> nat) option" where
  "decode_rr msg offset =
     (case decode_name msg offset of
        None \<Rightarrow> None
      | Some (name, off) \<Rightarrow>
          if off + 10 > length msg then None
          else let rtype = u16_at off msg;
                   rdlength = unat (u16_at (off + 8) msg);
                   rd_start = off + 10
               in if rd_start + rdlength > length msg then None
                  else (case decode_rdata msg rtype rd_start rdlength of
                          None \<Rightarrow> None
                        | Some rdata \<Rightarrow>
                            Some (\<lparr>rr_name = name, rr_type = rtype, rr_class = u16_at (off + 2) msg,
                                   rr_ttl = u32_at (off + 4) msg, rr_data = rdata\<rparr>, rd_start + rdlength)))"

section \<open>Messages\<close>

text \<open>\<^verbatim>\<open>for _ in 0..count { let (x, o) = decode(msg, off)?; xs.push(x); off = o; }\<close>\<close>

fun decode_many :: "(bytes \<Rightarrow> nat \<Rightarrow> ('a \<times> nat) option) \<Rightarrow> nat \<Rightarrow> bytes \<Rightarrow> nat \<Rightarrow> ('a list \<times> nat) option" where
  "decode_many dec 0 msg off = Some ([], off)"
| "decode_many dec (Suc n) msg off =
     (case dec msg off of
        None \<Rightarrow> None
      | Some (x, off') \<Rightarrow> map_option (\<lambda>(xs, off''). (x # xs, off'')) (decode_many dec n msg off'))"

definition decode_message :: "bytes \<Rightarrow> DnsMessage option" where
  "decode_message msg =
     (case decode_header msg of
        None \<Rightarrow> None
      | Some h \<Rightarrow>
          (case decode_many decode_question (unat (qdcount h)) msg 12 of
             None \<Rightarrow> None
           | Some (qs, off) \<Rightarrow>
               (case decode_many decode_rr (unat (ancount h)) msg off of
                  None \<Rightarrow> None
                | Some (ans, off) \<Rightarrow>
                    (case decode_many decode_rr (unat (nscount h)) msg off of
                       None \<Rightarrow> None
                     | Some (auth, off) \<Rightarrow>
                         (case decode_many decode_rr (unat (arcount h)) msg off of
                            None \<Rightarrow> None
                          | Some (add, off) \<Rightarrow>
                              Some \<lparr>msg_header = h, questions = qs, answers = ans, authorities = auth,
                                    additionals = add\<rparr>)))))"

definition encode_message :: "DnsMessage \<Rightarrow> bytes" where
  "encode_message msg =
     encode_header (msg_header msg) @ concat (map encode_question (questions msg)) @
     concat (map encode_rr (answers msg)) @ concat (map encode_rr (authorities msg)) @
     concat (map encode_rr (additionals msg))"

section \<open>Items in a message\<close>

text \<open>
  The contract of an item format: an item encoded anywhere in a message is decoded from its
  position, and the position after it is returned.
\<close>

locale item_codec =
  fixes enc :: "'a \<Rightarrow> bytes"
    and dec :: "bytes \<Rightarrow> nat \<Rightarrow> ('a \<times> nat) option"
    and wf :: "'a \<Rightarrow> bool"
  assumes dec_at: "wf x \<Longrightarrow> dec (pre @ enc x @ post) (length pre) = Some (x, length pre + length (enc x))"
begin

lemma dec_at_eq:
  "wf x \<Longrightarrow> msg = pre @ enc x @ post \<Longrightarrow> off = length pre \<Longrightarrow> dec msg off = Some (x, off + length (enc x))"
  by (simp add: dec_at)

lemma dec_many:
  assumes "list_all wf xs" "msg = pre @ concat (map enc xs) @ post" "off = length pre"
  shows "decode_many dec (length xs) msg off = Some (xs, off + length (concat (map enc xs)))"
  using assms
proof (induction xs arbitrary: pre off)
  case (Cons x xs)
  have "dec msg off = Some (x, off + length (enc x))"
    using Cons.prems by (intro dec_at_eq [where pre = pre and post = "concat (map enc xs) @ post"]) simp_all
  moreover have "decode_many dec (length xs) msg (off + length (enc x)) =
      Some (xs, off + length (enc x) + length (concat (map enc xs)))"
    using Cons.prems by (intro Cons.IH [where pre = "pre @ enc x"]) simp_all
  ultimately show ?case by simp
qed simp

end

section \<open>Names: round trip\<close>

definition wf_label :: "bytes \<Rightarrow> bool" where
  "wf_label l = (l \<noteq> [] \<and> length l < 64 \<and> 46 \<notin> set l \<and> utf8_valid l \<and> to_ascii_lowercase l = l)"

text \<open>Absolute names in lower case, as \<^verbatim>\<open>decode_name\<close> returns them.\<close>

definition dns_name :: "bytes \<Rightarrow> bool" where
  "dns_name n = (n = [46] \<or> n \<noteq> [] \<and> last n = 46 \<and> list_all wf_label (split_on 46 (butlast n)))"

definition encode_labels :: "bytes list \<Rightarrow> bytes" where
  "encode_labels ls = concat (map (\<lambda>l. of_nat (length l) # l) ls) @ [0]"

definition name_of_labels :: "bytes list \<Rightarrow> bytes" where
  "name_of_labels ls = (if ls = [] then [46] else join [46] ls @ [46])"

lemma dns_name_labels:
  assumes "dns_name n"
  obtains ls where "list_all wf_label ls" "n = name_of_labels ls"
proof (cases "n = [46]")
  case True
  then show ?thesis using that [of "[]"] by (simp add: name_of_labels_def)
next
  case False
  then have "list_all wf_label (split_on 46 (butlast n))" "n = butlast n @ [46]"
    using assms append_butlast_last_id [of n] by (auto simp: dns_name_def)
  then show ?thesis
    using that [of "split_on 46 (butlast n)"] by (simp add: name_of_labels_def join_split)
qed

lemma encode_name_labels:
  assumes "list_all wf_label ls"
  shows "encode_name (name_of_labels ls) = encode_labels ls"
proof (cases "ls = []")
  case True
  then show ?thesis by (simp add: encode_name_def name_of_labels_def encode_labels_def trim_end_def)
next
  case False
  have wf: "\<And>l. l \<in> set ls \<Longrightarrow> l \<noteq> [] \<and> 46 \<notin> set l"
    using assms by (auto simp: list_all_iff wf_label_def)
  have "split_on 46 (trim_end 46 (name_of_labels ls)) = ls"
    using False wf by (simp add: name_of_labels_def trim_end_join split_join)
  moreover have "map (\<lambda>l. if l = [] then [] else of_nat (length l) # l) ls = map (\<lambda>l. of_nat (length l) # l) ls"
    using wf by auto
  ultimately show ?thesis unfolding encode_name_def encode_labels_def by metis
qed

lemma label_length_byte:
  assumes "0 < n" "n < 64"
  shows "(of_nat n :: u8) \<noteq> 0" "(of_nat n :: u8) AND 0xC0 \<noteq> 0xC0" "unat (of_nat n :: u8) = n"
proof -
  show u: "unat (of_nat n :: u8) = n"
    using assms by (simp add: unat_of_nat take_bit_nat_eq_self)
  then show "(of_nat n :: u8) \<noteq> 0" using assms(1) by auto
  show "(of_nat n :: u8) AND 0xC0 \<noteq> 0xC0"
  proof
    assume "(of_nat n :: u8) AND 0xC0 = 0xC0"
    then have "(0xC0 :: u8) \<le> of_nat n" by (metis word_and_le2)
    then show False using u assms(2) by (simp add: word_le_nat_alt)
  qed
qed

lemma decode_labels:
  assumes "list_all wf_label ls" "msg = pre @ encode_labels ls @ post" "off = length pre"
  shows "decode_name_loop msg acc off j je v = Some (acc @ ls, off + length (encode_labels ls), j, je)"
  using assms
proof (induction ls arbitrary: pre acc off)
  case Nil
  then show ?case by (simp add: decode_name_loop.simps encode_labels_def)
next
  case (Cons l ls)
  have l: "0 < length l" "length l < 64" "utf8_valid l" "to_ascii_lowercase l = l" "list_all wf_label ls"
    using Cons.prems(1) by (simp_all add: wf_label_def [of l])
  have msg: "msg = pre @ (of_nat (length l) # l) @ encode_labels ls @ post"
    using Cons.prems(2) by (simp add: encode_labels_def)
  have at: "msg ! off = of_nat (length l)" "slice (off + 1) (off + 1 + length l) msg = l"
    "off + 1 + length l \<le> length msg"
    using Cons.prems(3) by (simp_all add: msg slice_def)
  have "decode_name_loop msg (acc @ [l]) (off + 1 + length l) j je v =
      Some ((acc @ [l]) @ ls, off + 1 + length l + length (encode_labels ls), j, je)"
    by (rule Cons.IH [OF l(5), where pre = "pre @ of_nat (length l) # l"]) (simp_all add: msg Cons.prems(3))
  then show ?case
    using at l label_length_byte [OF l(1,2)]
    by (subst decode_name_loop.simps) (simp add: encode_labels_def)
qed

lemma decode_name_at:
  assumes "dns_name n"
  shows "decode_name (pre @ encode_name n @ post) (length pre) = Some (n, length pre + length (encode_name n))"
proof -
  obtain ls where ls: "list_all wf_label ls" "n = name_of_labels ls" by (rule dns_name_labels [OF assms])
  have enc: "encode_name n = encode_labels ls" using encode_name_labels [OF ls(1)] by (simp add: ls(2))
  show ?thesis
    using decode_labels [OF ls(1) refl refl, where acc = "[]" and post = post]
    by (simp add: decode_name_def enc) (simp add: ls(2) name_of_labels_def)
qed

interpretation dns_names: item_codec encode_name decode_name dns_name
  by unfold_locales (rule decode_name_at)

section \<open>Questions and records: round trip\<close>

definition wf_question :: "DnsQuestion \<Rightarrow> bool" where
  "wf_question q = dns_name (qname q)"

interpretation dns_questions: item_codec encode_question decode_question wf_question
proof
  fix q pre post
  assume "wf_question q"
  then have n: "decode_name (pre @ encode_question q @ post) (length pre) =
      Some (qname q, length pre + length (encode_name (qname q)))"
    by (intro dns_names.dec_at_eq [where post = "u16_to_be (qtype q) @ u16_to_be (qclass q) @ post"])
      (simp_all add: wf_question_def encode_question_def)
  show "decode_question (pre @ encode_question q @ post) (length pre) =
      Some (q, length pre + length (encode_question q))"
    unfolding decode_question_def n
    by (simp add: encode_question_def field_at_skip wire_simps)
qed

fun wf_rdata :: "u16 \<Rightarrow> RData \<Rightarrow> bool" where
  "wf_rdata ty (A ip) = (ty = TYPE_A)"
| "wf_rdata ty (AAAA ip) = (ty = TYPE_AAAA \<and> length ip = 16)"
| "wf_rdata ty (NS n) = (ty = TYPE_NS \<and> dns_name n)"
| "wf_rdata ty (CNAME n) = (ty = TYPE_CNAME \<and> dns_name n)"
| "wf_rdata ty (MX pr n) = (ty = TYPE_MX \<and> dns_name n)"
| "wf_rdata ty (SOA m r a b c d e) = (ty = TYPE_SOA \<and> dns_name m \<and> dns_name r)"
| "wf_rdata ty (Unknown d) = (ty \<notin> {TYPE_A, TYPE_AAAA, TYPE_NS, TYPE_CNAME, TYPE_MX, TYPE_SOA})"

definition wf_rr :: "DnsRR \<Rightarrow> bool" where
  "wf_rr rr = (dns_name (rr_name rr) \<and> wf_rdata (rr_type rr) (rr_data rr) \<and>
     length (encode_rdata (rr_data rr)) < 65536)"

lemma encode_name_nonempty: "0 < length (encode_name n)"
  by (simp add: encode_name_def)

lemma decode_rdata_at:
  assumes "wf_rdata ty d"
  shows "decode_rdata (pre @ encode_rdata d @ post) ty (length pre) (length (encode_rdata d)) = Some d"
proof (cases d)
  case (SOA m r a b c e f)
  then have wf: "dns_name m" "dns_name r" "ty = TYPE_SOA" using assms by simp_all
  let ?nums = "u32_to_be a @ u32_to_be b @ u32_to_be c @ u32_to_be e @ u32_to_be f"
  let ?msg = "pre @ encode_rdata d @ post"
  have "decode_name ?msg (length pre) = Some (m, length pre + length (encode_name m))"
    by (rule dns_names.dec_at_eq [OF wf(1), where post = "encode_name r @ ?nums @ post"])
      (simp_all add: SOA encode_rdata_def)
  moreover have "decode_name ?msg (length pre + length (encode_name m)) =
      Some (r, length pre + length (encode_name m) + length (encode_name r))"
    by (rule dns_names.dec_at_eq [OF wf(2), where pre = "pre @ encode_name m" and post = "?nums @ post"])
      (simp_all add: SOA encode_rdata_def)
  ultimately show ?thesis
    unfolding decode_rdata_def wf(3)
    by (simp add: type_defs) (simp add: SOA encode_rdata_def field_at_skip wire_simps)
next
  case (MX pr n)
  then have "decode_name (pre @ encode_rdata d @ post) (length pre + 2) =
      Some (n, length pre + 2 + length (encode_name n))"
    using assms by (intro dns_names.dec_at_eq [where pre = "pre @ u16_to_be pr" and post = post])
      (simp_all add: encode_rdata_def)
  moreover have "slice (length pre) (length pre + length (encode_rdata d)) (pre @ encode_rdata d @ post) = encode_rdata d"
    by (simp add: slice_def)
  moreover have "\<not> length (encode_rdata d) < 3" "u16_at 0 (encode_rdata d) = pr"
    using encode_name_nonempty [of n] by (simp_all add: MX encode_rdata_def wire_simps)
  ultimately show ?thesis
    using assms unfolding decode_rdata_def Let_def by (simp add: MX type_defs)
next
  case (NS n)
  then show ?thesis
    using assms dns_names.dec_at [of n pre post] by (simp add: decode_rdata_def encode_rdata_def type_defs)
next
  case (CNAME n)
  then show ?thesis
    using assms dns_names.dec_at [of n pre post] by (simp add: decode_rdata_def encode_rdata_def type_defs)
qed (use assms in \<open>simp_all add: decode_rdata_def encode_rdata_def type_defs slice_def wire_simps\<close>)

interpretation dns_records: item_codec encode_rr decode_rr wf_rr
proof
  fix rr pre post
  assume wf: "wf_rr rr"
  let ?d = "encode_rdata (rr_data rr)"
  let ?n = "encode_name (rr_name rr)"
  let ?fields = "u16_to_be (rr_type rr) @ u16_to_be (rr_class rr) @ u32_to_be (rr_ttl rr) @ u16_to_be (of_nat (length ?d))"
  let ?msg = "pre @ encode_rr rr @ post"
  have enc: "encode_rr rr = ?n @ ?fields @ ?d" by (simp add: encode_rr_def Let_def)
  have n: "decode_name ?msg (length pre) = Some (rr_name rr, length pre + length ?n)"
    using wf by (intro dns_names.dec_at_eq [where post = "?fields @ ?d @ post"]) (simp_all add: wf_rr_def enc)
  have len: "unat (of_nat (length ?d) :: u16) = length ?d"
    using wf by (simp add: wf_rr_def unat_of_nat take_bit_nat_eq_self)
  have d: "decode_rdata ?msg (rr_type rr) (length pre + length ?n + 10) (length ?d) = Some (rr_data rr)"
    using decode_rdata_at [of "rr_type rr" "rr_data rr" "pre @ ?n @ ?fields" post] wf
    by (simp add: wf_rr_def enc add.assoc)
  have f: "u16_at (length pre + length ?n) ?msg = rr_type rr" "u16_at (length pre + length ?n + 2) ?msg = rr_class rr"
    "u32_at (length pre + length ?n + 4) ?msg = rr_ttl rr"
    "u16_at (length pre + length ?n + 8) ?msg = of_nat (length ?d)"
    by (simp_all add: enc field_at_skip wire_simps)
  have l: "length ?msg = length pre + length ?n + 10 + length ?d + length post" by (simp add: enc)
  show "decode_rr ?msg (length pre) = Some (rr, length pre + length (encode_rr rr))"
    unfolding decode_rr_def n option.case prod.case Let_def f len d
    by (simp add: l) (simp add: enc)
qed

section \<open>Messages\<close>

definition wf_message :: "DnsMessage \<Rightarrow> bool" where
  "wf_message m =
     (list_all wf_question (questions m) \<and> list_all wf_rr (answers m) \<and> list_all wf_rr (authorities m) \<and>
      list_all wf_rr (additionals m) \<and>
      unat (qdcount (msg_header m)) = length (questions m) \<and> unat (ancount (msg_header m)) = length (answers m) \<and>
      unat (nscount (msg_header m)) = length (authorities m) \<and> unat (arcount (msg_header m)) = length (additionals m))"

lemma length_encode_header [simp]: "length (encode_header h) = 12"
  by (simp add: encode_header_def)

lemma decode_header_at: "decode_header (encode_header h @ rest) = Some h"
  by (simp add: decode_header_def encode_header_def field_at_skip wire_simps)

lemma decode_encode_message:
  assumes "wf_message m"
  shows "decode_message (encode_message m) = Some m"
proof -
  let ?h = "encode_header (msg_header m)" and ?q = "concat (map encode_question (questions m))"
  let ?an = "concat (map encode_rr (answers m))" and ?ns = "concat (map encode_rr (authorities m))"
  let ?ar = "concat (map encode_rr (additionals m))"
  note wf = assms [unfolded wf_message_def]
  have q: "decode_many decode_question (length (questions m)) (encode_message m) 12 = Some (questions m, 12 + length ?q)"
    using wf by (intro dns_questions.dec_many [where pre = ?h and post = "?an @ ?ns @ ?ar"]) (simp_all add: encode_message_def)
  have an: "decode_many decode_rr (length (answers m)) (encode_message m) (12 + length ?q) =
      Some (answers m, 12 + length ?q + length ?an)"
    using wf by (intro dns_records.dec_many [where pre = "?h @ ?q" and post = "?ns @ ?ar"]) (simp_all add: encode_message_def)
  have ns: "decode_many decode_rr (length (authorities m)) (encode_message m) (12 + length ?q + length ?an) =
      Some (authorities m, 12 + length ?q + length ?an + length ?ns)"
    using wf by (intro dns_records.dec_many [where pre = "?h @ ?q @ ?an" and post = ?ar]) (simp_all add: encode_message_def)
  have ar: "decode_many decode_rr (length (additionals m)) (encode_message m) (12 + length ?q + length ?an + length ?ns) =
      Some (additionals m, 12 + length ?q + length ?an + length ?ns + length ?ar)"
    using wf by (intro dns_records.dec_many [where pre = "?h @ ?q @ ?an @ ?ns" and post = "[]"])
      (simp_all add: encode_message_def)
  have "decode_header (encode_message m) = Some (msg_header m)"
    by (simp add: encode_message_def decode_header_at)
  then show ?thesis
    unfolding decode_message_def using wf q an ns ar by (simp del: length_concat)
qed

text \<open>
  (C20) DNS messages.  Every message whose counts are right and whose names are absolute and in lower
  case, with labels of at most 63 bytes, is decoded to itself from its encoding: header, questions and all records
  of the six known types and of unknown ones.
\<close>

theorem dns_message_roundtrip:
  assumes "wf_message m"
  shows "decode_message (encode_message m) = Some m"
  by (rule decode_encode_message [OF assms])

definition example_message :: DnsMessage where
  "example_message =
     \<lparr>msg_header = \<lparr>dns_id = 0x1234, dns_flags = 0x8180, qdcount = 1, ancount = 1, nscount = 0, arcount = 0\<rparr>,
      questions = [\<lparr>qname = [97, 46, 99, 46], qtype = TYPE_MX, qclass = 1\<rparr>],
      answers = [\<lparr>rr_name = [97, 46, 99, 46], rr_type = TYPE_MX, rr_class = 1, rr_ttl = 300,
                  rr_data = MX 10 [109, 46, 97, 46, 99, 46]\<rparr>],
      authorities = [], additionals = []\<rparr>"

theorem dns_message_roundtrip_witness: "decode_message (encode_message example_message) = Some example_message"
proof (rule dns_message_roundtrip)
  have name: "dns_name [97, 46, 99, 46]" "dns_name [109, 46, 97, 46, 99, 46]"
    by (simp_all add: dns_name_def wf_label_def to_ascii_lowercase_def in_range_def)
  moreover have "length (encode_rdata (MX 10 [109, 46, 97, 46, 99, 46])) < 65536"
    by (simp add: encode_rdata_def encode_name_def trim_end_def u16_to_be_def)
  ultimately show "wf_message example_message"
    by (simp add: wf_message_def example_message_def wf_question_def wf_rr_def)
qed

section \<open>Hostile messages\<close>

lemma decode_name_loop_bounds:
  "decode_name_loop msg ls off j je v = Some (ls', off', j', je') \<Longrightarrow>
     off' \<le> length msg \<and> (j \<longrightarrow> j' \<and> je' = je) \<and> (\<not> j \<and> \<not> j' \<longrightarrow> off < off') \<and>
     (\<not> j \<and> j' \<longrightarrow> off < je' \<and> je' \<le> length msg)"
proof (induction msg ls off j je v rule: decode_name_loop.induct)
  case (1 msg ls off j je v)
  show ?case
    using "1.prems" "1.IH" by (subst (asm) decode_name_loop.simps) (force simp: Let_def split: if_splits)
qed

lemma decode_name_bounds: "decode_name msg off = Some (n, off') \<Longrightarrow> off < off' \<and> off' \<le> length msg"
  by (auto simp: decode_name_def dest!: decode_name_loop_bounds split: option.splits if_splits)

lemma decode_question_bounds:
  "decode_question msg off = Some (q, off') \<Longrightarrow> off + 4 < off' \<and> off' \<le> length msg"
  by (auto simp: decode_question_def dest!: decode_name_bounds split: option.splits if_splits)

lemma decode_rr_bounds: "decode_rr msg off = Some (rr, off') \<Longrightarrow> off + 10 < off' \<and> off' \<le> length msg"
  by (auto simp: decode_rr_def Let_def dest!: decode_name_bounds split: option.splits if_splits)

lemma decode_many_bounds:
  assumes "\<And>off x off'. dec msg off = Some (x, off') \<Longrightarrow> off + k \<le> off' \<and> off' \<le> length msg"
    "decode_many dec n msg off = Some (xs, off')" "off \<le> length msg"
  shows "length xs = n \<and> off + k * n \<le> off' \<and> off' \<le> length msg"
  using assms(2,3)
proof (induction n arbitrary: off xs)
  case (Suc n)
  then obtain x o1 ys where x: "dec msg off = Some (x, o1)" "decode_many dec n msg o1 = Some (ys, off')" "xs = x # ys"
    by (auto split: option.splits)
  from assms(1) [OF x(1)] Suc.IH [OF x(2)] x(3) show ?case by simp
qed simp

text \<open>
  (C21) Decoding is safe on any input.  Whatever bytes arrive, with whatever compression pointers, decoding
  ends; a decoded name, question or record ends inside the message and after where it started, and a decoded message has
  the numbers of questions and records its header announces, so a short message cannot announce
  more than fit: five bytes for each question and eleven for each record.
\<close>

theorem dns_decoding_bounded:
  "(decode_name msg off = Some (n, off') \<longrightarrow> off < off' \<and> off' \<le> length msg) \<and>
   (decode_message msg = Some m \<longrightarrow>
      length (questions m) = unat (qdcount (msg_header m)) \<and> length (answers m) = unat (ancount (msg_header m)) \<and>
      length (authorities m) = unat (nscount (msg_header m)) \<and> length (additionals m) = unat (arcount (msg_header m)) \<and>
      12 + 5 * length (questions m) + 11 * (length (answers m) + length (authorities m) + length (additionals m))
        \<le> length msg)"
proof (intro conjI impI)
  have q: "off + 5 \<le> off' \<and> off' \<le> length msg" if "decode_question msg off = Some (x, off')" for off x off'
    using decode_question_bounds [OF that] by simp
  have r: "off + 11 \<le> off' \<and> off' \<le> length msg" if "decode_rr msg off = Some (x, off')" for off x off'
    using decode_rr_bounds [OF that] by simp
  assume "decode_message msg = Some m"
  then obtain o1 o2 o3 o4 where len: "12 \<le> length msg"
    and d: "decode_many decode_question (unat (qdcount (msg_header m))) msg 12 = Some (questions m, o1)"
      "decode_many decode_rr (unat (ancount (msg_header m))) msg o1 = Some (answers m, o2)"
      "decode_many decode_rr (unat (nscount (msg_header m))) msg o2 = Some (authorities m, o3)"
      "decode_many decode_rr (unat (arcount (msg_header m))) msg o3 = Some (additionals m, o4)"
    by (auto simp: decode_message_def decode_header_def split: option.splits if_splits)
  have b1: "length (questions m) = unat (qdcount (msg_header m)) \<and> 12 + 5 * unat (qdcount (msg_header m)) \<le> o1 \<and>
      o1 \<le> length msg"
    by (rule decode_many_bounds [OF _ d(1) len]) (rule q)
  have rs: "length xs = k \<and> i + 11 * k \<le> j \<and> j \<le> length msg"
    if "decode_many decode_rr k msg i = Some (xs, j)" "i \<le> length msg" for k i xs j
    by (rule decode_many_bounds [OF _ that]) (rule r)
  from b1 rs [OF d(2)] have b2: "length (answers m) = unat (ancount (msg_header m)) \<and>
      o1 + 11 * unat (ancount (msg_header m)) \<le> o2 \<and> o2 \<le> length msg" by blast
  with rs [OF d(3)] have b3: "length (authorities m) = unat (nscount (msg_header m)) \<and>
      o2 + 11 * unat (nscount (msg_header m)) \<le> o3 \<and> o3 \<le> length msg" by blast
  with rs [OF d(4)] have b4: "length (additionals m) = unat (arcount (msg_header m)) \<and>
      o3 + 11 * unat (arcount (msg_header m)) \<le> o4 \<and> o4 \<le> length msg" by blast
  show "length (questions m) = unat (qdcount (msg_header m))" "length (answers m) = unat (ancount (msg_header m))"
    "length (authorities m) = unat (nscount (msg_header m))" "length (additionals m) = unat (arcount (msg_header m))"
    "12 + 5 * length (questions m) + 11 * (length (answers m) + length (authorities m) + length (additionals m)) \<le> length msg"
    using b1 b2 b3 b4 by auto
qed (use decode_name_bounds in blast)+

theorem dns_decoding_bounded_witness:
  "decode_name [1, 97, 0xC0, 0] 2 = None \<and> decode_name [1, 97, 0, 0xC0, 0] 3 = Some ([97, 46], 5) \<and>
   (5 :: nat) \<le> length [1, 97, 0, 0xC0, 0 :: u8]"
proof -
  have loop: "decode_name [1, 97, 0xC0, 0] 2 = None"
    by (simp add: decode_name_def decode_name_loop.simps u16_from_be_def slice_def in_range_def to_ascii_lowercase_def)
  have ok: "decode_name [1, 97, 0, 0xC0, 0] 3 = Some ([97, 46], 5)"
    by (simp add: decode_name_def decode_name_loop.simps u16_from_be_def slice_def in_range_def to_ascii_lowercase_def)
  from dns_decoding_bounded [of "[1, 97, 0, 0xC0, 0]" 3 "[97, 46]" 5 undefined] loop ok
  show ?thesis by blast
qed

end
