(* ===== verification/Dns_Cache.thy ===== *)
theory Dns_Cache
  imports Dns_Message Hash_Map
begin

text \<open>
  \<^verbatim>\<open>toolkit/dnsresolver/src/cache.rs\<close>: the resolver's cache of records and of names known
  not to exist.  Each method holds the lock of the map it uses from beginning to end, so a method is one step.
  A method's reading of the clock is its argument \<open>now\<close>.
\<close>

section \<open>The code\<close>

type_synonym cache_key = "bytes \<times> u16 \<times> u16"

record DnsCacheEntry =
  ce_rr :: DnsRR
  ce_expires :: instant

record DnsCache =
  records :: "(cache_key, DnsCacheEntry list) hash_map"
  negatives :: "(cache_key, instant) hash_map"

definition CLASS_IN :: u16 where "CLASS_IN = 1"

definition dns_cache_new :: DnsCache where
  "dns_cache_new = \<lparr>records = hm_new, negatives = hm_new\<rparr>"

definition dns_get :: "instant \<Rightarrow> bytes \<Rightarrow> u16 \<Rightarrow> u16 \<Rightarrow> DnsCache \<Rightarrow> DnsRR list option \<times> DnsCache" where
  "dns_get now name ty cl c =
     (let key = (to_ascii_lowercase name, ty, cl)
      in case hm_get (records c) key of
           None \<Rightarrow> (None, c)
         | Some es \<Rightarrow>
             let es = filter (\<lambda>e. ce_expires e > now) es
             in if es = [] then (None, c\<lparr>records := hm_remove key (records c)\<rparr>)
                else (Some (map ce_rr es), c\<lparr>records := hm_insert key es (records c)\<rparr>))"

text \<open>The loop of \<^verbatim>\<open>put\<close> over the entries of the key, and the \<^verbatim>\<open>push\<close> after it.\<close>

fun put_entry :: "instant \<Rightarrow> DnsRR \<Rightarrow> DnsCacheEntry list \<Rightarrow> DnsCacheEntry list" where
  "put_entry new_expires rr [] = [\<lparr>ce_rr = rr, ce_expires = new_expires\<rparr>]"
| "put_entry new_expires rr (e # es) =
     (if rr_data (ce_rr e) = rr_data rr
      then e\<lparr>ce_expires := new_expires, ce_rr := (ce_rr e)\<lparr>rr_ttl := rr_ttl rr\<rparr>\<rparr> # es
      else e # put_entry new_expires rr es)"

definition dns_put :: "instant \<Rightarrow> DnsRR \<Rightarrow> DnsCache \<Rightarrow> DnsCache" where
  "dns_put now rr c =
     (let key = (to_ascii_lowercase (rr_name rr), rr_type rr, rr_class rr);
          new_expires = now + from_secs (unat (rr_ttl rr));
          es = (case hm_get (records c) key of None \<Rightarrow> [] | Some es \<Rightarrow> es)
      in c\<lparr>records := hm_insert key (put_entry new_expires rr es) (records c)\<rparr>)"

text \<open>
  \<^verbatim>\<open>put_all\<close>: \<open>clk i\<close> is the reading of the clock taken for the \<open>i\<close>-th record.  Each record is put in under a lock of its
  own: \<open>oth i\<close> is what other threads do to the cache after it, \<open>quiet\<close> when there are none.
\<close>

type_synonym interference = "nat \<Rightarrow> DnsCache \<Rightarrow> DnsCache"

abbreviation quiet :: interference where
  "quiet \<equiv> \<lambda>_ c. c"

fun put_all :: "(nat \<Rightarrow> instant) \<Rightarrow> interference \<Rightarrow> nat \<Rightarrow> DnsRR list \<Rightarrow> DnsCache \<Rightarrow> DnsCache" where
  "put_all clk oth i [] c = c"
| "put_all clk oth i (rr # rrs) c = put_all clk oth (i + 1) rrs (oth i (dns_put (clk i) rr c))"

definition put_nxdomain :: "instant \<Rightarrow> bytes \<Rightarrow> u16 \<Rightarrow> u16 \<Rightarrow> u32 \<Rightarrow> DnsCache \<Rightarrow> DnsCache" where
  "put_nxdomain now name ty cl ttl c =
     (let key = (to_ascii_lowercase name, ty, cl);
          expiry = now + from_secs (unat ttl)
      in c\<lparr>negatives := hm_insert key expiry (negatives c)\<rparr>)"

definition is_nxdomain :: "instant \<Rightarrow> bytes \<Rightarrow> u16 \<Rightarrow> u16 \<Rightarrow> DnsCache \<Rightarrow> bool" where
  "is_nxdomain now name ty cl c =
     (case hm_get (negatives c) (to_ascii_lowercase name, ty, cl) of
        Some expiry \<Rightarrow> now < expiry
      | None \<Rightarrow> False)"

text \<open>
  The loop of \<^verbatim>\<open>get_ns_ips\<close> over the name servers: \<open>clk i\<close> is the reading taken by the
  lookup of the \<open>i\<close>-th, \<open>oth i\<close> what other threads do after it.
\<close>

fun ns_ips_loop :: "(nat \<Rightarrow> instant) \<Rightarrow> interference \<Rightarrow> nat \<Rightarrow> DnsRR list \<Rightarrow> DnsCache \<Rightarrow> (bytes \<times> ip4) list \<times> DnsCache" where
  "ns_ips_loop clk oth i [] c = ([], c)"
| "ns_ips_loop clk oth i (ns # rest) c =
     (case rr_data ns of
        NS ns_name \<Rightarrow>
          let (a_records, c) = dns_get (clk i) ns_name TYPE_A CLASS_IN c;
              found = [(ns_name, ip). A ip \<leftarrow> map rr_data (case a_records of None \<Rightarrow> [] | Some rs \<Rightarrow> rs)];
              (more, c) = ns_ips_loop clk oth (i + 1) rest (oth i c)
          in (found @ more, c)
      | _ \<Rightarrow> ns_ips_loop clk oth i rest c)"

definition get_ns_ips :: "(nat \<Rightarrow> instant) \<Rightarrow> interference \<Rightarrow> bytes \<Rightarrow> DnsCache \<Rightarrow> (bytes \<times> ip4) list \<times> DnsCache" where
  "get_ns_ips clk oth zone c =
     (let (ns_records, c) = dns_get (clk 0) (to_ascii_lowercase zone) TYPE_NS CLASS_IN c
      in ns_ips_loop clk oth 1 (case ns_records of None \<Rightarrow> [] | Some rs \<Rightarrow> rs) (oth 0 c))"

section \<open>What is cached\<close>

text \<open>The abstract cache: for a key and a datum, until when it is known.\<close>

definition entries_at :: "DnsCache \<Rightarrow> cache_key \<Rightarrow> DnsCacheEntry list" where
  "entries_at c key = (case hm_get (records c) key of None \<Rightarrow> [] | Some es \<Rightarrow> es)"

definition known_until :: "DnsCache \<Rightarrow> cache_key \<Rightarrow> RData \<Rightarrow> instant option" where
  "known_until c key d = map_of (map (\<lambda>e. (rr_data (ce_rr e), ce_expires e)) (entries_at c key)) d"

definition dns_cache_inv :: "DnsCache \<Rightarrow> bool" where
  "dns_cache_inv c = (\<forall>key. distinct (map (rr_data \<circ> ce_rr) (entries_at c key)))"

definition rr_key :: "DnsRR \<Rightarrow> cache_key" where
  "rr_key rr = (to_ascii_lowercase (rr_name rr), rr_type rr, rr_class rr)"

lemma entries_dns_put:
  "entries_at (dns_put now rr c) key =
     (if key = rr_key rr then put_entry (now + from_secs (unat (rr_ttl rr))) rr (entries_at c key)
      else entries_at c key)"
  by (simp add: entries_at_def dns_put_def rr_key_def Let_def hm_simps)

lemma entries_dns_get:
  "entries_at (snd (dns_get now name ty cl c)) key =
     (if key = (to_ascii_lowercase name, ty, cl) then filter (\<lambda>e. ce_expires e > now) (entries_at c key)
      else entries_at c key)"
  by (simp add: entries_at_def dns_get_def Let_def hm_simps split: option.split)

lemma fst_dns_get:
  "fst (dns_get now name ty cl c) =
     (let es = filter (\<lambda>e. ce_expires e > now) (entries_at c (to_ascii_lowercase name, ty, cl))
      in if es = [] then None else Some (map ce_rr es))"
  by (simp add: entries_at_def dns_get_def Let_def split: option.split)

lemma put_entry_data:
  "set (map (rr_data \<circ> ce_rr) (put_entry x rr es)) = Set.insert (rr_data rr) (set (map (rr_data \<circ> ce_rr) es))"
  by (induction es) auto

lemma put_entry_distinct:
  "distinct (map (rr_data \<circ> ce_rr) es) \<Longrightarrow> distinct (map (rr_data \<circ> ce_rr) (put_entry x rr es))"
proof (induction es)
  case (Cons e es)
  then show ?case using put_entry_data [of x rr es] by auto
qed simp

lemma put_entry_map:
  "map_of (map (\<lambda>e. (rr_data (ce_rr e), ce_expires e)) (put_entry x rr es)) =
     (map_of (map (\<lambda>e. (rr_data (ce_rr e), ce_expires e)) es))(rr_data rr \<mapsto> x)"
  by (induction es) (auto simp: fun_eq_iff)

lemma map_of_live:
  assumes "distinct (map (rr_data \<circ> ce_rr) es)"
  shows "d \<in> rr_data ` ce_rr ` set (filter (\<lambda>e. ce_expires e > now) es) \<longleftrightarrow>
    (\<exists>x. map_of (map (\<lambda>e. (rr_data (ce_rr e), ce_expires e)) es) d = Some x \<and> now < x)"
proof -
  have "distinct (map fst (map (\<lambda>e. (rr_data (ce_rr e), ce_expires e)) es))"
    using assms by (simp add: comp_def)
  from map_of_eq_Some_iff [OF this] show ?thesis by force
qed

lemma dns_cache_invI: "(\<And>key. distinct (map (rr_data \<circ> ce_rr) (entries_at c key))) \<Longrightarrow> dns_cache_inv c"
  unfolding dns_cache_inv_def by blast

lemma dns_cache_invD: "dns_cache_inv c \<Longrightarrow> distinct (map (rr_data \<circ> ce_rr) (entries_at c key))"
  unfolding dns_cache_inv_def by blast

lemma dns_cache_inv_new: "dns_cache_inv dns_cache_new"
  by (simp add: dns_cache_inv_def entries_at_def dns_cache_new_def hm.get_empty)

lemma dns_cache_inv_put: "dns_cache_inv c \<Longrightarrow> dns_cache_inv (dns_put now rr c)"
  by (rule dns_cache_invI) (simp add: dns_cache_invD entries_dns_put put_entry_distinct)

lemma dns_cache_inv_get: "dns_cache_inv c \<Longrightarrow> dns_cache_inv (snd (dns_get now name ty cl c))"
  by (rule dns_cache_invI) (simp add: dns_cache_invD entries_dns_get distinct_map_filter)

section \<open>Properties\<close>

text \<open>
  (C25) The record cache refines a table of expiry times.  Putting a record makes its datum known under its
  key (names in any case) until its time to live has passed, replacing an older time, and changes nothing else; a lookup returns
  exactly the data whose time has not passed, \<^verbatim>\<open>None\<close> when there is none, and forgets
  only what has expired.  No datum is ever stored twice under a key.
\<close>

theorem dns_cache_refines:
  assumes "dns_cache_inv c"
  shows "dns_cache_inv (dns_put now rr c) \<and> dns_cache_inv (snd (dns_get now name ty cl c)) \<and>
    known_until (dns_put now rr c) key d =
      (if key = rr_key rr \<and> d = rr_data rr then Some (now + from_secs (unat (rr_ttl rr))) else known_until c key d) \<and>
    (case fst (dns_get now name ty cl c) of
       None \<Rightarrow> \<forall>d x. known_until c (to_ascii_lowercase name, ty, cl) d = Some x \<longrightarrow> x \<le> now
     | Some rrs \<Rightarrow> rrs \<noteq> [] \<and> (d \<in> rr_data ` set rrs \<longleftrightarrow>
         (\<exists>x. known_until c (to_ascii_lowercase name, ty, cl) d = Some x \<and> now < x))) \<and>
    (\<forall>x. known_until c key d = Some x \<and> now < x \<longrightarrow> known_until (snd (dns_get now name ty cl c)) key d = Some x)"
proof -
  have dist: "distinct (map (rr_data \<circ> ce_rr) (entries_at c k))" for k
    by (rule dns_cache_invD [OF assms])
  note live = map_of_live [OF dist]
  have put: "known_until (dns_put now rr c) key d =
      (if key = rr_key rr \<and> d = rr_data rr then Some (now + from_secs (unat (rr_ttl rr))) else known_until c key d)"
    by (simp add: known_until_def entries_dns_put put_entry_map)
  have old: "x \<le> now" if "filter (\<lambda>e. ce_expires e > now) (entries_at c k) = []" "known_until c k d = Some x" for k d x
    using that unfolding known_until_def by (fastforce simp: filter_empty_conv not_less dest!: map_of_SomeD)
  have get: "case fst (dns_get now name ty cl c) of
       None \<Rightarrow> \<forall>d x. known_until c (to_ascii_lowercase name, ty, cl) d = Some x \<longrightarrow> x \<le> now
     | Some rrs \<Rightarrow> rrs \<noteq> [] \<and> (d \<in> rr_data ` set rrs \<longleftrightarrow>
         (\<exists>x. known_until c (to_ascii_lowercase name, ty, cl) d = Some x \<and> now < x))"
    using live [of d now "(to_ascii_lowercase name, ty, cl)"] old
    by (simp add: fst_dns_get Let_def) (simp add: known_until_def)
  have keep: "known_until (snd (dns_get now name ty cl c)) key d = Some x"
    if "known_until c key d = Some x" "now < x" for x
  proof -
    have d': "distinct (map fst (map (\<lambda>e. (rr_data (ce_rr e), ce_expires e)) es))"
      if "distinct (map (rr_data \<circ> ce_rr) es)" for es using that by (simp add: comp_def)
    have "distinct (map (rr_data \<circ> ce_rr) (entries_at (snd (dns_get now name ty cl c)) key))"
      by (rule dns_cache_invD [OF dns_cache_inv_get [OF assms]])
    then show ?thesis
      using that dist [of key] unfolding known_until_def
      by (force simp: entries_dns_get map_of_eq_Some_iff [OF d'])
  qed
  show ?thesis
    using dns_cache_inv_put [OF assms] dns_cache_inv_get [OF assms] put get keep by blast
qed

definition example_rr :: DnsRR where
  "example_rr = \<lparr>rr_name = [65, 46], rr_type = TYPE_A, rr_class = 1, rr_ttl = 300, rr_data = A (1, 2, 3, 4)\<rparr>"

theorem dns_cache_refines_witness:
  "known_until (dns_put 7 example_rr dns_cache_new) ([97, 46], TYPE_A, 1) (A (1, 2, 3, 4)) = Some (7 + from_secs 300)"
proof -
  have key: "rr_key example_rr = ([97, 46], TYPE_A, 1)" "rr_data example_rr = A (1, 2, 3, 4)" "rr_ttl example_rr = 300"
    by (simp_all add: rr_key_def example_rr_def to_ascii_lowercase_def in_range_def)
  show ?thesis
    using dns_cache_refines [OF dns_cache_inv_new, of 7 example_rr "[]" 1 1 "([97, 46], TYPE_A, 1)" "A (1, 2, 3, 4)"]
    by (simp add: key)
qed

text \<open>
  A name put into the negative cache is reported missing, in any spelling, until its time to live has passed and not
  after; other names are not affected.
\<close>

theorem negative_cache_lookup:
  "is_nxdomain now' name' ty' cl' (put_nxdomain now name ty cl ttl c) =
     (if (to_ascii_lowercase name', ty', cl') = (to_ascii_lowercase name, ty, cl)
      then now' < now + from_secs (unat ttl) else is_nxdomain now' name' ty' cl' c)"
  by (simp add: is_nxdomain_def put_nxdomain_def Let_def hm_simps)

end
