(* ===== verification/Dns_Resolver.thy ===== *)
theory Dns_Resolver
  imports Dns_Cache
begin

text \<open>
  \<^verbatim>\<open>toolkit/dnsresolver/src/resolve.rs\<close> and \<^verbatim>\<open>handle_query\<close> of
  \<^verbatim>\<open>toolkit/dnsresolver/src/main.rs\<close>: the resolver that follows referrals from the root.

  The clock, the random query identifiers and the network are the parameter \<open>dns_env\<close>.  The resolver's
  operations are numbered: the \<open>k\<close>-th cache operation reads the clock \<open>env_clock e k 0\<close>,
  \<open>env_clock e k 1\<close>, \dots, and \<open>env_net e k server wire\<close> is what the \<open>k\<close>-th exchange with a server
  gives.  Every query is handled by a thread of its own, and the threads share the cache: \<open>env_others e k i\<close> is what the others do
  to it after the \<open>i\<close>-th access of the \<open>k\<close>-th cache operation: they act whenever this thread does not hold the lock, also
  between the entries that one call of \<^verbatim>\<open>put_all\<close> or \<^verbatim>\<open>get_ns_ips\<close> works on, and after the call
  (\<open>i = 0\<close>).  Printing (\<^verbatim>\<open>verbose\<close>) is left out.
\<close>

section \<open>State\<close>

datatype sock_error = BindError | TimeoutError | SendError | RecvError

datatype query_error = SockFailed sock_error | InvalidResponse

datatype resolve_error =
    NoNameservers bytes
  | CnameDepthExceeded
  | EmptyReferral
  | ReferralCycle
  | NoUsefulResponse
  | TooManyIterations
  | ServersFailed "(bytes \<times> query_error) option"

record dns_env =
  env_clock :: "nat \<Rightarrow> nat \<Rightarrow> instant"
  env_id :: "nat \<Rightarrow> u16"
  env_net :: "nat \<Rightarrow> ip4 \<Rightarrow> bytes \<Rightarrow> sock_error + bytes"
  env_others :: "nat \<Rightarrow> interference"

record resolver =
  rs_cache :: DnsCache
  rs_ops :: nat
  rs_sent :: "(ip4 \<times> bytes) list"

type_synonym name_server = "bytes \<times> ip4"
type_synonym sections = "DnsRR list \<times> DnsRR list \<times> DnsRR list"

definition MAX_CNAME_DEPTH :: nat where "MAX_CNAME_DEPTH = 16"
definition MAX_ITERATIONS :: nat where "MAX_ITERATIONS = 30"
definition MAX_GLUE_DEPTH :: nat where "MAX_GLUE_DEPTH = 3"
definition RCODE_NOERROR :: u8 where "RCODE_NOERROR = 0"
definition RCODE_NXDOMAIN :: u8 where "RCODE_NXDOMAIN = 3"

section \<open>Calls of the cache\<close>

text \<open>A call replaces the cache and takes the next number; then other threads act.\<close>

definition after_op :: "dns_env \<Rightarrow> DnsCache \<Rightarrow> resolver \<Rightarrow> resolver" where
  "after_op e c s = s\<lparr>rs_cache := env_others e (rs_ops s) 0 c, rs_ops := rs_ops s + 1\<rparr>"

text \<open>What others do inside an operation.\<close>

definition env_within :: "dns_env \<Rightarrow> resolver \<Rightarrow> interference" where
  "env_within e s i = env_others e (rs_ops s) (i + 1)"

definition cache_get :: "dns_env \<Rightarrow> bytes \<Rightarrow> u16 \<Rightarrow> resolver \<Rightarrow> DnsRR list option \<times> resolver" where
  "cache_get e name ty s =
     (let (r, c) = dns_get (env_clock e (rs_ops s) 0) name ty CLASS_IN (rs_cache s) in (r, after_op e c s))"

definition cache_ns_ips :: "dns_env \<Rightarrow> bytes \<Rightarrow> resolver \<Rightarrow> name_server list \<times> resolver" where
  "cache_ns_ips e zone s =
     (let (r, c) = get_ns_ips (env_clock e (rs_ops s)) (env_within e s) zone (rs_cache s) in (r, after_op e c s))"

definition cache_put_all :: "dns_env \<Rightarrow> DnsRR list \<Rightarrow> resolver \<Rightarrow> resolver" where
  "cache_put_all e rrs s = after_op e (put_all (env_clock e (rs_ops s)) (env_within e s) 0 rrs (rs_cache s)) s"

definition cache_put_nxdomain :: "dns_env \<Rightarrow> bytes \<Rightarrow> u16 \<Rightarrow> u32 \<Rightarrow> resolver \<Rightarrow> resolver" where
  "cache_put_nxdomain e name ty ttl s =
     after_op e (put_nxdomain (env_clock e (rs_ops s) 0) name ty CLASS_IN ttl (rs_cache s)) s"

definition cache_is_nxdomain :: "dns_env \<Rightarrow> bytes \<Rightarrow> u16 \<Rightarrow> resolver \<Rightarrow> bool \<times> resolver" where
  "cache_is_nxdomain e name ty s =
     (is_nxdomain (env_clock e (rs_ops s) 0) name ty CLASS_IN (rs_cache s), after_op e (rs_cache s) s)"

section \<open>Reading an answer\<close>

definition find_cname :: "DnsRR list \<Rightarrow> DnsRR option" where
  "find_cname rrs = find (\<lambda>rr. case rr_data rr of CNAME _ \<Rightarrow> True | _ \<Rightarrow> False) rrs"

text \<open>
  \<^verbatim>\<open>cname_target\<close> is \<^verbatim>\<open>unreachable!()\<close> on another record; it is only called on what
  \<^verbatim>\<open>find_cname\<close> gave (lemma \<open>cname_target_reachable\<close>).
\<close>

definition cname_target :: "DnsRR \<Rightarrow> bytes" where
  "cname_target rr = (case rr_data rr of CNAME name \<Rightarrow> name | _ \<Rightarrow> undefined)"

definition extract_matching :: "DnsRR list \<Rightarrow> u16 \<Rightarrow> DnsRR list" where
  "extract_matching rrs ty = filter (\<lambda>rr. rr_type rr = ty) rrs"

definition authority_nxdomain :: "DnsRR list \<Rightarrow> bool" where
  "authority_nxdomain auths = list_ex (\<lambda>rr. rr_type rr = 6) auths"

fun extract_soa_minimum :: "DnsRR list \<Rightarrow> u32" where
  "extract_soa_minimum [] = 60"
| "extract_soa_minimum (rr # rrs) =
     (case rr_data rr of SOA _ _ _ _ _ _ minimum \<Rightarrow> minimum | _ \<Rightarrow> extract_soa_minimum rrs)"

lemma cname_target_reachable: "find_cname rrs = Some rr \<Longrightarrow> \<exists>name. rr_data rr = CNAME name \<and> cname_target rr = name"
  unfolding find_cname_def
  by (induction rrs) (auto simp: cname_target_def split: if_splits RData.splits)

section \<open>Name servers\<close>

definition zone_labels :: "bytes \<Rightarrow> bytes list" where
  "zone_labels name = split_on 46 (trim_end 46 name) @ [[]]"

definition zone_at :: "bytes list \<Rightarrow> nat \<Rightarrow> bytes" where
  "zone_at labels i = (if i = length labels - 1 then [46] else join [46] (drop i labels) @ [46])"

fun nameservers_loop :: "dns_env \<Rightarrow> bytes list \<Rightarrow> resolver \<Rightarrow> name_server list option \<times> resolver" where
  "nameservers_loop e [] s = (None, s)"
| "nameservers_loop e (zone # zones) s =
     (let (ns_ips, s) = cache_ns_ips e zone s
      in if ns_ips \<noteq> [] then (Some ns_ips, s) else nameservers_loop e zones s)"

definition get_nameservers :: "dns_env \<Rightarrow> bytes \<Rightarrow> resolver \<Rightarrow> (resolve_error + name_server list) \<times> resolver" where
  "get_nameservers e name s =
     (let labels = zone_labels name
      in case nameservers_loop e (map (zone_at labels) [0..<length labels]) s of
           (Some ns_ips, s) \<Rightarrow> (Inr ns_ips, s)
         | (None, s) \<Rightarrow> (Inl (NoNameservers name), s))"

section \<open>Asking the servers\<close>

definition query_message :: "u16 \<Rightarrow> bytes \<Rightarrow> u16 \<Rightarrow> DnsMessage" where
  "query_message i name ty =
     \<lparr>msg_header = \<lparr>dns_id = i, dns_flags = 0x0100, qdcount = 1, ancount = 0, nscount = 0, arcount = 0\<rparr>,
      questions = [\<lparr>qname = name, qtype = ty, qclass = CLASS_IN\<rparr>], answers = [], authorities = [], additionals = []\<rparr>"

definition send_query :: "dns_env \<Rightarrow> ip4 \<Rightarrow> bytes \<Rightarrow> u16 \<Rightarrow> resolver \<Rightarrow> (query_error + DnsMessage) \<times> resolver" where
  "send_query e server name ty s =
     (let k = rs_ops s;
          wire = encode_message (query_message (env_id e k) name ty);
          sent = s\<lparr>rs_ops := k + 1, rs_sent := rs_sent s @ [(server, wire)]\<rparr>
      in case env_net e k server wire of
           Inl RecvError \<Rightarrow> (Inl (SockFailed RecvError), sent)
         | Inl err \<Rightarrow> (Inl (SockFailed err), s\<lparr>rs_ops := k + 1\<rparr>)
         | Inr buf \<Rightarrow>
             (case decode_message (take 4096 buf) of
                None \<Rightarrow> (Inl InvalidResponse, sent)
              | Some msg \<Rightarrow> (Inr msg, sent)))"

fun servers_loop :: "dns_env \<Rightarrow> bytes \<Rightarrow> u16 \<Rightarrow> (bytes \<times> query_error) option \<Rightarrow> name_server list \<Rightarrow> resolver \<Rightarrow>
    (resolve_error + sections) \<times> resolver" where
  "servers_loop e name ty last_err [] s = (Inl (ServersFailed last_err), s)"
| "servers_loop e name ty last_err ((ns_name, ip) # rest) s =
     (case send_query e ip name ty s of
        (Inr msg, s) \<Rightarrow>
          let s = cache_put_all e (answers msg) s;
              s = cache_put_all e (authorities msg) s;
              s = cache_put_all e (additionals msg) s
          in (Inr (if rcode (msg_header msg) = RCODE_NXDOMAIN then [] else answers msg,
                   authorities msg, additionals msg), s)
      | (Inl err, s) \<Rightarrow> servers_loop e name ty (Some (ns_name, err)) rest s)"

definition query_best_server :: "dns_env \<Rightarrow> bytes \<Rightarrow> u16 \<Rightarrow> name_server list \<Rightarrow> resolver \<Rightarrow>
    (resolve_error + sections) \<times> resolver" where
  "query_best_server e name ty servers s = servers_loop e name ty None servers s"

section \<open>Referrals\<close>

definition ns_names :: "DnsRR list \<Rightarrow> bytes list" where
  "ns_names auths = [name. NS name \<leftarrow> map rr_data auths]"

definition glue_of :: "DnsRR list \<Rightarrow> name_server list" where
  "glue_of adds = concat (map (\<lambda>rr. case rr_data rr of A ip \<Rightarrow> [(rr_name rr, ip)] | _ \<Rightarrow> []) adds)"

definition a_ips :: "bytes \<Rightarrow> DnsRR list \<Rightarrow> name_server list" where
  "a_ips ns rrs = [(ns, ip). A ip \<leftarrow> map rr_data rrs]"

text \<open>
  The loop of \<^verbatim>\<open>extract_referral\<close>.  \<open>deeper ns\<close> is the recursive call that resolves the address of
  \<open>ns\<close>, \<open>None\<close> when \<^verbatim>\<open>glue_depth\<close> has reached its maximum.
\<close>

type_synonym 'a lookup = "resolver \<Rightarrow> (resolve_error + 'a) \<times> resolver"

fun referral_loop :: "dns_env \<Rightarrow> (bytes \<Rightarrow> DnsRR list lookup option) \<Rightarrow> name_server list \<Rightarrow> bytes list \<Rightarrow>
    resolver \<Rightarrow> name_server list \<times> resolver" where
  "referral_loop e deeper glue [] s = ([], s)"
| "referral_loop e deeper glue (ns # rest) s =
     (let (found, s) =
        (case find (\<lambda>(n, _). n = ns) glue of
           Some (_, ip) \<Rightarrow> ([(ns, ip)], s)
         | None \<Rightarrow>
             (case cache_get e ns TYPE_A s of
                (Some a_records, s) \<Rightarrow> (a_ips ns a_records, s)
              | (None, s) \<Rightarrow>
                  (case deeper ns of
                     None \<Rightarrow> ([], s)
                   | Some call \<Rightarrow>
                       (case call s of
                          (Inr rrs, s) \<Rightarrow> (a_ips ns rrs, s)
                        | (Inl _, s) \<Rightarrow> ([], s)))));
          (more, s) = referral_loop e deeper glue rest s
      in (found @ more, s))"

definition extract_referral :: "dns_env \<Rightarrow> (bytes \<Rightarrow> DnsRR list lookup option) \<Rightarrow> DnsRR list \<Rightarrow> DnsRR list \<Rightarrow>
    resolver \<Rightarrow> name_server list option \<times> resolver" where
  "extract_referral e deeper auths adds s =
     (if ns_names auths = [] then (None, s)
      else let (result, s) = referral_loop e deeper (glue_of adds) (ns_names auths) s in (Some result, s))"

section \<open>The iteration\<close>

text \<open>The local variables of \<^verbatim>\<open>resolve_iterative\<close>.\<close>

record walk =
  wk_servers :: "name_server list"
  wk_visited :: "bytes list"
  wk_name :: bytes
  wk_cnames :: nat
  wk_chain :: "DnsRR list"

definition ns_key :: "name_server list \<Rightarrow> bytes" where
  "ns_key servers = join [44] (map fst servers)"

text \<open>
  One turn of the loop: \<open>Inl\<close> is a \<^verbatim>\<open>return\<close> with its value, \<open>Inr\<close> the variables for the next
  turn.  First the turn when the answer section is not empty, then when it is empty, then the whole turn.
\<close>

type_synonym turn = "((resolve_error + DnsRR list) + walk) \<times> resolver"

definition answer_turn :: "dns_env \<Rightarrow> u16 \<Rightarrow> DnsRR list \<Rightarrow> walk \<Rightarrow> resolver \<Rightarrow> turn" where
  "answer_turn e ty ans w s =
     (let matching = extract_matching ans ty in
      if matching \<noteq> [] then (Inl (Inr (wk_chain w @ matching)), s)
      else (case (if ty \<noteq> TYPE_CNAME then find_cname ans else None) of
              Some cname_rr \<Rightarrow>
                if wk_cnames w \<ge> MAX_CNAME_DEPTH then (Inl (Inl CnameDepthExceeded), s)
                else let target = cname_target cname_rr in
                  (case get_nameservers e target s of
                     (Inl err, s) \<Rightarrow> (Inl (Inl err), s)
                   | (Inr servers, s) \<Rightarrow>
                       (Inr (w\<lparr>wk_cnames := wk_cnames w + 1, wk_name := target,
                               wk_chain := wk_chain w @ [cname_rr], wk_servers := servers\<rparr>), s))
            | None \<Rightarrow> (Inl (Inr (wk_chain w)), s)))"

definition referral_turn :: "dns_env \<Rightarrow> (bytes \<Rightarrow> DnsRR list lookup option) \<Rightarrow> bytes \<Rightarrow> u16 \<Rightarrow> DnsRR list \<Rightarrow>
    DnsRR list \<Rightarrow> walk \<Rightarrow> resolver \<Rightarrow> turn" where
  "referral_turn e deeper name ty auths adds w s =
     (case extract_referral e deeper auths adds s of
        (Some new_servers, s) \<Rightarrow>
          if new_servers = [] then (Inl (Inl EmptyReferral), s)
          else if ns_key new_servers \<in> set (wk_visited w) then (Inl (Inl ReferralCycle), s)
          else (Inr (w\<lparr>wk_visited := ns_key new_servers # wk_visited w, wk_servers := new_servers\<rparr>), s)
      | (None, s) \<Rightarrow>
          if authority_nxdomain auths
          then (Inl (Inr []), cache_put_nxdomain e name ty (extract_soa_minimum auths) s)
          else (Inl (Inl NoUsefulResponse), s))"

definition resolve_turn :: "dns_env \<Rightarrow> (bytes \<Rightarrow> DnsRR list lookup option) \<Rightarrow> bytes \<Rightarrow> u16 \<Rightarrow> walk \<Rightarrow> resolver \<Rightarrow> turn" where
  "resolve_turn e deeper name ty w s =
     (case cache_get e (wk_name w) ty s of
        (Some rrs, s) \<Rightarrow> (Inl (Inr (wk_chain w @ rrs)), s)
      | (None, s) \<Rightarrow>
          (case query_best_server e (wk_name w) ty (wk_servers w) s of
             (Inl err, s) \<Rightarrow> (Inl (Inl err), s)
           | (Inr (ans, auths, adds), s) \<Rightarrow>
               if ans \<noteq> [] then answer_turn e ty ans w s
               else referral_turn e deeper name ty auths adds w s))"

fun resolve_loop :: "dns_env \<Rightarrow> (bytes \<Rightarrow> DnsRR list lookup option) \<Rightarrow> bytes \<Rightarrow> u16 \<Rightarrow> nat \<Rightarrow> walk \<Rightarrow>
    DnsRR list lookup" where
  "resolve_loop e deeper name ty 0 w s = (Inl TooManyIterations, s)"
| "resolve_loop e deeper name ty (Suc n) w s =
     (case resolve_turn e deeper name ty w s of
        (Inl result, s) \<Rightarrow> (result, s)
      | (Inr w, s) \<Rightarrow> resolve_loop e deeper name ty n w s)"

function resolve_iterative :: "dns_env \<Rightarrow> nat \<Rightarrow> bytes \<Rightarrow> u16 \<Rightarrow> DnsRR list lookup" where
  "resolve_iterative e glue_depth name ty s =
     (case get_nameservers e [46] s of
        (Inl err, s) \<Rightarrow> (Inl err, s)
      | (Inr servers, s) \<Rightarrow>
          resolve_loop e
            (\<lambda>ns. if glue_depth \<ge> MAX_GLUE_DEPTH then None
                  else Some (\<lambda>s. resolve_iterative e (glue_depth + 1) ns TYPE_A s))
            name ty MAX_ITERATIONS
            \<lparr>wk_servers = servers, wk_visited = [], wk_name = name, wk_cnames = 0, wk_chain = []\<rparr> s)"
  by pat_completeness auto
termination
  by (relation "measure (\<lambda>(e, glue_depth, name, ty, s). MAX_GLUE_DEPTH - glue_depth)") auto

declare resolve_iterative.simps [simp del]

definition resolve :: "dns_env \<Rightarrow> bytes \<Rightarrow> u16 \<Rightarrow> resolver \<Rightarrow> DnsRR list \<times> resolver" where
  "resolve e name ty s =
     (let name = to_ascii_lowercase name in
      case cache_get e name ty s of
        (Some rrs, s) \<Rightarrow> (rrs, s)
      | (None, s) \<Rightarrow>
          (case cache_is_nxdomain e name ty s of
             (True, s) \<Rightarrow> ([], s)
           | (False, s) \<Rightarrow>
               (case resolve_iterative e 0 name ty s of
                  (Inr rrs, s) \<Rightarrow> (rrs, s)
                | (Inl _, s) \<Rightarrow> ([], s))))"

section \<open>Answering a client\<close>

fun questions_loop :: "dns_env \<Rightarrow> DnsQuestion list \<Rightarrow> DnsRR list \<Rightarrow> u8 \<Rightarrow> resolver \<Rightarrow> (DnsRR list \<times> u8) \<times> resolver" where
  "questions_loop e [] ans rc s = ((ans, rc), s)"
| "questions_loop e (q # qs) ans rc s =
     (let (results, s) = resolve e (qname q) (qtype q) s;
          (nx, s) = (if results = [] then cache_is_nxdomain e (qname q) (qtype q) s else (False, s))
      in questions_loop e qs (ans @ results) (if nx then RCODE_NXDOMAIN else rc) s)"

definition build_response :: "DnsMessage \<Rightarrow> DnsRR list \<Rightarrow> u8 \<Rightarrow> DnsMessage" where
  "build_response query ans rc =
     (let rd = dns_flags (msg_header query) AND 0x0100
      in \<lparr>msg_header = \<lparr>dns_id = dns_id (msg_header query), dns_flags = 0x8000 OR 0x0080 OR rd OR ucast rc,
                        qdcount = qdcount (msg_header query), ancount = of_nat (length ans), nscount = 0, arcount = 0\<rparr>,
          questions = questions query, answers = ans, authorities = [], additionals = []\<rparr>)"

text \<open>The datagram sent back to the client, if any.\<close>

definition handle_query :: "dns_env \<Rightarrow> bytes \<Rightarrow> resolver \<Rightarrow> bytes option \<times> resolver" where
  "handle_query e data s =
     (case decode_message data of
        None \<Rightarrow> (None, s)
      | Some query \<Rightarrow>
          let ((ans, rc), s) = questions_loop e (questions query) [] RCODE_NOERROR s
          in (Some (encode_message (build_response query ans rc)), s))"

end
