(* ===== verification/Dns_Resolver_Correct.thy ===== *)
theory Dns_Resolver_Correct
  imports Dns_Resolver
begin

text \<open>
  What the resolver guarantees.  The locale \<open>resolver_safety\<close> states what resolving needs of the cache and of
  the exchange with a server to keep an invariant of the resolver and a property of records; its interpretation
  shows that the resolver returns and caches only what a server sent or what was cached before.
\<close>

section \<open>Keeping an invariant through a resolution\<close>

fun on_result :: "('a \<Rightarrow> bool) \<Rightarrow> (resolver \<Rightarrow> bool) \<Rightarrow> (resolve_error + 'a) \<times> resolver \<Rightarrow> bool" where
  "on_result P I (Inr r, s) = (P r \<and> I s)"
| "on_result P I (Inl err, s) = I s"

lemma on_resultD: "on_result P I x \<Longrightarrow> I (snd x)"
  by (cases x; cases "fst x") auto

locale resolver_safety =
  fixes e :: dns_env and I :: "resolver \<Rightarrow> bool" and G :: "DnsRR \<Rightarrow> bool"
  assumes get_keeps: "I s \<Longrightarrow> I (snd (cache_get e name ty s))"
    and get_good: "I s \<Longrightarrow> fst (cache_get e name ty s) = Some rrs \<Longrightarrow> list_all G rrs"
    and ns_ips_keeps: "I s \<Longrightarrow> I (snd (cache_ns_ips e name s))"
    and put_keeps: "I s \<Longrightarrow> list_all G rrs \<Longrightarrow> I (cache_put_all e rrs s)"
    and put_nxdomain_keeps: "I s \<Longrightarrow> I (cache_put_nxdomain e name ty ttl s)"
    and is_nxdomain_keeps: "I s \<Longrightarrow> I (snd (cache_is_nxdomain e name ty s))"
    and query_keeps: "I s \<Longrightarrow> I (snd (send_query e ip name ty s))"
    and query_good: "fst (send_query e ip name ty s) = Inr m \<Longrightarrow>
      list_all G (answers m) \<and> list_all G (authorities m) \<and> list_all G (additionals m)"
begin

definition deeper_ok :: "(bytes \<Rightarrow> DnsRR list lookup option) \<Rightarrow> bool" where
  "deeper_ok deeper = (\<forall>ns call s. deeper ns = Some call \<longrightarrow> I s \<longrightarrow> I (snd (call s)))"

lemma deeper_okD: "deeper_ok deeper \<Longrightarrow> deeper ns = Some call \<Longrightarrow> I s \<Longrightarrow> I (snd (call s))"
  unfolding deeper_ok_def by blast

lemma nameservers_keeps: "I s \<Longrightarrow> I (snd (get_nameservers e name s))"
proof -
  have "I s \<Longrightarrow> I (snd (nameservers_loop e zones s))" for zones
    by (induction zones arbitrary: s) (auto simp: Let_def case_prod_beta ns_ips_keeps)
  from this [of "map (zone_at (zone_labels name)) [0..<length (zone_labels name)]"] show "I s \<Longrightarrow> ?thesis"
    by (auto simp: get_nameservers_def Let_def split: prod.split option.split)
qed

lemma servers_loop_keeps:
  "I s \<Longrightarrow> on_result (\<lambda>(ans, auths, adds). list_all G ans \<and> list_all G auths \<and> list_all G adds) I
     (servers_loop e name ty last_err servers s)"
proof (induction servers arbitrary: last_err s)
  case (Cons server rest)
  obtain ns_name ip where server: "server = (ns_name, ip)" by (cases server)
  have I1: "I (snd (send_query e ip name ty s))" by (rule query_keeps [OF Cons.prems])
  note good = query_good [of ip name ty s]
  show ?case
    using Cons.IH I1 good
    by (cases "send_query e ip name ty s"; cases "fst (send_query e ip name ty s)")
      (auto simp: server Let_def put_keeps)
qed simp

lemma referral_loop_keeps:
  assumes deeper: "deeper_ok deeper"
  shows "I s \<Longrightarrow> I (snd (referral_loop e deeper glue names s))"
proof (induction names arbitrary: s)
  case (Cons ns rest)
  show ?case
    using Cons.prems
    by (auto simp: case_prod_beta Let_def intro!: Cons.IH get_keeps deeper_okD [OF deeper] split: option.split sum.split)
qed simp

lemma extract_referral_keeps:
  assumes "deeper_ok deeper" "I s"
  shows "I (snd (extract_referral e deeper auths adds s))"
  using referral_loop_keeps [OF assms] assms(2) by (simp add: extract_referral_def case_prod_beta)

text \<open>The two ways a turn can end.\<close>

fun turn_ok :: "((resolve_error + DnsRR list) + walk) \<times> resolver \<Rightarrow> bool" where
  "turn_ok (Inl r, s) = on_result (list_all G) I (r, s)"
| "turn_ok (Inr w, s) = (I s \<and> list_all G (wk_chain w))"

lemma find_cname_good: "list_all G ans \<Longrightarrow> find_cname ans = Some rr \<Longrightarrow> G rr"
  by (auto simp: find_cname_def list_all_iff find_Some_iff)

lemma matching_good: "list_all G ans \<Longrightarrow> list_all G (extract_matching ans ty)"
  by (auto simp: extract_matching_def list_all_iff)

lemma answer_turn_ok:
  assumes "I s" "list_all G (wk_chain w)" "list_all G ans"
  shows "turn_ok (answer_turn e ty ans w s)"
proof -
  have ns: "I s'" if "get_nameservers e target s = (x, s')" for target x s'
    using nameservers_keeps [OF assms(1), of target] that by simp
  show ?thesis
    using assms matching_good [OF assms(3)] find_cname_good [OF assms(3)]
    by (auto simp: answer_turn_def Let_def dest: ns split: option.split prod.split sum.split)
qed

lemma referral_turn_ok:
  assumes "deeper_ok deeper" "I s" "list_all G (wk_chain w)"
  shows "turn_ok (referral_turn e deeper name ty auths adds w s)"
  using extract_referral_keeps [OF assms(1,2), of auths adds] assms(3)
  by (auto simp: referral_turn_def put_nxdomain_keeps split: option.split prod.split)

lemma resolve_turn_ok:
  assumes "deeper_ok deeper" "I s" "list_all G (wk_chain w)"
  shows "turn_ok (resolve_turn e deeper name ty w s)"
proof -
  obtain r s1 where get: "cache_get e (wk_name w) ty s = (r, s1)" by fastforce
  have s1: "I s1" using get_keeps [OF assms(2), of "wk_name w" ty] get by simp
  show ?thesis
  proof (cases r)
    case None
    have q: "on_result (\<lambda>(ans, auths, adds). list_all G ans \<and> list_all G auths \<and> list_all G adds) I
        (query_best_server e (wk_name w) ty (wk_servers w) s1)"
      unfolding query_best_server_def by (rule servers_loop_keeps [OF s1])
    then show ?thesis
      using answer_turn_ok [OF _ assms(3)] referral_turn_ok [OF assms(1) _ assms(3)]
      by (auto simp: resolve_turn_def get None split: prod.split sum.split)
  next
    case (Some rrs)
    have "list_all G rrs" using get_good [OF assms(2), of "wk_name w" ty] get Some by simp
    then show ?thesis using s1 assms(3) by (simp add: resolve_turn_def get Some)
  qed
qed

lemma resolve_loop_keeps:
  assumes deeper: "deeper_ok deeper"
  shows "I s \<Longrightarrow> list_all G (wk_chain w) \<Longrightarrow> on_result (list_all G) I (resolve_loop e deeper name ty n w s)"
proof (induction n arbitrary: w s)
  case (Suc n)
  note turn = resolve_turn_ok [OF deeper Suc.prems, of name ty]
  show ?case
    using turn Suc.IH
    by (cases "resolve_turn e deeper name ty w s"; cases "fst (resolve_turn e deeper name ty w s)") auto
qed simp

lemma resolve_iterative_keeps: "I s \<Longrightarrow> on_result (list_all G) I (resolve_iterative e depth name ty s)"
proof (induction "MAX_GLUE_DEPTH - depth" arbitrary: depth name ty s rule: less_induct)
  case less
  let ?deeper = "\<lambda>ns. if depth \<ge> MAX_GLUE_DEPTH then None
    else Some (\<lambda>s. resolve_iterative e (depth + 1) ns TYPE_A s)"
  have "I (snd (call s))"
    if "?deeper ns = Some call"
      "I s" for ns call s
  proof -
    from that have "MAX_GLUE_DEPTH - (depth + 1) < MAX_GLUE_DEPTH - depth"
        "call = (\<lambda>s. resolve_iterative e (depth + 1) ns TYPE_A s)"
      by (auto split: if_splits)
    then show ?thesis using on_resultD [OF less.hyps [OF _ \<open>I s\<close>]] by simp
  qed
  then have deeper: "deeper_ok ?deeper" unfolding deeper_ok_def by blast
  show ?case
    using nameservers_keeps [OF less.prems, of "[46]"]
    by (subst resolve_iterative.simps)
      (auto intro!: resolve_loop_keeps deeper split: prod.split sum.split)
qed

lemma resolve_keeps:
  assumes "I s"
  shows "list_all G (fst (resolve e name ty s)) \<and> I (snd (resolve e name ty s))"
proof -
  let ?n = "to_ascii_lowercase name"
  obtain r s1 where get: "cache_get e ?n ty s = (r, s1)" by fastforce
  have s1: "I s1" using get_keeps [OF assms, of ?n ty] get by simp
  have r: "list_all G rrs" if "r = Some rrs" for rrs using get_good [OF assms, of ?n ty] get that by simp
  obtain b s2 where nx: "cache_is_nxdomain e ?n ty s1 = (b, s2)" by fastforce
  have s2: "I s2" using is_nxdomain_keeps [OF s1, of ?n ty] nx by simp
  have "on_result (list_all G) I (resolve_iterative e 0 ?n ty s2)" by (rule resolve_iterative_keeps [OF s2])
  then show ?thesis
    using s1 s2 r
    by (cases "resolve_iterative e 0 ?n ty s2"; cases "fst (resolve_iterative e 0 ?n ty s2)")
      (auto simp: resolve_def Let_def get nx split: option.split bool.split)
qed

lemma questions_loop_keeps:
  "I s \<Longrightarrow> list_all G ans \<Longrightarrow>
     list_all G (fst (fst (questions_loop e qs ans rc s))) \<and> I (snd (questions_loop e qs ans rc s))"
proof (induction qs arbitrary: ans rc s)
  case (Cons q qs)
  note res = resolve_keeps [OF Cons.prems(1), of "qname q" "qtype q"]
  then show ?case
    using Cons.IH Cons.prems(2) is_nxdomain_keeps by (auto simp: Let_def case_prod_beta)
qed simp

end

section \<open>Nothing is made up\<close>

text \<open>The records of the messages that servers send in the environment \<open>e\<close>.\<close>

definition received :: "dns_env \<Rightarrow> DnsRR set" where
  "received e = {rr. \<exists>k server wire buf m. env_net e k server wire = Inr buf \<and>
     decode_message (take 4096 buf) = Some m \<and> rr \<in> set (answers m @ authorities m @ additionals m)}"

text \<open>
  The facts behind a set of records: the name in lower case, the type, the class and the data.  (The cache
  updates the time to live of an entry in place and keeps its spelling of the name.)
\<close>

definition fact_of :: "DnsRR \<Rightarrow> cache_key \<times> RData" where
  "fact_of rr = (rr_key rr, rr_data rr)"

definition cached :: "DnsCache \<Rightarrow> DnsRR set" where
  "cached c = {rr. \<exists>key. \<exists>en \<in> set (entries_at c key). rr = ce_rr en}"

definition cache_within :: "(cache_key \<times> RData) set \<Rightarrow> DnsCache \<Rightarrow> bool" where
  "cache_within F c = (\<forall>key. \<forall>en \<in> set (entries_at c key). rr_key (ce_rr en) = key \<and> fact_of (ce_rr en) \<in> F)"

lemma cache_withinI:
  "(\<And>key en. en \<in> set (entries_at c key) \<Longrightarrow> rr_key (ce_rr en) = key \<and> fact_of (ce_rr en) \<in> F) \<Longrightarrow> cache_within F c"
  by (auto simp: cache_within_def)

lemma cache_withinD:
  "cache_within F c \<Longrightarrow> en \<in> set (entries_at c key) \<Longrightarrow> rr_key (ce_rr en) = key \<and> fact_of (ce_rr en) \<in> F"
  unfolding cache_within_def by blast

lemma rr_key_ttl [simp]: "rr_key (rr\<lparr>rr_ttl := t\<rparr>) = rr_key rr"
  by (simp add: rr_key_def)

lemma fact_of_ttl [simp]: "fact_of (rr\<lparr>rr_ttl := t\<rparr>) = fact_of rr"
  by (simp add: fact_of_def)

lemma put_entry_facts:
  "en \<in> set (put_entry x rr es) \<Longrightarrow>
     fact_of (ce_rr en) = fact_of rr \<or> (\<exists>old \<in> set es. fact_of (ce_rr en) = fact_of (ce_rr old))"
  by (induction es) (auto split: if_splits)

lemma cache_within_put:
  assumes "cache_within F c" "fact_of rr \<in> F"
  shows "cache_within F (dns_put now rr c)"
proof (rule cache_withinI)
  fix key en assume en: "en \<in> set (entries_at (dns_put now rr c) key)"
  show "rr_key (ce_rr en) = key \<and> fact_of (ce_rr en) \<in> F"
  proof (cases "key = rr_key rr")
    case True
    with en have "fact_of (ce_rr en) = fact_of rr \<or> (\<exists>old \<in> set (entries_at c key). fact_of (ce_rr en) = fact_of (ce_rr old))"
      by (simp add: entries_dns_put put_entry_facts)
    moreover have "rr_key (ce_rr en) = key" if "fact_of (ce_rr en) = fact_of (ce_rr old)" "rr_key (ce_rr old) = key" for old
      using that by (simp add: fact_of_def)
    ultimately show ?thesis using True assms(2) cache_withinD [OF assms(1)] by (metis fact_of_def prod.inject)
  next
    case False
    with en show ?thesis using cache_withinD [OF assms(1)] by (simp add: entries_dns_put)
  qed
qed

definition oth_within :: "(cache_key \<times> RData) set \<Rightarrow> interference \<Rightarrow> bool" where
  "oth_within F oth = (\<forall>i c. cache_within F c \<longrightarrow> cache_within F (oth i c))"

lemma oth_withinD: "oth_within F oth \<Longrightarrow> cache_within F c \<Longrightarrow> cache_within F (oth i c)"
  by (simp add: oth_within_def)

lemma oth_within_quiet [simp]: "oth_within F quiet"
  by (simp add: oth_within_def)

lemma cache_within_put_all:
  "oth_within F oth \<Longrightarrow> cache_within F c \<Longrightarrow> list_all (\<lambda>rr. fact_of rr \<in> F) rrs \<Longrightarrow> cache_within F (put_all clk oth i rrs c)"
  by (induction clk oth i rrs c rule: put_all.induct) (auto intro: cache_within_put oth_withinD)

lemma cache_within_get: "cache_within F c \<Longrightarrow> cache_within F (snd (dns_get now name ty cl c))"
  by (rule cache_withinI) (auto simp: entries_dns_get dest: cache_withinD split: if_splits)

lemma dns_get_facts:
  "cache_within F c \<Longrightarrow> fst (dns_get now name ty cl c) = Some rrs \<Longrightarrow> list_all (\<lambda>rr. fact_of rr \<in> F) rrs"
  by (auto simp: fst_dns_get Let_def list_all_iff dest: cache_withinD split: if_splits)

lemma cache_within_ns_ips:
  assumes "oth_within F oth"
  shows "cache_within F c \<Longrightarrow> cache_within F (snd (get_ns_ips clk oth zone c))"
proof -
  have "cache_within F c \<Longrightarrow> cache_within F (snd (ns_ips_loop clk oth i rs c))" for i rs c
    by (induction rs arbitrary: i c)
      (auto simp: Let_def case_prod_beta cache_within_get oth_withinD [OF assms] split: RData.split)
  then show "cache_within F c \<Longrightarrow> ?thesis"
    by (simp add: get_ns_ips_def Let_def case_prod_beta cache_within_get oth_withinD [OF assms])
qed

text \<open>The interpretation on the model: the cache holds only facts of \<open>K\<close> and of what servers sent.\<close>

lemma send_query_cache [simp]: "rs_cache (snd (send_query e ip name ty s)) = rs_cache s"
  by (auto simp: send_query_def Let_def split: sum.split sock_error.split option.split)

lemma send_query_reply:
  "fst (send_query e ip name ty s) = Inr m \<longleftrightarrow>
     (\<exists>buf. env_net e (rs_ops s) ip (encode_message (query_message (env_id e (rs_ops s)) name ty)) = Inr buf \<and>
       decode_message (take 4096 buf) = Some m)"
  by (auto simp: send_query_def Let_def split: sum.split sock_error.split option.split)

lemma send_query_received:
  assumes "fst (send_query e ip name ty s) = Inr m" "rr \<in> set (answers m @ authorities m @ additionals m)"
  shows "rr \<in> received e"
  unfolding received_def mem_Collect_eq using assms [unfolded send_query_reply] by blast

lemma after_op_simps [simp]:
  "rs_cache (after_op e c s) = env_others e (rs_ops s) 0 c" "rs_ops (after_op e c s) = rs_ops s + 1"
  "rs_sent (after_op e c s) = rs_sent s"
  by (simp_all add: after_op_def)

text \<open>No other thread touches the cache.\<close>

definition alone :: "dns_env \<Rightarrow> bool" where
  "alone e = (\<forall>k i. env_others e k i = (\<lambda>c. c))"

lemma alone_others [simp]: "alone e \<Longrightarrow> env_others e k i = (\<lambda>c. c)"
  by (simp add: alone_def)

lemma alone_within [simp]: "alone e \<Longrightarrow> env_within e s = quiet"
  by (simp add: fun_eq_iff env_within_def)

lemma alone_net [simp]: "alone (e\<lparr>env_net := f\<rparr>) = alone e"
  unfolding alone_def by (simp del: alone_others)

lemma entries_put_nxdomain [simp]: "entries_at (put_nxdomain now name ty cl ttl c) = entries_at c"
  by (simp add: fun_eq_iff entries_at_def put_nxdomain_def Let_def)

lemma cache_within_put_nxdomain: "cache_within F c \<Longrightarrow> cache_within F (put_nxdomain now name ty cl ttl c)"
  by (simp add: cache_within_def)

lemmas cache_op_defs = cache_get_def cache_ns_ips_def cache_put_all_def cache_put_nxdomain_def cache_is_nxdomain_def

definition others_within :: "(cache_key \<times> RData) set \<Rightarrow> dns_env \<Rightarrow> bool" where
  "others_within F e = (\<forall>k. oth_within F (env_others e k))"

lemma others_withinD: "others_within F e \<Longrightarrow> cache_within F c \<Longrightarrow> cache_within F (env_others e k i c)"
  by (simp add: others_within_def oth_withinD)

lemma env_within_within: "others_within F e \<Longrightarrow> oth_within F (env_within e s)"
  by (simp add: others_within_def oth_within_def env_within_def)

interpretation provenance: resolver_safety e
    "\<lambda>s. cache_within (K \<union> fact_of ` received e) (rs_cache s) \<and> others_within (K \<union> fact_of ` received e) e"
    "\<lambda>rr. fact_of rr \<in> K \<union> fact_of ` received e" for e K
proof (unfold_locales, goal_cases)
  case 1 then show ?case by (simp add: cache_op_defs case_prod_beta cache_within_get others_withinD)
next
  case 2 then show ?case by (auto simp: cache_op_defs case_prod_beta dest: dns_get_facts)
next
  case 3 then show ?case by (simp add: cache_op_defs case_prod_beta cache_within_ns_ips others_withinD env_within_within)
next
  case 4 then show ?case by (simp add: cache_op_defs cache_within_put_all others_withinD env_within_within)
next
  case 5 then show ?case by (simp add: cache_op_defs others_withinD cache_within_put_nxdomain)
next
  case 6 then show ?case by (simp add: cache_op_defs others_withinD)
next
  case 7 then show ?case by simp
next
  case (8 ip name ty s m)
  from send_query_received [OF this] show ?case by (auto simp: list_all_iff)
qed

lemma cache_within_cached: "cache_within K c \<Longrightarrow> fact_of ` cached c \<subseteq> K"
  by (auto simp: cached_def dest: cache_withinD)

section \<open>Properties\<close>

text \<open>
  The resolver makes nothing up: every record that \<^verbatim>\<open>resolve\<close> returns, and every record in the
  cache afterwards, states a fact (name in lower case, type, class and data) that was in the cache before or that
  a server sent in a message that decodes, while other threads change the cache at will, as long as they put nothing else into it.
\<close>

theorem resolve_provenance:
  assumes "cache_within K (rs_cache s)" "others_within (K \<union> fact_of ` received e) e"
  shows "fact_of ` set (fst (resolve e name ty s)) \<subseteq> K \<union> fact_of ` received e \<and>
    fact_of ` cached (rs_cache (snd (resolve e name ty s))) \<subseteq> K \<union> fact_of ` received e"
proof -
  have "cache_within (K \<union> fact_of ` received e) (rs_cache s) \<and> others_within (K \<union> fact_of ` received e) e"
    using assms unfolding cache_within_def by blast
  from provenance.resolve_keeps [OF this, of name ty] show ?thesis
    using cache_within_cached by (auto simp: list_all_iff image_subset_iff)
qed

definition start_resolver :: resolver where
  "start_resolver = \<lparr>rs_cache = dns_cache_new, rs_ops = 0, rs_sent = []\<rparr>"

definition silent_env :: dns_env where
  "silent_env = \<lparr>env_clock = \<lambda>_ _. 0, env_id = \<lambda>_. 7, env_net = \<lambda>_ _ _. Inl RecvError,
     env_others = \<lambda>_. quiet\<rparr>"

lemma alone_silent [simp]: "alone silent_env"
  by (simp add: alone_def silent_env_def)

definition root_ns :: DnsRR where
  "root_ns = \<lparr>rr_name = [46], rr_type = TYPE_NS, rr_class = CLASS_IN, rr_ttl = 300, rr_data = NS [97, 46]\<rparr>"

lemma entries_new [simp]: "entries_at dns_cache_new key = []"
  by (simp add: entries_at_def dns_cache_new_def hm.get_empty)

theorem resolve_provenance_witness:
  "fact_of ` set (fst (resolve silent_env [46] TYPE_NS
     (start_resolver\<lparr>rs_cache := dns_put 0 root_ns dns_cache_new\<rparr>))) \<subseteq> {fact_of root_ns}"
proof -
  have "cache_within {fact_of root_ns} (dns_put 0 root_ns dns_cache_new)"
    by (rule cache_within_put) (auto simp: cache_within_def)
  moreover have "received silent_env = {}" by (simp add: received_def silent_env_def)
  moreover have "others_within F silent_env" for F by (simp add: others_within_def silent_env_def)
  ultimately show ?thesis
    using resolve_provenance [of "{fact_of root_ns}" "start_resolver\<lparr>rs_cache := dns_put 0 root_ns dns_cache_new\<rparr>"
      silent_env "[46]" TYPE_NS] by simp
qed

lemma lowercase_idem [simp]: "to_ascii_lowercase (to_ascii_lowercase xs) = to_ascii_lowercase xs"
proof -
  have "in_range 65 90 (b + 32) = False" if "in_range 65 90 b" for b :: u8
    using that by (simp add: in_range_def word_le_nat_alt unat_word_ariths)
  then show ?thesis by (auto simp: to_ascii_lowercase_def)
qed

lemma fst_cache_get:
  "fst (cache_get e name ty s) = fst (dns_get (env_clock e (rs_ops s) 0) name ty CLASS_IN (rs_cache s))"
  by (simp add: cache_get_def case_prod_beta)

lemma snd_cache_get:
  "snd (cache_get e name ty s) = after_op e (snd (dns_get (env_clock e (rs_ops s) 0) name ty CLASS_IN (rs_cache s))) s"
  by (simp add: cache_get_def case_prod_beta)

lemma dns_get_lowercase [simp]: "dns_get now (to_ascii_lowercase name) ty cl c = dns_get now name ty cl c"
  by (simp add: dns_get_def)

text \<open>
  What is cached is answered from the cache.  When a datum is known for the name, in any spelling, and
  has not expired, \<^verbatim>\<open>resolve\<close> returns exactly the data that are known and have not expired, and sends
  nothing.
\<close>

theorem resolve_from_cache:
  assumes "dns_cache_inv (rs_cache s)" "now = env_clock e (rs_ops s) 0"
    and "known_until (rs_cache s) (to_ascii_lowercase name, ty, CLASS_IN) d = Some x" "now < x"
  shows "rs_sent (snd (resolve e name ty s)) = rs_sent s \<and>
    (\<forall>d. d \<in> rr_data ` set (fst (resolve e name ty s)) \<longleftrightarrow>
      (\<exists>x. known_until (rs_cache s) (to_ascii_lowercase name, ty, CLASS_IN) d = Some x \<and> now < x))"
proof -
  let ?es = "entries_at (rs_cache s) (to_ascii_lowercase name, ty, CLASS_IN)"
  note live = map_of_live [OF dns_cache_invD [OF assms(1)], of _ now "(to_ascii_lowercase name, ty, CLASS_IN)"]
  have "d \<in> rr_data ` ce_rr ` set (filter (\<lambda>e. ce_expires e > now) ?es)"
    using live [of d] assms(3,4) by (simp add: known_until_def)
  then have "filter (\<lambda>e. ce_expires e > now) ?es \<noteq> []" by (auto simp: filter_empty_conv)
  then have get: "cache_get e (to_ascii_lowercase name) ty s =
      (Some (map ce_rr (filter (\<lambda>e. ce_expires e > now) ?es)), snd (cache_get e (to_ascii_lowercase name) ty s))"
    using assms(2) by (simp add: prod_eq_iff fst_cache_get fst_dns_get Let_def)
  show ?thesis
    unfolding resolve_def Let_def
    by (subst (1 2) get) (use live in \<open>simp add: snd_cache_get known_until_def\<close>)
qed

theorem resolve_from_cache_witness:
  "rs_sent (snd (resolve silent_env [46] TYPE_NS
     (start_resolver\<lparr>rs_cache := dns_put 0 root_ns dns_cache_new\<rparr>))) = []"
proof -
  have known: "known_until (dns_put 0 root_ns dns_cache_new) (to_ascii_lowercase [46], TYPE_NS, CLASS_IN) (NS [97, 46]) =
      Some (from_secs 300)"
    by (simp add: known_until_def entries_dns_put rr_key_def root_ns_def to_ascii_lowercase_def in_range_def)
  show ?thesis
    using resolve_from_cache [of "start_resolver\<lparr>rs_cache := dns_put 0 root_ns dns_cache_new\<rparr>" 0 silent_env "[46]"
        TYPE_NS "NS [97, 46]"] known dns_cache_inv_put [OF dns_cache_inv_new, of 0 root_ns]
    by (simp add: start_resolver_def silent_env_def from_secs_def)
qed

lemma negatives_dns_get [simp]: "negatives (snd (dns_get now name ty cl c)) = negatives c"
  by (simp add: dns_get_def Let_def split: option.split)

lemma is_nxdomain_lowercase [simp]: "is_nxdomain now (to_ascii_lowercase name) ty cl c = is_nxdomain now name ty cl c"
  by (simp add: is_nxdomain_def)

lemma is_nxdomain_dns_get [simp]: "is_nxdomain now name ty cl (snd (dns_get now' name' ty' cl' c)) = is_nxdomain now name ty cl c"
  by (simp add: is_nxdomain_def)

lemma is_nxdomain_put:
  "now' < now + from_secs (unat ttl) \<Longrightarrow> is_nxdomain now' name ty cl (put_nxdomain now name ty cl ttl c)"
  by (simp add: is_nxdomain_def put_nxdomain_def Let_def hm_simps)

text \<open>
  A name put into the negative cache is answered by no records and without a query until its time to live
  has passed, when no live record of it is cached and no other thread acts on the cache.
\<close>

theorem resolve_negative:
  assumes "alone e" "env_clock e (rs_ops s + 2) 0 < env_clock e (rs_ops s) 0 + from_secs (unat ttl)"
    and "fst (dns_get (env_clock e (rs_ops s + 1) 0) name ty CLASS_IN (rs_cache s)) = None"
  shows "fst (resolve e name ty (cache_put_nxdomain e name ty ttl s)) = [] \<and>
    rs_sent (snd (resolve e name ty (cache_put_nxdomain e name ty ttl s))) = rs_sent s"
proof -
  let ?s1 = "cache_put_nxdomain e name ty ttl s" and ?n = "to_ascii_lowercase name"
  have s1: "rs_cache ?s1 = put_nxdomain (env_clock e (rs_ops s) 0) name ty CLASS_IN ttl (rs_cache s)"
      "rs_ops ?s1 = rs_ops s + 1" "rs_sent ?s1 = rs_sent s"
    using assms(1) by (simp_all add: cache_put_nxdomain_def)
  have get: "cache_get e ?n ty ?s1 = (None, snd (cache_get e ?n ty ?s1))"
    using assms(3) by (simp add: prod_eq_iff fst_cache_get s1 fst_dns_get)
  have nx: "is_nxdomain (env_clock e (rs_ops s + 2) 0) ?n ty CLASS_IN (rs_cache ?s1)"
    using is_nxdomain_put [OF assms(2)] by (simp add: s1)
  show ?thesis
    unfolding resolve_def Let_def
    by (subst (1 2) get) (use nx assms(1) in \<open>simp add: snd_cache_get cache_is_nxdomain_def s1\<close>)
qed

theorem resolve_negative_witness:
  "fst (resolve silent_env [120, 46] TYPE_A (cache_put_nxdomain silent_env [120, 46] TYPE_A 60 start_resolver)) = []"
  using resolve_negative [OF alone_silent, of start_resolver 60 "[120, 46]" TYPE_A]
  by (simp add: silent_env_def start_resolver_def from_secs_def fst_dns_get)

lemma join_trailing: "xs \<noteq> [] \<Longrightarrow> join sep (xs @ [[]]) = join sep xs @ sep"
  by (induction sep xs rule: join.induct) auto

lemma zone_at_dots:
  assumes "i < length labels"
  shows "\<exists>p. zone_at (labels @ [[]]) i = p @ [46, 46]"
  using assms by (simp add: zone_at_def join_trailing)

lemma lowercase_append: "to_ascii_lowercase (p @ q) = to_ascii_lowercase p @ to_ascii_lowercase q"
  by (simp add: to_ascii_lowercase_def)

lemma cache_ns_ips_missing:
  assumes "alone e" "\<And>p ty cl. hm_get (records (rs_cache s)) (p @ [46, 46], ty, cl) = None"
  shows "cache_ns_ips e (p @ [46, 46]) s = ([], s\<lparr>rs_ops := rs_ops s + 1\<rparr>)"
proof -
  have "to_ascii_lowercase (p @ [46, 46]) = to_ascii_lowercase p @ [46, 46]"
    by (simp add: lowercase_append) (simp add: to_ascii_lowercase_def in_range_def)
  then have "dns_get now (p @ [46, 46]) TYPE_NS CLASS_IN (rs_cache s) = (None, rs_cache s)" for now
    using assms(2) by (simp add: dns_get_def)
  then show ?thesis using assms(1) by (simp add: cache_ns_ips_def get_ns_ips_def after_op_def)
qed

lemma nameservers_loop_skip:
  assumes "alone e" "\<And>p ty cl. hm_get (records (rs_cache s)) (p @ [46, 46], ty, cl) = None"
    and "\<And>z. z \<in> set zones \<Longrightarrow> \<exists>p. z = p @ [46, 46]"
  shows "nameservers_loop e (zones @ rest) s = nameservers_loop e rest (s\<lparr>rs_ops := rs_ops s + length zones\<rparr>)"
  using assms
proof (induction zones arbitrary: s)
  case (Cons z zones)
  obtain p where z: "z = p @ [46, 46]" using Cons.prems(3) [of z] by auto
  show ?case
    using Cons.IH [of "s\<lparr>rs_ops := rs_ops s + 1\<rparr>"] Cons.prems by (simp add: z cache_ns_ips_missing)
qed simp

text \<open>
  (C40) Only the name servers of the root are ever taken from the cache.  The zones that \<^verbatim>\<open>get_nameservers\<close>
  looks up for a name end in two full stops, apart from the root; the names the resolver stores have one.  When no
  key of the cache ends in two full stops and no other thread acts on the cache, the servers for a name are those of
  the root, whatever else is cached.
\<close>

theorem nameservers_root_only:
  assumes "alone e" "\<And>p ty cl. hm_get (records (rs_cache s)) (p @ [46, 46], ty, cl) = None"
  shows "fst (get_nameservers e name s) =
    (case fst (get_ns_ips (env_clock e (rs_ops s + length (split_on 46 (trim_end 46 name)))) quiet [46] (rs_cache s)) of
       [] \<Rightarrow> Inl (NoNameservers name)
     | ns_ips \<Rightarrow> Inr ns_ips)"
proof -
  let ?l = "split_on 46 (trim_end 46 name)"
  have "map (zone_at (zone_labels name)) [0..<length (zone_labels name)] =
      map (zone_at (?l @ [[]])) [0..<length ?l] @ [[46]]"
    by (simp add: zone_labels_def zone_at_def)
  moreover have "\<exists>p. z = p @ [46, 46]" if "z \<in> set (map (zone_at (?l @ [[]])) [0..<length ?l])" for z
    using that zone_at_dots by auto
  ultimately have "nameservers_loop e (map (zone_at (zone_labels name)) [0..<length (zone_labels name)]) s =
      nameservers_loop e [[46]] (s\<lparr>rs_ops := rs_ops s + length ?l\<rparr>)"
    using nameservers_loop_skip [OF assms, of "map (zone_at (?l @ [[]])) [0..<length ?l]"] by simp
  then show ?thesis
    by (simp add: get_nameservers_def Let_def cache_ns_ips_def case_prod_beta alone_within [OF assms(1)]
        split: list.split prod.split)
qed

definition ns_rr :: "bytes \<Rightarrow> bytes \<Rightarrow> DnsRR" where
  "ns_rr zone ns = \<lparr>rr_name = zone, rr_type = TYPE_NS, rr_class = CLASS_IN, rr_ttl = 300, rr_data = NS ns\<rparr>"

definition a_rr :: "bytes \<Rightarrow> ip4 \<Rightarrow> DnsRR" where
  "a_rr name ip = \<lparr>rr_name = name, rr_type = TYPE_A, rr_class = CLASS_IN, rr_ttl = 300, rr_data = A ip\<rparr>"

text \<open>A cache that knows the root's server \<^verbatim>\<open>a.\<close> and the server \<^verbatim>\<open>b.\<close> of the zone \<^verbatim>\<open>c.\<close>\<close>

definition two_zones :: resolver where
  "two_zones = start_resolver\<lparr>rs_cache := put_all (\<lambda>_. 0) quiet 0
     [ns_rr [46] [97, 46], a_rr [97, 46] (1, 1, 1, 1), ns_rr [99, 46] [98, 46], a_rr [98, 46] (2, 2, 2, 2)] dns_cache_new\<rparr>"

theorem nameservers_root_only_witness:
  "fst (get_nameservers silent_env [99, 46] two_zones) = Inr [([97, 46], (1, 1, 1, 1))]"
proof -
  have "hm_get (records (rs_cache two_zones)) (p @ [46, 46], ty, cl) = None" for p ty cl
    by (auto simp: two_zones_def start_resolver_def dns_put_def Let_def hm_simps ns_rr_def a_rr_def dns_cache_new_def
        hm.get_empty to_ascii_lowercase_def in_range_def append_eq_Cons_conv Cons_eq_append_conv)
  moreover have "fst (get_ns_ips (env_clock silent_env k) quiet [46] (rs_cache two_zones)) = [([97, 46], (1, 1, 1, 1))]" for k
    by (simp add: get_ns_ips_def two_zones_def start_resolver_def silent_env_def dns_put_def dns_get_def Let_def
        hm_new_def hm_get_def hm_insert_def ns_rr_def a_rr_def dns_cache_new_def to_ascii_lowercase_def in_range_def
        type_defs CLASS_IN_def from_secs_def)
  ultimately show ?thesis
    using nameservers_root_only [OF alone_silent, of two_zones "[99, 46]"] by (simp only: list.case)
qed

lemma known_dns_put:
  "known_until (dns_put now rr c) key d =
     (if key = rr_key rr \<and> d = rr_data rr then Some (now + from_secs (unat (rr_ttl rr))) else known_until c key d)"
  by (simp add: known_until_def entries_dns_put put_entry_map)

lemma known_put_all:
  "rr \<in> set rrs \<or> known_until c (rr_key rr) (rr_data rr) \<noteq> None \<Longrightarrow>
     known_until (put_all clk quiet i rrs c) (rr_key rr) (rr_data rr) \<noteq> None"
proof (induction rrs arbitrary: i c)
  case (Cons r rrs)
  have "rr \<in> set rrs \<or> known_until (dns_put (clk i) r c) (rr_key rr) (rr_data rr) \<noteq> None"
    using Cons.prems by (auto simp: known_dns_put)
  from Cons.IH [OF this] show ?case by simp
qed simp

lemma servers_loop_answer:
  assumes "send_query e ip name ty s = (Inr m, s')"
  shows "query_best_server e name ty ((ns, ip) # rest) s =
    (Inr (if rcode (msg_header m) = RCODE_NXDOMAIN then [] else answers m, authorities m, additionals m),
     cache_put_all e (additionals m) (cache_put_all e (authorities m) (cache_put_all e (answers m) s')))"
  using assms by (simp add: query_best_server_def Let_def)

text \<open>
  Whatever arrives on the socket of a query is taken as the answer.  Any datagram that decodes, whatever its
  identifier, its question and the names of its records, ends the search for a server, and each of its records is
  in the cache afterwards, when no other thread acts on it.
\<close>

theorem reply_accepted_unchecked:
  assumes "alone e" "env_net e (rs_ops s) ip (encode_message (query_message (env_id e (rs_ops s)) name ty)) = Inr buf"
    and "decode_message (take 4096 buf) = Some m"
    and "rr \<in> set (answers m @ authorities m @ additionals m)"
  shows "\<exists>sections s'. query_best_server e name ty ((ns, ip) # rest) s = (Inr sections, s') \<and>
    known_until (rs_cache s') (rr_key rr) (rr_data rr) \<noteq> None"
proof -
  obtain s' where q: "send_query e ip name ty s = (Inr m, s')"
    using assms(2,3) send_query_reply [of e ip name ty s m] by (metis prod.collapse)
  have "rr \<in> set (answers m) \<or> rr \<in> set (authorities m) \<or> rr \<in> set (additionals m)" using assms(4) by simp
  then have "known_until (rs_cache (cache_put_all e (additionals m) (cache_put_all e (authorities m)
      (cache_put_all e (answers m) s')))) (rr_key rr) (rr_data rr) \<noteq> None"
    unfolding cache_put_all_def after_op_simps alone_others [OF assms(1)] alone_within [OF assms(1)] by (metis known_put_all)
  then show ?thesis unfolding servers_loop_answer [OF q] by blast
qed

text \<open>An answer for another question with another identifier.\<close>

definition stray_message :: DnsMessage where
  "stray_message =
     \<lparr>msg_header = \<lparr>dns_id = 1, dns_flags = 0, qdcount = 0, ancount = 0, nscount = 0, arcount = 1\<rparr>,
      questions = [], answers = [], authorities = [], additionals = [a_rr [120, 46] (6, 6, 6, 6)]\<rparr>"

lemma wf_stray: "wf_message stray_message"
  by (simp add: wf_message_def stray_message_def wf_rr_def a_rr_def dns_name_def wf_label_def to_ascii_lowercase_def
      in_range_def encode_rdata_def CLASS_IN_def)

lemma short_stray: "length (encode_message stray_message) \<le> 4096"
  by (simp add: encode_message_def stray_message_def encode_rr_def a_rr_def encode_rdata_def encode_name_def Let_def
      trim_end_def u16_to_be_def u32_to_be_def)

theorem reply_accepted_unchecked_witness:
  "dns_id (msg_header stray_message) \<noteq> env_id silent_env 0 \<and>
   (\<exists>sections s'. query_best_server (silent_env\<lparr>env_net := \<lambda>_ _ _. Inr (encode_message stray_message)\<rparr>) [121, 46] TYPE_A
      [([97, 46], (1, 1, 1, 1))] start_resolver = (Inr sections, s') \<and>
    known_until (rs_cache s') ([120, 46], TYPE_A, 1) (A (6, 6, 6, 6)) \<noteq> None)"
proof -
  have "decode_message (take 4096 (encode_message stray_message)) = Some stray_message"
    using decode_encode_message [OF wf_stray] short_stray by simp
  moreover have "rr_key (a_rr [120, 46] (6, 6, 6, 6)) = ([120, 46], TYPE_A, 1)"
    "rr_data (a_rr [120, 46] (6, 6, 6, 6)) = A (6, 6, 6, 6)"
    by (simp_all add: rr_key_def a_rr_def CLASS_IN_def to_ascii_lowercase_def in_range_def)
  ultimately show ?thesis
    using reply_accepted_unchecked [of "silent_env\<lparr>env_net := \<lambda>_ _ _. Inr (encode_message stray_message)\<rparr>" start_resolver
        "(1, 1, 1, 1)" "[121, 46]" TYPE_A "encode_message stray_message" stray_message "a_rr [120, 46] (6, 6, 6, 6)" "[97, 46]" "[]"]
    by (simp add: stray_message_def silent_env_def alone_def)
qed

text \<open>
  An existing name without records of the asked type is recorded as missing.  A reply without error and
  without answers whose authority section holds an SOA record and no NS record (the name exists, the type does not)
  ends the resolution with no records, also those of a chain of aliases followed so far, and the name that was
  asked for is in the negative cache until the SOA minimum has passed; \<^verbatim>\<open>handle_query\<close> turns that into
  \<^verbatim>\<open>RCODE_NXDOMAIN\<close>.  (No other thread acts on the cache meanwhile.)
\<close>

theorem nodata_recorded_as_nxdomain:
  assumes "alone e" "cache_get e (wk_name w) ty s = (None, s1)" "wk_servers w = (ns, ip) # rest"
    and "send_query e ip (wk_name w) ty s1 = (Inr m, s2)"
    and "rcode (msg_header m) = RCODE_NOERROR" "answers m = []"
    and "ns_names (authorities m) = []" "authority_nxdomain (authorities m)"
  shows "\<exists>s'. resolve_turn e deeper name ty w s = (Inl (Inr []), s') \<and>
    (\<forall>now. now < env_clock e (rs_ops s2 + 3) 0 + from_secs (unat (extract_soa_minimum (authorities m))) \<longrightarrow>
       is_nxdomain now name ty CLASS_IN (rs_cache s'))"
  using assms(1,2,3,5-8) servers_loop_answer [OF assms(4), of ns rest]
  by (simp add: resolve_turn_def referral_turn_def extract_referral_def cache_put_nxdomain_def cache_put_all_def
      is_nxdomain_put numeral_3_eq_3)

definition soa_rr :: DnsRR where
  "soa_rr = \<lparr>rr_name = [46], rr_type = TYPE_SOA, rr_class = CLASS_IN, rr_ttl = 9, rr_data = SOA [97, 46] [98, 46] 1 2 3 4 60\<rparr>"

definition nodata_message :: DnsMessage where
  "nodata_message =
     \<lparr>msg_header = \<lparr>dns_id = 7, dns_flags = 0x8000, qdcount = 0, ancount = 0, nscount = 1, arcount = 0\<rparr>,
      questions = [], answers = [], authorities = [soa_rr], additionals = []\<rparr>"

definition nodata_env :: dns_env where
  "nodata_env = silent_env\<lparr>env_net := \<lambda>_ _ _. Inr (encode_message nodata_message)\<rparr>"

definition start_walk :: "name_server list \<Rightarrow> bytes \<Rightarrow> walk" where
  "start_walk servers name = \<lparr>wk_servers = servers, wk_visited = [], wk_name = name, wk_cnames = 0, wk_chain = []\<rparr>"

lemma decode_nodata:
  "decode_message (take 4096 (encode_message nodata_message)) = Some nodata_message"
  "decode_message (encode_message nodata_message) = Some nodata_message"
proof -
  have "wf_message nodata_message"
    by (simp add: wf_message_def nodata_message_def wf_rr_def soa_rr_def dns_name_def wf_label_def to_ascii_lowercase_def
        in_range_def encode_rdata_def CLASS_IN_def TYPE_SOA_def encode_name_def trim_end_def u32_to_be_def type_defs)
  moreover have "length (encode_message nodata_message) \<le> 4096"
    by (simp add: encode_message_def nodata_message_def encode_rr_def soa_rr_def encode_rdata_def encode_name_def Let_def
      trim_end_def u16_to_be_def u32_to_be_def)
  ultimately show "decode_message (take 4096 (encode_message nodata_message)) = Some nodata_message"
      "decode_message (encode_message nodata_message) = Some nodata_message"
    using decode_encode_message by simp_all
qed

theorem nodata_recorded_as_nxdomain_witness:
  "\<exists>s'. resolve_turn nodata_env (\<lambda>_. None) [120, 46] TYPE_A (start_walk [([97, 46], (1, 1, 1, 1))] [120, 46]) start_resolver =
     (Inl (Inr []), s') \<and> is_nxdomain 5 [120, 46] TYPE_A CLASS_IN (rs_cache s')"
proof -
  let ?w = "start_walk [([97, 46], (1, 1, 1, 1))] [120, 46]"
  let ?s1 = "after_op nodata_env dns_cache_new start_resolver"
  have get: "cache_get nodata_env (wk_name ?w) TYPE_A start_resolver = (None, ?s1)"
    by (simp add: cache_get_def dns_get_def start_resolver_def dns_cache_new_def hm.get_empty)
  obtain s2 where q: "send_query nodata_env (1, 1, 1, 1) (wk_name ?w) TYPE_A ?s1 = (Inr nodata_message, s2)"
    using decode_nodata send_query_reply [of nodata_env "(1, 1, 1, 1)" "wk_name ?w" TYPE_A ?s1 nodata_message]
    by (metis (no_types, lifting) dns_env.select_convs(3) dns_env.update_convs(3) nodata_env_def prod.collapse silent_env_def)
  have others: "alone nodata_env" by (simp add: nodata_env_def)
  have "env_clock nodata_env k i = 0" for k i by (simp add: nodata_env_def silent_env_def)
  then have "\<exists>s'. resolve_turn nodata_env (\<lambda>_. None) [120, 46] TYPE_A ?w start_resolver = (Inl (Inr []), s') \<and>
      (\<forall>now. now < from_secs 60 \<longrightarrow> is_nxdomain now [120, 46] TYPE_A CLASS_IN (rs_cache s'))"
    using nodata_recorded_as_nxdomain [OF others get _ q, of "[97, 46]" "[]" "\<lambda>_. None" "[120, 46]"]
    by (simp add: start_walk_def nodata_message_def soa_rr_def rcode_def RCODE_NOERROR_def ns_names_def
        authority_nxdomain_def TYPE_SOA_def)
  then show ?thesis by (auto simp: from_secs_def)
qed

text \<open>
  What the questions of a query come to, one after the other on the resolver: \<open>ans\<close> are the records found, in
  the order of the questions, and \<open>nx\<close> holds when one of them found nothing and its name is on record as nonexistent.
\<close>

inductive answered :: "dns_env \<Rightarrow> DnsQuestion list \<Rightarrow> resolver \<Rightarrow> DnsRR list \<Rightarrow> bool \<Rightarrow> resolver \<Rightarrow> bool" for e where
  no_question: "answered e [] s [] False s"
| found: "resolve e (qname q) (qtype q) s = (rrs, s1) \<Longrightarrow> rrs \<noteq> [] \<Longrightarrow> answered e qs s1 ans nx s' \<Longrightarrow>
    answered e (q # qs) s (rrs @ ans) nx s'"
| nothing: "resolve e (qname q) (qtype q) s = ([], s1) \<Longrightarrow> cache_is_nxdomain e (qname q) (qtype q) s1 = (gone, s2) \<Longrightarrow>
    answered e qs s2 ans nx s' \<Longrightarrow> answered e (q # qs) s ans (gone \<or> nx) s'"

lemma questions_loop_answered:
  "questions_loop e qs ans rc s = ((ans', rc'), s') \<Longrightarrow>
     \<exists>rrs nx. answered e qs s rrs nx s' \<and> ans' = ans @ rrs \<and> rc' = (if nx then RCODE_NXDOMAIN else rc)"
proof (induction qs arbitrary: ans rc s)
  case Nil
  then show ?case by (auto intro: answered.intros)
next
  case (Cons q qs)
  obtain rrs s1 where r: "resolve e (qname q) (qtype q) s = (rrs, s1)" by force
  obtain gone s2 where g: "cache_is_nxdomain e (qname q) (qtype q) s1 = (gone, s2)" by force
  show ?case
  proof (cases "rrs = []")
    case True
    have "questions_loop e qs ans (if gone then RCODE_NXDOMAIN else rc) s2 = ((ans', rc'), s')"
      using Cons.prems True by (simp add: r g)
    from Cons.IH [OF this] answered.nothing [OF r [unfolded True] g] show ?thesis by (metis (full_types))
  next
    case False
    then have "questions_loop e qs (ans @ rrs) rc s1 = ((ans', rc'), s')"
      using Cons.prems by (simp add: r)
    from Cons.IH [OF this] answered.found [OF r False] show ?thesis by (metis append.assoc)
  qed
qed

lemma response_flags:
  assumes "rc = (if nx then RCODE_NXDOMAIN else RCODE_NOERROR)"
  shows "bit (dns_flags (msg_header (build_response query ans rc))) i =
      (i = 15 \<or> i = 7 \<or> i = 8 \<and> bit (dns_flags (msg_header query)) 8 \<or> i < 2 \<and> nx)"
    "is_response (msg_header (build_response query ans rc))"
    "rcode (msg_header (build_response query ans rc)) = rc"
proof -
  show "bit (dns_flags (msg_header (build_response query ans rc))) i =
      (i = 15 \<or> i = 7 \<or> i = 8 \<and> bit (dns_flags (msg_header query)) 8 \<or> i < 2 \<and> nx)"
  proof (cases "i < 16")
    case True
    then have "i \<in> {0, 1, 2, 3, 4, 5, 6, 7, 8, 9, 10, 11, 12, 13, 14, 15}" by simp presburger
    then show ?thesis
      by (elim insertE)
        (simp_all add: assms build_response_def RCODE_NOERROR_def RCODE_NXDOMAIN_def Let_def bit_simps)
  next
    case False
    then have "\<not> bit (dns_flags (msg_header (build_response query ans rc))) i"
      using bit_imp_le_length by force
    then show ?thesis using False by auto
  qed
  show "is_response (msg_header (build_response query ans rc))" "rcode (msg_header (build_response query ans rc)) = rc"
    using assms
    by (auto simp: build_response_def is_response_def rcode_def RCODE_NOERROR_def RCODE_NXDOMAIN_def Let_def
        and.assoc bit.conj_disj_distrib2)
qed

text \<open>
  (C26) Every query that decodes is answered, and the answer is the response to it: the same identifier, question
  count and questions; the records found for the questions, in their order, and their number (modulo 65536); no
  record of authority or additional, and zero for the counts of both; and a word of flags in which the response
  and recursion-available bits are set, the recursion-desired bit is the query's, the code is \<^verbatim>\<open>NXDOMAIN\<close>
  when a question found nothing and its name is on record as nonexistent and else \<^verbatim>\<open>NOERROR\<close>, and every other bit
  is clear.  A datagram that does not decode gets no answer and changes nothing.
\<close>

theorem handle_query_response:
  "(decode_message data = None \<longrightarrow> handle_query e data s = (None, s)) \<and>
   (\<forall>query. decode_message data = Some query \<longrightarrow>
     (\<exists>response nx s'. handle_query e data s = (Some (encode_message response), s') \<and>
        answered e (questions query) s (answers response) nx s' \<and>
        dns_id (msg_header response) = dns_id (msg_header query) \<and> questions response = questions query \<and>
        (\<forall>i. bit (dns_flags (msg_header response)) i =
           (i = 15 \<or> i = 7 \<or> i = 8 \<and> bit (dns_flags (msg_header query)) 8 \<or> i < 2 \<and> nx)) \<and>
        is_response (msg_header response) \<and>
        rcode (msg_header response) = (if nx then RCODE_NXDOMAIN else RCODE_NOERROR) \<and>
        qdcount (msg_header response) = qdcount (msg_header query) \<and>
        ancount (msg_header response) = of_nat (length (answers response)) \<and>
        nscount (msg_header response) = 0 \<and> arcount (msg_header response) = 0 \<and>
        authorities response = [] \<and> additionals response = []))"
proof (intro conjI allI impI)
  fix query assume q: "decode_message data = Some query"
  obtain ans rc s' where loop: "questions_loop e (questions query) [] RCODE_NOERROR s = ((ans, rc), s')"
    by (metis prod.collapse)
  from questions_loop_answered [OF loop] obtain nx where
    nx: "answered e (questions query) s ans nx s'" "rc = (if nx then RCODE_NXDOMAIN else RCODE_NOERROR)" by auto
  let ?r = "build_response query ans rc"
  have "handle_query e data s = (Some (encode_message ?r), s')"
    by (simp add: handle_query_def q loop)
  moreover have "dns_id (msg_header ?r) = dns_id (msg_header query)" "questions ?r = questions query"
      "qdcount (msg_header ?r) = qdcount (msg_header query)" "answers ?r = ans"
      "ancount (msg_header ?r) = of_nat (length (answers ?r))"
      "nscount (msg_header ?r) = 0" "arcount (msg_header ?r) = 0" "authorities ?r = []" "additionals ?r = []"
    by (simp_all add: build_response_def Let_def)
  moreover note nx(1) response_flags [OF nx(2), of query ans, unfolded nx(2)]
  ultimately show "\<exists>response nx s'. handle_query e data s = (Some (encode_message response), s') \<and>
        answered e (questions query) s (answers response) nx s' \<and>
        dns_id (msg_header response) = dns_id (msg_header query) \<and> questions response = questions query \<and>
        (\<forall>i. bit (dns_flags (msg_header response)) i =
           (i = 15 \<or> i = 7 \<or> i = 8 \<and> bit (dns_flags (msg_header query)) 8 \<or> i < 2 \<and> nx)) \<and>
        is_response (msg_header response) \<and>
        rcode (msg_header response) = (if nx then RCODE_NXDOMAIN else RCODE_NOERROR) \<and>
        qdcount (msg_header response) = qdcount (msg_header query) \<and>
        ancount (msg_header response) = of_nat (length (answers response)) \<and>
        nscount (msg_header response) = 0 \<and> arcount (msg_header response) = 0 \<and>
        authorities response = [] \<and> additionals response = []"
    unfolding nx(2) by (intro exI [of _ ?r] exI [of _ nx] exI [of _ s'] conjI allI) (simp_all only: nx(2) [symmetric])
qed (simp add: handle_query_def)

theorem handle_query_response_witness:
  "\<exists>response s'. handle_query silent_env (encode_message nodata_message) start_resolver = (Some (encode_message response), s') \<and>
     dns_id (msg_header response) = 7 \<and> is_response (msg_header response) \<and> nscount (msg_header response) = 0"
  using handle_query_response [of "encode_message nodata_message" silent_env start_resolver] decode_nodata(2)
  by (fastforce simp: nodata_message_def)

section \<open>Following delegations\<close>

text \<open>\<open>serves\<close>: the server at \<open>ip\<close> answers the question with \<open>m\<close>, whenever it is asked.\<close>

definition serves :: "dns_env \<Rightarrow> ip4 \<Rightarrow> bytes \<Rightarrow> u16 \<Rightarrow> DnsMessage \<Rightarrow> bool" where
  "serves e ip name ty m = (\<forall>k. \<exists>buf. env_net e k ip (encode_message (query_message (env_id e k) name ty)) = Inr buf \<and>
     decode_message (take 4096 buf) = Some m)"

text \<open>The servers a referral names, when it brings the address of each along.\<close>

definition glue_ip :: "name_server list \<Rightarrow> bytes \<Rightarrow> ip4 option" where
  "glue_ip glue ns = map_option snd (find (\<lambda>(n, _). n = ns) glue)"

definition glued :: "DnsMessage \<Rightarrow> bool" where
  "glued m = (ns_names (authorities m) \<noteq> [] \<and> (\<forall>ns \<in> set (ns_names (authorities m)). glue_ip (glue_of (additionals m)) ns \<noteq> None))"

definition referred :: "DnsMessage \<Rightarrow> name_server list" where
  "referred m = map (\<lambda>ns. (ns, the (glue_ip (glue_of (additionals m)) ns))) (ns_names (authorities m))"

definition silent_about :: "cache_key \<Rightarrow> DnsMessage \<Rightarrow> bool" where
  "silent_about key m = (\<forall>rr \<in> set (answers m @ authorities m @ additionals m). rr_key rr \<noteq> key)"

text \<open>
  A chain of delegations: the first of the servers answers with a referral to the servers of the next message, and
  so on, and the last with records of the type asked for.
\<close>

fun delegates :: "dns_env \<Rightarrow> bytes \<Rightarrow> u16 \<Rightarrow> name_server list \<Rightarrow> DnsMessage list \<Rightarrow> DnsMessage \<Rightarrow> bool" where
  "delegates e name ty [] ms final = False"
| "delegates e name ty (server # rest) [] final =
     (serves e (snd server) name ty final \<and> rcode (msg_header final) \<noteq> RCODE_NXDOMAIN \<and> extract_matching (answers final) ty \<noteq> [])"
| "delegates e name ty (server # rest) (m # ms) final =
     (serves e (snd server) name ty m \<and> answers m = [] \<and> glued m \<and>
      silent_about (to_ascii_lowercase name, ty, CLASS_IN) m \<and> delegates e name ty (referred m) ms final)"

definition absent :: "bytes \<Rightarrow> u16 \<Rightarrow> resolver \<Rightarrow> bool" where
  "absent name ty s = (entries_at (rs_cache s) (to_ascii_lowercase name, ty, CLASS_IN) = [])"

lemma referral_loop_glued:
  "\<forall>ns \<in> set names. glue_ip glue ns \<noteq> None \<Longrightarrow>
     referral_loop e deeper glue names s = (map (\<lambda>ns. (ns, the (glue_ip glue ns))) names, s)"
  by (induction names) (auto simp: glue_ip_def)

lemma extract_referral_glued: "glued m \<Longrightarrow>
    extract_referral e deeper (authorities m) (additionals m) s = (Some (referred m), s)"
  by (simp add: glued_def extract_referral_def referral_loop_glued referred_def)

text \<open>
  What the answer asks of the other threads: when nothing is cached for a key, they cache nothing for it.
\<close>

definition undisturbed :: "dns_env \<Rightarrow> cache_key \<Rightarrow> bool" where
  "undisturbed e key = (\<forall>k i c.
     (entries_at c key = [] \<longrightarrow> entries_at (env_others e k i c) key = []) \<and>
     (hm_get (negatives c) key = None \<longrightarrow> hm_get (negatives (env_others e k i c)) key = None))"

abbreviation question_key :: "bytes \<Rightarrow> u16 \<Rightarrow> cache_key" where
  "question_key name ty \<equiv> (to_ascii_lowercase name, ty, CLASS_IN)"

lemma undisturbed_entries: "undisturbed e key \<Longrightarrow> entries_at c key = [] \<Longrightarrow> entries_at (env_others e k i c) key = []"
  by (simp add: undisturbed_def)

lemma undisturbed_negatives: "undisturbed e key \<Longrightarrow> hm_get (negatives c) key = None \<Longrightarrow>
    hm_get (negatives (env_others e k i c)) key = None"
  by (simp add: undisturbed_def)

lemma entries_put_all:
  assumes "undisturbed e key" "\<forall>rr \<in> set rrs. rr_key rr \<noteq> key"
  shows "entries_at c key = [] \<Longrightarrow> entries_at (put_all clk (env_within e s) i rrs c) key = []"
  using assms(2)
  by (induction rrs arbitrary: i c)
    (auto simp: entries_dns_put env_within_def undisturbed_entries [OF assms(1)])

lemma absent_put_all:
  "undisturbed e (question_key name ty) \<Longrightarrow> absent name ty s \<Longrightarrow> \<forall>rr \<in> set rrs. rr_key rr \<noteq> (to_ascii_lowercase name, ty, CLASS_IN) \<Longrightarrow> absent name ty (cache_put_all e rrs s)"
  by (simp add: absent_def cache_put_all_def entries_put_all undisturbed_entries)

lemma absent_get:
  "undisturbed e (question_key name ty) \<Longrightarrow> absent name ty s \<Longrightarrow> fst (cache_get e name ty s) = None \<and> absent name ty (snd (cache_get e name ty s))"
  by (simp add: absent_def fst_cache_get snd_cache_get fst_dns_get entries_dns_get undisturbed_entries)

lemma serves_query: "serves e ip name ty m \<Longrightarrow> fst (send_query e ip name ty s) = Inr m"
  by (simp add: send_query_reply serves_def)

lemma send_query_absent: "absent name ty (snd (send_query e ip name' ty' s)) = absent name ty s"
  by (simp add: absent_def)

text \<open>One turn that meets a referral, and the turn that meets the answer.\<close>

lemma turn_referral:
  assumes others: "undisturbed e (question_key (wk_name w) ty)" and "absent (wk_name w) ty s" "wk_servers w = server # rest"
    and "serves e (snd server) (wk_name w) ty m" "answers m = []" "glued m"
    and "silent_about (to_ascii_lowercase (wk_name w), ty, CLASS_IN) m" "ns_key (referred m) \<notin> set (wk_visited w)"
  obtains s' where "absent (wk_name w) ty s'"
    "resolve_turn e deeper name ty w s =
       (Inr (w\<lparr>wk_visited := ns_key (referred m) # wk_visited w, wk_servers := referred m\<rparr>), s')"
proof -
  obtain s1 where s1: "cache_get e (wk_name w) ty s = (None, s1)" "absent (wk_name w) ty s1"
    using absent_get [OF assms(1,2)] by (metis prod.collapse)
  obtain ns ip where server: "server = (ns, ip)" by (cases server)
  obtain s2 where s2: "send_query e ip (wk_name w) ty s1 = (Inr m, s2)" "absent (wk_name w) ty s2"
    using serves_query [OF assms(4), of s1] send_query_absent [of "wk_name w" ty e ip "wk_name w" ty s1] s1(2)
    by (metis prod.collapse server snd_conv)
  let ?s3 = "cache_put_all e (additionals m) (cache_put_all e (authorities m) (cache_put_all e (answers m) s2))"
  have "absent (wk_name w) ty ?s3"
    using assms(7) s2(2) by (auto simp: silent_about_def intro!: absent_put_all [OF others])
  moreover have "referred m \<noteq> []" using assms(6) by (simp add: referred_def glued_def)
  then have "resolve_turn e deeper name ty w s =
      (Inr (w\<lparr>wk_visited := ns_key (referred m) # wk_visited w, wk_servers := referred m\<rparr>), ?s3)"
    using servers_loop_answer [OF s2(1), of ns rest] assms(3,5,8)
    by (simp add: resolve_turn_def s1(1) server referral_turn_def extract_referral_glued [OF assms(6)])
  ultimately show ?thesis by (rule that)
qed

lemma turn_answer:
  assumes "undisturbed e (question_key (wk_name w) ty)" "absent (wk_name w) ty s" "wk_servers w = server # rest"
    and "serves e (snd server) (wk_name w) ty m" "rcode (msg_header m) \<noteq> RCODE_NXDOMAIN" "extract_matching (answers m) ty \<noteq> []"
  shows "fst (resolve_turn e deeper name ty w s) = Inl (Inr (wk_chain w @ extract_matching (answers m) ty))"
proof -
  obtain s1 where s1: "cache_get e (wk_name w) ty s = (None, s1)"
    using absent_get [OF assms(1,2)] by (metis prod.collapse)
  obtain ns ip where server: "server = (ns, ip)" by (cases server)
  obtain s2 where s2: "send_query e ip (wk_name w) ty s1 = (Inr m, s2)"
    using serves_query [OF assms(4), of s1] by (metis prod.collapse server snd_conv)
  have "answers m \<noteq> []" using assms(6) by (auto simp: extract_matching_def)
  then show ?thesis
    using servers_loop_answer [OF s2, of ns rest] assms(3,5,6)
    by (simp add: resolve_turn_def s1 server answer_turn_def)
qed

lemma loop_delegates:
  assumes "undisturbed e (question_key (wk_name w) ty)" "delegates e (wk_name w) ty (wk_servers w) ms final"
    and "absent (wk_name w) ty s" "length ms < n"
    and "distinct (map (ns_key \<circ> referred) ms)" "set (map (ns_key \<circ> referred) ms) \<inter> set (wk_visited w) = {}"
  shows "fst (resolve_loop e deeper name ty n w s) = Inr (wk_chain w @ extract_matching (answers final) ty)"
  using assms
proof (induction ms arbitrary: w s n)
  case Nil
  then obtain server rest n' where "wk_servers w = server # rest" "n = Suc n'"
    by (metis delegates.simps(1) gr0_implies_Suc list.exhaust list.size(3))
  then show ?case
    using Nil turn_answer [of e w ty s server rest final deeper name]
    by (cases "resolve_turn e deeper name ty w s") auto
next
  case (Cons m ms)
  then obtain server rest n' where w: "wk_servers w = server # rest" and n: "n = Suc n'"
    by (metis delegates.simps(1) less_nat_zero_code list.exhaust not0_implies_Suc)
  let ?w = "w\<lparr>wk_visited := ns_key (referred m) # wk_visited w, wk_servers := referred m\<rparr>"
  obtain s' where s': "absent (wk_name w) ty s'" "resolve_turn e deeper name ty w s = (Inr ?w, s')"
    using turn_referral [of e w ty s server rest m deeper name] Cons.prems w by auto
  have "fst (resolve_loop e deeper name ty n' ?w s') = Inr (wk_chain ?w @ extract_matching (answers final) ty)"
    using Cons.prems s' w n by (intro Cons.IH) auto
  then show ?case by (simp add: n s')
qed

lemma entries_after_get: "entries_at c key = [] \<Longrightarrow> entries_at (snd (dns_get now name ty cl c)) key = []"
  by (auto simp: entries_dns_get)

lemma absent_nameservers:
  "undisturbed e (question_key name ty) \<Longrightarrow> absent name ty s \<Longrightarrow> absent name ty (snd (get_nameservers e zone s))"
proof -
  have ips: "entries_at (snd (ns_ips_loop clk (env_within e s) i rs c)) key = []"
    if "undisturbed e key" "entries_at c key = []" for clk s i rs c key
    using that(2)
    by (induction rs arbitrary: i c)
      (auto simp: Let_def case_prod_beta entries_after_get env_within_def undisturbed_entries [OF that(1)] split: RData.split)
  have one: "undisturbed e (question_key name ty) \<Longrightarrow> absent name ty s \<Longrightarrow> absent name ty (snd (cache_ns_ips e z s))" for s z
    by (simp add: absent_def cache_ns_ips_def get_ns_ips_def Let_def case_prod_beta ips entries_after_get env_within_def undisturbed_entries)
  have "undisturbed e (question_key name ty) \<Longrightarrow> absent name ty s \<Longrightarrow> absent name ty (snd (nameservers_loop e zones s))" for zones
    by (induction zones arbitrary: s) (auto simp: Let_def case_prod_beta one)
  from this [of "map (zone_at (zone_labels zone)) [0..<length (zone_labels zone)]"] show "undisturbed e (question_key name ty) \<Longrightarrow> absent name ty s \<Longrightarrow> ?thesis"
    by (auto simp: get_nameservers_def Let_def split: prod.split option.split)
qed

text \<open>
  (C17) The resolver finds the answer.  When nothing is cached about the name, the cache has servers of the root,
  and from the first of them a chain of fewer than 30 delegations leads to a server that has records of the type
  asked for, every referral bringing the addresses of its servers along and no list of servers coming twice, then
  \<^verbatim>\<open>resolve\<close> returns these records, whatever the other threads do to the cache, as long as they do not
  cache the name themselves.
\<close>

theorem resolve_follows_delegations:
  assumes "undisturbed e (to_ascii_lowercase name, ty, CLASS_IN)" "absent name ty s" "hm_get (negatives (rs_cache s)) (to_ascii_lowercase name, ty, CLASS_IN) = None"
    and "fst (get_nameservers e [46] (snd (cache_is_nxdomain e (to_ascii_lowercase name) ty
      (snd (cache_get e (to_ascii_lowercase name) ty s))))) = Inr servers"
    and "delegates e (to_ascii_lowercase name) ty servers ms final"
    and "length ms < MAX_ITERATIONS" "distinct (map (ns_key \<circ> referred) ms)"
  shows "fst (resolve e name ty s) = extract_matching (answers final) ty"
proof -
  let ?n = "to_ascii_lowercase name"
  have lower: "absent ?n ty s'' = absent name ty s''" for s'' by (simp add: absent_def)
  have none: "hm_get (negatives (rs_cache (snd (cache_get e ?n ty s)))) (?n, ty, CLASS_IN) = None"
    using assms(1,3) by (simp add: snd_cache_get undisturbed_negatives)
  obtain s1 where s1: "cache_get e ?n ty s = (None, s1)" "absent name ty s1"
      "hm_get (negatives (rs_cache s1)) (?n, ty, CLASS_IN) = None"
    using absent_get [of e ?n ty s] assms(1-3)
    by (cases "cache_get e ?n ty s") (use none in \<open>auto simp: lower\<close>)
  obtain s2 where s2: "cache_is_nxdomain e ?n ty s1 = (False, s2)" "absent name ty s2"
    using s1 assms(1) by (simp add: cache_is_nxdomain_def is_nxdomain_def absent_def undisturbed_entries)
  obtain s3 where s3: "get_nameservers e [46] s2 = (Inr servers, s3)" "absent name ty s3"
    using assms(4) absent_nameservers [OF assms(1) s2(2), of "[46]"] by (simp add: s1 s2) (metis prod.collapse)
  have "fst (resolve_iterative e 0 ?n ty s2) = Inr (extract_matching (answers final) ty)"
    using assms(1,5-7) s3 loop_delegates
      [of e "\<lparr>wk_servers = servers, wk_visited = [], wk_name = ?n, wk_cnames = 0, wk_chain = []\<rparr>" ty ms final s3 MAX_ITERATIONS]
    by (simp add: resolve_iterative.simps lower)
  then show ?thesis
    by (cases "resolve_iterative e 0 ?n ty s2") (auto simp: resolve_def s1 s2)
qed

text \<open>The root's server refers to \<^verbatim>\<open>b.\<close>, which knows the address of \<^verbatim>\<open>x.c.\<close>\<close>

definition referral_message :: DnsMessage where
  "referral_message =
     \<lparr>msg_header = \<lparr>dns_id = 7, dns_flags = 0x8000, qdcount = 0, ancount = 0, nscount = 1, arcount = 1\<rparr>,
      questions = [], answers = [], authorities = [ns_rr [99, 46] [98, 46]], additionals = [a_rr [98, 46] (2, 2, 2, 2)]\<rparr>"

definition final_message :: DnsMessage where
  "final_message =
     \<lparr>msg_header = \<lparr>dns_id = 7, dns_flags = 0x8000, qdcount = 0, ancount = 1, nscount = 0, arcount = 0\<rparr>,
      questions = [], answers = [a_rr [120, 46, 99, 46] (9, 9, 9, 9)], authorities = [], additionals = []\<rparr>"

definition world :: dns_env where
  "world = silent_env\<lparr>env_net := \<lambda>_ ip _.
     Inr (encode_message (if ip = (1, 1, 1, 1) then referral_message else final_message))\<rparr>"

lemma decode_world:
  "decode_message (take 4096 (encode_message referral_message)) = Some referral_message"
  "decode_message (take 4096 (encode_message final_message)) = Some final_message"
proof -
  have wf: "wf_message referral_message" "wf_message final_message"
    by (simp_all add: wf_message_def referral_message_def final_message_def wf_rr_def a_rr_def ns_rr_def dns_name_def
        wf_label_def to_ascii_lowercase_def in_range_def encode_rdata_def CLASS_IN_def encode_name_def trim_end_def type_defs)
  have "length (encode_message referral_message) \<le> 4096" "length (encode_message final_message) \<le> 4096"
    by (simp_all add: encode_message_def referral_message_def final_message_def encode_rr_def a_rr_def ns_rr_def
        encode_rdata_def encode_name_def Let_def trim_end_def u16_to_be_def u32_to_be_def)
  then show "decode_message (take 4096 (encode_message referral_message)) = Some referral_message"
      "decode_message (take 4096 (encode_message final_message)) = Some final_message"
    using wf decode_encode_message by simp_all
qed

lemma two_zones_records:
  "records (rs_cache two_zones) =
     [(([46], TYPE_NS, CLASS_IN), [\<lparr>ce_rr = ns_rr [46] [97, 46], ce_expires = from_secs 300\<rparr>]),
      (([97, 46], TYPE_A, CLASS_IN), [\<lparr>ce_rr = a_rr [97, 46] (1, 1, 1, 1), ce_expires = from_secs 300\<rparr>]),
      (([99, 46], TYPE_NS, CLASS_IN), [\<lparr>ce_rr = ns_rr [99, 46] [98, 46], ce_expires = from_secs 300\<rparr>]),
      (([98, 46], TYPE_A, CLASS_IN), [\<lparr>ce_rr = a_rr [98, 46] (2, 2, 2, 2), ce_expires = from_secs 300\<rparr>])]"
  "negatives (rs_cache two_zones) = []"
  by (simp_all add: two_zones_def start_resolver_def dns_put_def Let_def hm_new_def hm_get_def hm_insert_def ns_rr_def
      a_rr_def dns_cache_new_def to_ascii_lowercase_def in_range_def type_defs CLASS_IN_def)

lemma two_zones_nameservers:
  "fst (get_nameservers world [46] (after_op world (rs_cache two_zones) (after_op world (rs_cache two_zones) two_zones))) =
     Inr [([97, 46], (1, 1, 1, 1))]"
  by (simp add: get_nameservers_def zone_labels_def trim_end_def zone_at_def cache_ns_ips_def get_ns_ips_def dns_get_def Let_def
      two_zones_records hm_get_def hm_insert_def ns_rr_def a_rr_def to_ascii_lowercase_def in_range_def world_def
      silent_env_def env_within_def from_secs_def upt_rec type_defs CLASS_IN_def)

theorem resolve_follows_delegations_witness:
  "fst (resolve world [120, 46, 99, 46] TYPE_A two_zones) = [a_rr [120, 46, 99, 46] (9, 9, 9, 9)]"
proof -
  have low: "to_ascii_lowercase [120, 46, 99, 46] = [120, 46, 99, 46]" by (simp add: to_ascii_lowercase_def in_range_def)
  have chain: "delegates world [120, 46, 99, 46] TYPE_A [([97, 46], (1, 1, 1, 1))] [referral_message] final_message"
  proof -
    have "serves world (1, 1, 1, 1) name ty referral_message" "serves world (2, 2, 2, 2) name ty final_message" for name ty
      using decode_world by (simp_all add: serves_def world_def)
    then show ?thesis
      by (simp add: referral_message_def final_message_def glued_def referred_def ns_names_def ns_rr_def a_rr_def
          glue_of_def glue_ip_def silent_about_def rr_key_def low rcode_def RCODE_NXDOMAIN_def extract_matching_def type_defs
          to_ascii_lowercase_def in_range_def)
  qed
  have get: "cache_get world [120, 46, 99, 46] TYPE_A two_zones = (None, after_op world (rs_cache two_zones) two_zones)"
    by (simp add: cache_get_def dns_get_def Let_def low hm_get_def two_zones_records)
  have world: "alone world" by (simp add: world_def)
  then have others: "undisturbed world (to_ascii_lowercase [120, 46, 99, 46], TYPE_A, CLASS_IN)"
    by (simp add: undisturbed_def)
  have none: "absent [120, 46, 99, 46] TYPE_A two_zones"
      "hm_get (negatives (rs_cache two_zones)) ([120, 46, 99, 46], TYPE_A, CLASS_IN) = None"
    by (simp_all add: absent_def entries_at_def low hm_get_def two_zones_records)
  have "extract_matching (answers final_message) TYPE_A = [a_rr [120, 46, 99, 46] (9, 9, 9, 9)]"
    by (simp add: final_message_def extract_matching_def a_rr_def)
  then show ?thesis
    using resolve_follows_delegations [OF others none(1), unfolded low, OF none(2) _ chain] two_zones_nameservers
    by (simp add: cache_is_nxdomain_def MAX_ITERATIONS_def get alone_others [OF world])
qed

end
