(* ===== verification/Text_Scan.thy ===== *)
theory Text_Scan
  imports Text
begin

text \<open>
  What the configuration files and the HTTP code use of Rust's \<^verbatim>\<open>str\<close> beyond theory Text, over
  UTF-8 bytes: literals, prefixes, searching, \<^verbatim>\<open>trim\<close>, \<^verbatim>\<open>split_whitespace\<close>,
  \<^verbatim>\<open>lines\<close>, parsing of unsigned numbers and printing of numbers.
\<close>

section \<open>Literals and prefixes\<close>

definition ascii :: "string \<Rightarrow> bytes" where
  "ascii s = map of_char s"

definition CRLF :: bytes where "CRLF = [13, 10]"

definition starts_with :: "'a list \<Rightarrow> 'a list \<Rightarrow> bool" where
  "starts_with pre s = (take (length pre) s = pre)"

definition strip_prefix :: "'a list \<Rightarrow> 'a list \<Rightarrow> 'a list option" where
  "strip_prefix pre s = (if starts_with pre s then Some (drop (length pre) s) else None)"

definition eq_ignore_ascii_case :: "bytes \<Rightarrow> bytes \<Rightarrow> bool" where
  "eq_ignore_ascii_case a b = (to_ascii_lowercase a = to_ascii_lowercase b)"

section \<open>Searching\<close>

text \<open>\<^verbatim>\<open>s.windows(pat.len()).position(|w| w == pat)\<close>, for a pattern that is not empty.\<close>

fun find_sub :: "'a list \<Rightarrow> 'a list \<Rightarrow> nat option" where
  "find_sub pat [] = None"
| "find_sub pat (x # xs) = (if starts_with pat (x # xs) then Some 0 else map_option Suc (find_sub pat xs))"

definition contains_sub :: "'a list \<Rightarrow> 'a list \<Rightarrow> bool" where
  "contains_sub pat s = (find_sub pat s \<noteq> None)"

fun split_once :: "'a \<Rightarrow> 'a list \<Rightarrow> ('a list \<times> 'a list) option" where
  "split_once c [] = None"
| "split_once c (x # xs) = (if x = c then Some ([], xs) else map_option (\<lambda>(a, b). (x # a, b)) (split_once c xs))"

definition rsplit_once :: "'a \<Rightarrow> 'a list \<Rightarrow> ('a list \<times> 'a list) option" where
  "rsplit_once c s = map_option (\<lambda>(a, b). (rev b, rev a)) (split_once c (rev s))"

definition trim_start_char :: "'a \<Rightarrow> 'a list \<Rightarrow> 'a list" where
  "trim_start_char c s = dropWhile (\<lambda>x. x = c) s"

definition trim_matches_char :: "'a \<Rightarrow> 'a list \<Rightarrow> 'a list" where
  "trim_matches_char c s = trim_end c (trim_start_char c s)"

section \<open>White space\<close>

text \<open>
  The length of the white space character that \<open>s\<close> begins with, 0 if it begins with another: the code
  points with the Unicode property White\_Space.  The first byte of these is never a continuation byte, so
  looking at every byte position of valid UTF-8 finds characters only.
\<close>

fun ws_len :: "bytes \<Rightarrow> nat" where
  "ws_len [] = 0"
| "ws_len (a # s) =
     (if in_range 9 13 a \<or> a = 32 then 1
      else if a = 0xC2 then (case s of b # _ \<Rightarrow> if b = 0x85 \<or> b = 0xA0 then 2 else 0 | _ \<Rightarrow> 0)
      else (case s of
              b # c # _ \<Rightarrow>
                if a = 0xE1 \<and> b = 0x9A \<and> c = 0x80 \<or>
                   a = 0xE2 \<and> b = 0x80 \<and> (in_range 0x80 0x8A c \<or> c = 0xA8 \<or> c = 0xA9 \<or> c = 0xAF) \<or>
                   a = 0xE2 \<and> b = 0x81 \<and> c = 0x9F \<or> a = 0xE3 \<and> b = 0x80 \<and> c = 0x80 then 3 else 0
            | _ \<Rightarrow> 0))"

declare ws_len.simps(2) [simp del]

function trim_start_ws :: "bytes \<Rightarrow> bytes" where
  "trim_start_ws s = (if s \<noteq> [] \<and> ws_len s > 0 then trim_start_ws (drop (ws_len s) s) else s)"
  by pat_completeness auto
termination by (relation "measure length") auto

declare trim_start_ws.simps [simp del]

fun trim_end_ws :: "bytes \<Rightarrow> bytes" where
  "trim_end_ws [] = []"
| "trim_end_ws (x # xs) = (if trim_start_ws (x # xs) = [] then [] else x # trim_end_ws xs)"

definition trim_ws :: "bytes \<Rightarrow> bytes" where
  "trim_ws s = trim_end_ws (trim_start_ws s)"

text \<open>The words of \<open>s\<close>; \<open>acc\<close> is the word read so far, in reverse.\<close>

function words_acc :: "bytes \<Rightarrow> bytes \<Rightarrow> bytes list" where
  "words_acc acc s =
     (if s = [] then (if acc = [] then [] else [rev acc])
      else if ws_len s > 0 then (if acc = [] then [] else [rev acc]) @ words_acc [] (drop (ws_len s) s)
      else words_acc (hd s # acc) (tl s))"
  by pat_completeness auto
termination by (relation "measure (\<lambda>(acc, s). length s)") auto

declare words_acc.simps [simp del]

definition split_whitespace :: "bytes \<Rightarrow> bytes list" where
  "split_whitespace s = words_acc [] s"

text \<open>\<^verbatim>\<open>lines\<close>: a line ends with a line feed, or a carriage return and a line feed; the end of the last is optional.\<close>

definition strip_cr :: "bytes \<Rightarrow> bytes" where
  "strip_cr l = (if l \<noteq> [] \<and> last l = 13 then butlast l else l)"

definition str_lines :: "bytes \<Rightarrow> bytes list" where
  "str_lines s =
     (let ps = split_on 10 s
      in map strip_cr (butlast ps) @ (if last ps = [] then [] else [last ps]))"

section \<open>Numbers\<close>

text \<open>\<^verbatim>\<open>from_str_radix\<close> and \<^verbatim>\<open>parse\<close> for an unsigned type with the given largest value.\<close>

definition digit_value :: "nat \<Rightarrow> u8 \<Rightarrow> nat option" where
  "digit_value radix b =
     (let v = (if in_range 48 57 b then unat b - 48
               else if in_range 97 122 b then unat b - 87
               else if in_range 65 90 b then unat b - 55
               else radix)
      in if v < radix then Some v else None)"

fun digits_value :: "nat \<Rightarrow> nat \<Rightarrow> bytes \<Rightarrow> nat option" where
  "digits_value radix acc [] = Some acc"
| "digits_value radix acc (b # bs) =
     (case digit_value radix b of None \<Rightarrow> None | Some v \<Rightarrow> digits_value radix (acc * radix + v) bs)"

definition parse_radix :: "nat \<Rightarrow> nat \<Rightarrow> bytes \<Rightarrow> nat option" where
  "parse_radix radix largest s =
     (let digits = (case s of [] \<Rightarrow> [] | b # r \<Rightarrow> if b = 43 then r else s)
      in if digits = [] then None
         else case digits_value radix 0 digits of
                None \<Rightarrow> None
              | Some n \<Rightarrow> if n \<le> largest then Some n else None)"

abbreviation U8_MAX :: nat where "U8_MAX \<equiv> 255"
abbreviation U16_MAX :: nat where "U16_MAX \<equiv> 65535"
abbreviation U32_MAX :: nat where "U32_MAX \<equiv> 4294967295"
abbreviation U64_MAX :: nat where "U64_MAX \<equiv> 18446744073709551615"

definition parse_uint :: "nat \<Rightarrow> bytes \<Rightarrow> nat option" where
  "parse_uint largest s = parse_radix 10 largest s"

text \<open>\<^verbatim>\<open>{}\<close> and \<^verbatim>\<open>{:x}\<close> of a number.\<close>

definition digit_char :: "nat \<Rightarrow> u8" where
  "digit_char v = (if v < 10 then of_nat (48 + v) else of_nat (87 + v))"

fun show_radix :: "nat \<Rightarrow> nat \<Rightarrow> bytes" where
  "show_radix radix n =
     (if radix < 2 \<or> n < radix then [digit_char n]
      else show_radix radix (n div radix) @ [digit_char (n mod radix)])"

declare show_radix.simps [simp del]

definition show_nat :: "nat \<Rightarrow> bytes" where "show_nat n = show_radix 10 n"
definition show_hex :: "nat \<Rightarrow> bytes" where "show_hex n = show_radix 16 n"

section \<open>Lemmas\<close>

lemma starts_with_append [simp]: "starts_with pre (pre @ s)"
  by (simp add: starts_with_def)

lemma strip_prefix_append [simp]: "strip_prefix pre (pre @ s) = Some s"
  by (simp add: strip_prefix_def)

lemma strip_prefix_Some: "strip_prefix pre s = Some r \<Longrightarrow> s = pre @ r"
  unfolding strip_prefix_def starts_with_def by (metis append_take_drop_id option.inject option.simps(3))

lemma find_sub_bound: "find_sub pat s = Some i \<Longrightarrow> i + length pat \<le> length s"
proof (induction s arbitrary: i)
  case (Cons x xs)
  show ?case
  proof (cases "starts_with pat (x # xs)")
    case True
    then have "length pat \<le> length (x # xs)" unfolding starts_with_def by (metis length_take min.bounded_iff order.refl)
    with True Cons.prems show ?thesis by simp
  next
    case False
    with Cons show ?thesis by auto
  qed
qed simp

lemma find_sub_at: "find_sub pat s = Some i \<Longrightarrow> \<exists>r. s = take i s @ pat @ r"
proof (induction s arbitrary: i)
  case (Cons x xs)
  show ?case
  proof (cases "starts_with pat (x # xs)")
    case True
    then show ?thesis using Cons.prems
      by (metis append_Nil append_take_drop_id find_sub.simps(2) option.inject starts_with_def take_0)
  next
    case False
    with Cons show ?thesis by auto
  qed
qed simp

lemma split_once_Some: "split_once c s = Some (a, b) \<Longrightarrow> s = a @ c # b \<and> c \<notin> set a"
  by (induction s arbitrary: a b) (auto split: if_splits)

lemma split_once_sep: "c \<notin> set a \<Longrightarrow> split_once c (a @ c # b) = Some (a, b)"
  by (induction a) auto

lemma split_once_None: "split_once c s = None \<longleftrightarrow> c \<notin> set s"
  by (induction s) auto

lemma rsplit_once_sep: "c \<notin> set b \<Longrightarrow> rsplit_once c (a @ c # b) = Some (a, b)"
  using split_once_sep [of c "rev b" "rev a"] by (simp add: rsplit_once_def)

lemma rsplit_once_Some: "rsplit_once c s = Some (a, b) \<Longrightarrow> s = a @ c # b \<and> c \<notin> set b"
proof -
  assume "rsplit_once c s = Some (a, b)"
  then have "split_once c (rev s) = Some (rev b, rev a)" by (auto simp: rsplit_once_def)
  from split_once_Some [OF this] show ?thesis
    by (metis append_Cons append_Nil append_assoc rev.simps(2) rev_append rev_rev_ident set_rev)
qed

lemma rsplit_once_None: "rsplit_once c s = None \<longleftrightarrow> c \<notin> set s"
  by (simp add: rsplit_once_def split_once_None)

text \<open>Reading back a number that was printed.\<close>

lemma unat_digit_char: "v < 36 \<Longrightarrow> unat (digit_char v) = (if v < 10 then 48 + v else 87 + v)"
  unfolding digit_char_def by (simp add: unat_of_nat del: of_nat_add)

lemma digit_value_char:
  assumes "v < radix" "radix \<le> 36"
  shows "digit_value radix (digit_char v) = Some v"
  using assms by (simp add: digit_value_def in_range_def word_le_nat_alt unat_digit_char)

lemma digits_value_append:
  "digits_value radix acc (xs @ ys) =
     (case digits_value radix acc xs of None \<Rightarrow> None | Some v \<Rightarrow> digits_value radix v ys)"
  by (induction xs arbitrary: acc) (auto split: option.split)

lemma digits_value_show:
  assumes "2 \<le> radix" "radix \<le> 36"
  shows "digits_value radix 0 (show_radix radix n) = Some n"
proof (induction n rule: less_induct)
  case (less n)
  show ?case
  proof (cases "n < radix")
    case True
    then show ?thesis using assms by (subst show_radix.simps) (simp add: digit_value_char)
  next
    case False
    then have "n div radix < n" using assms by (simp add: div_less_dividend)
    from less.IH [OF this] show ?thesis
      using assms False by (subst show_radix.simps) (simp add: digits_value_append digit_value_char)
  qed
qed

lemma show_radix_nonempty [simp]: "show_radix radix n \<noteq> []"
  by (subst show_radix.simps) simp

lemma show_radix_digits:
  assumes "2 \<le> radix" "radix \<le> 36" "b \<in> set (show_radix radix n)"
  shows "\<exists>v < radix. b = digit_char v"
  using assms(3)
proof (induction n rule: less_induct)
  case (less n)
  show ?case
  proof (cases "n < radix")
    case True
    then show ?thesis using less.prems assms by (subst (asm) show_radix.simps) auto
  next
    case False
    then have "n div radix < n" using assms by (simp add: div_less_dividend)
    moreover have "b \<in> set (show_radix radix (n div radix)) \<or> b = digit_char (n mod radix)"
      using less.prems False assms by (subst (asm) show_radix.simps) auto
    moreover have "n mod radix < radix" using assms by simp
    ultimately show ?thesis using less.IH by blast
  qed
qed

lemma digit_char_ranges: "v < 16 \<Longrightarrow> in_range 48 57 (digit_char v) \<or> in_range 97 102 (digit_char v)"
  by (simp add: in_range_def word_le_nat_alt unat_digit_char)

lemma show_hex_chars: "b \<in> set (show_hex n) \<Longrightarrow> in_range 48 57 b \<or> in_range 97 102 b"
  using show_radix_digits [of 16 b n] digit_char_ranges by (auto simp: show_hex_def)

lemma parse_show_radix:
  assumes "2 \<le> radix" "radix \<le> 36" "n \<le> largest"
  shows "parse_radix radix largest (show_radix radix n) = Some n"
proof -
  obtain b r where s: "show_radix radix n = b # r" by (meson neq_Nil_conv show_radix_nonempty)
  then obtain v where "v < radix" "b = digit_char v" using show_radix_digits [OF assms(1,2), of b n] by auto
  then have "b \<noteq> 43" using assms(2) unat_digit_char [of v] by (auto simp: word_unat_eq_iff split: if_splits)
  then show ?thesis using assms digits_value_show [OF assms(1,2), of n] s by (simp add: parse_radix_def)
qed

lemma parse_show_hex: "n \<le> largest \<Longrightarrow> parse_radix 16 largest (show_hex n) = Some n"
  by (simp add: show_hex_def parse_show_radix)

lemma parse_show_nat: "n \<le> largest \<Longrightarrow> parse_uint largest (show_nat n) = Some n"
  by (simp add: show_nat_def parse_uint_def parse_show_radix)

lemma parse_radix_bound: "parse_radix radix largest s = Some n \<Longrightarrow> n \<le> largest"
  by (auto simp: parse_radix_def Let_def split: option.splits if_splits)

lemma hex_not_ws:
  assumes "in_range 48 57 a \<or> in_range 97 102 a"
  shows "\<not> in_range 9 13 a" "a \<noteq> 32" "a \<noteq> 0xC2" "a \<noteq> 0xE1" "a \<noteq> 0xE2" "a \<noteq> 0xE3" "a \<noteq> 13" "a \<noteq> 10" "a \<noteq> 59" "a < 0x80"
  using assms by (auto simp: in_range_def word_le_nat_alt word_less_nat_alt)

lemma ws_len_none: "in_range 48 57 a \<or> in_range 97 102 a \<Longrightarrow> ws_len (a # r) = 0"
  using hex_not_ws [of a] by (simp add: ws_len.simps split: list.split)

lemma trim_start_none: "ws_len s = 0 \<Longrightarrow> trim_start_ws s = s"
  by (subst trim_start_ws.simps) simp

lemma trim_digits:
  assumes "\<And>b. b \<in> set s \<Longrightarrow> in_range 48 57 b \<or> in_range 97 102 b"
  shows "trim_ws s = s"
proof -
  have start: "trim_start_ws s = s" if "\<forall>b \<in> set s. in_range 48 57 b \<or> in_range 97 102 b" for s
    using that ws_len_none by (cases s) (simp_all add: trim_start_none)
  have "trim_end_ws s = s" if "\<forall>b \<in> set s. in_range 48 57 b \<or> in_range 97 102 b" for s
    using that
  proof (induction s)
    case (Cons a r)
    then show ?case using start [of "a # r"] by simp
  qed simp
  then show ?thesis using assms start by (simp add: trim_ws_def)
qed

lemma trim_hex: "trim_ws (show_hex n) = show_hex n"
  by (rule trim_digits) (rule show_hex_chars)

lemma show_nat_chars: "b \<in> set (show_nat n) \<Longrightarrow> in_range 48 57 b"
  using show_radix_digits [of 10 b n] by (auto simp: show_nat_def in_range_def word_le_nat_alt unat_digit_char)

lemma trim_nat: "trim_ws (show_nat n) = show_nat n"
  by (rule trim_digits) (simp add: show_nat_chars)

lemma show_nat_nonempty [simp]: "show_nat n \<noteq> []" "show_hex n \<noteq> []"
  by (simp_all add: show_nat_def show_hex_def)

lemma trim_empty [simp]: "trim_ws [] = []"
  by (simp add: trim_ws_def trim_start_ws.simps)

lemma utf8_ascii: "\<forall>b \<in> set s. b < 0x80 \<Longrightarrow> utf8_valid s"
  by (induction s) auto

lemma utf8_hex: "utf8_valid (show_hex n)"
  using show_hex_chars hex_not_ws(10) by (blast intro: utf8_ascii)

end
