(* ===== verification/Root_Hints.thy ===== *)
theory Root_Hints
  imports Dns_Resolver_Correct Text_Scan
begin

text \<open>
  \<^verbatim>\<open>load_root_hints\<close> of \<^verbatim>\<open>toolkit/dnsresolver/src/cache.rs\<close>: the file of root servers is read
  into the cache.  The contents of the file and the readings of the clock are arguments; \<open>None\<close> is a panic.
\<close>

section \<open>The code\<close>

datatype hint = SkipLine | HintPanic | HintRecord DnsRR

definition parse_octets :: "bytes \<Rightarrow> nat list" where
  "parse_octets ip_str = List.map_filter (parse_uint U8_MAX) (split_on 46 ip_str)"

definition hint_of_octets :: "bytes \<Rightarrow> u32 \<Rightarrow> nat list \<Rightarrow> hint" where
  "hint_of_octets name ttl octets =
     (case octets of
        [a, b, c, d] \<Rightarrow>
          HintRecord \<lparr>rr_name = name, rr_type = TYPE_A, rr_class = CLASS_IN, rr_ttl = ttl,
                      rr_data = A (of_nat a, of_nat b, of_nat c, of_nat d)\<rparr>
      | _ \<Rightarrow> SkipLine)"

text \<open>The body of the loop, on the words of a line.\<close>

definition hint_of_parts :: "bytes list \<Rightarrow> hint" where
  "hint_of_parts parts =
     (if length parts < 4 then SkipLine
      else let name = parts ! 0;
               ttl = (case parse_uint U32_MAX (parts ! 1) of Some n \<Rightarrow> of_nat n | None \<Rightarrow> 3600000) :: u32;
               idx = (if eq_ignore_ascii_case (parts ! 2) (ascii ''IN'') \<or> eq_ignore_ascii_case (parts ! 2) (ascii ''CLASS1'')
                      then 3 else 2);
               rtype_str = parts ! idx
           in if rtype_str = ascii ''A''
              then if length parts \<le> idx + 1 then HintPanic
                   else hint_of_octets name ttl (parse_octets (parts ! (idx + 1)))
              else if rtype_str = ascii ''NS''
              then if length parts \<le> idx + 1 then HintPanic
                   else HintRecord \<lparr>rr_name = name, rr_type = TYPE_NS, rr_class = CLASS_IN, rr_ttl = ttl,
                                    rr_data = NS (parts ! (idx + 1))\<rparr>
              else SkipLine)"

definition hint_of_line :: "bytes \<Rightarrow> hint" where
  "hint_of_line line =
     (let line = trim_ws line
      in if line = [] \<or> starts_with [59] line then SkipLine else hint_of_parts (split_whitespace line))"

fun hints_loop :: "(nat \<Rightarrow> instant) \<Rightarrow> nat \<Rightarrow> bytes list \<Rightarrow> DnsCache \<Rightarrow> DnsCache option" where
  "hints_loop clk i [] c = Some c"
| "hints_loop clk i (l # ls) c =
     (case hint_of_line l of
        SkipLine \<Rightarrow> hints_loop clk i ls c
      | HintPanic \<Rightarrow> None
      | HintRecord rr \<Rightarrow> hints_loop clk (i + 1) ls (dns_put (clk i) rr c))"

definition load_root_hints :: "(nat \<Rightarrow> instant) \<Rightarrow> bytes \<Rightarrow> DnsCache \<Rightarrow> DnsCache option" where
  "load_root_hints clk content c = hints_loop clk 0 (str_lines content) c"

section \<open>Properties\<close>

text \<open>The records of a file, up to the first line that makes the program panic.\<close>

definition hint_records :: "bytes \<Rightarrow> DnsRR list" where
  "hint_records content =
     concat (map (\<lambda>l. case hint_of_line l of HintRecord rr \<Rightarrow> [rr] | _ \<Rightarrow> []) (str_lines content))"

lemma hints_loop_put_all:
  "(\<And>l. l \<in> set ls \<Longrightarrow> hint_of_line l \<noteq> HintPanic) \<Longrightarrow>
     hints_loop clk i ls c =
       Some (put_all clk quiet i (concat (map (\<lambda>l. case hint_of_line l of HintRecord rr \<Rightarrow> [rr] | _ \<Rightarrow> []) ls)) c)"
  by (induction ls arbitrary: i c) (auto split: hint.split)

lemma hints_loop_panic: "l \<in> set ls \<Longrightarrow> hint_of_line l = HintPanic \<Longrightarrow> hints_loop clk i ls c = None"
  by (induction ls arbitrary: i c) (auto split: hint.split)

text \<open>
  Loading the root hints puts exactly the records of the lines into the cache, in order; comments, empty lines and
  lines of other types change nothing.  Afterwards every record of the file is known.  The program panics exactly when some line has
  the class but no data after the type, which the length test in front does not catch.
\<close>

theorem root_hints_loaded:
  "(load_root_hints clk content c = None \<longleftrightarrow> (\<exists>l \<in> set (str_lines content). hint_of_line l = HintPanic)) \<and>
   (\<forall>c'. load_root_hints clk content c = Some c' \<longrightarrow>
      c' = put_all clk quiet 0 (hint_records content) c \<and>
      (\<forall>rr \<in> set (hint_records content). known_until c' (rr_key rr) (rr_data rr) \<noteq> None)) \<and>
   (hint_of_parts parts = HintPanic \<longleftrightarrow>
      length parts = 4 \<and> (eq_ignore_ascii_case (parts ! 2) (ascii ''IN'') \<or> eq_ignore_ascii_case (parts ! 2) (ascii ''CLASS1'')) \<and>
      (parts ! 3 = ascii ''A'' \<or> parts ! 3 = ascii ''NS''))"
proof -
  have ok: "load_root_hints clk content c = Some (put_all clk quiet 0 (hint_records content) c)"
    if "\<not> (\<exists>l \<in> set (str_lines content). hint_of_line l = HintPanic)"
    using that hints_loop_put_all [of "str_lines content"] by (simp add: load_root_hints_def hint_records_def)
  have bad: "load_root_hints clk content c = None" if "\<exists>l \<in> set (str_lines content). hint_of_line l = HintPanic"
    using that hints_loop_panic by (auto simp: load_root_hints_def)
  have parts: "hint_of_parts parts = HintPanic \<longleftrightarrow>
      length parts = 4 \<and> (eq_ignore_ascii_case (parts ! 2) (ascii ''IN'') \<or> eq_ignore_ascii_case (parts ! 2) (ascii ''CLASS1'')) \<and>
      (parts ! 3 = ascii ''A'' \<or> parts ! 3 = ascii ''NS'')"
  proof -
    have "hint_of_octets name ttl octets \<noteq> HintPanic" for name ttl octets
      by (simp add: hint_of_octets_def split: list.split)
    then show ?thesis by (auto simp: hint_of_parts_def Let_def)
  qed
  have known: "known_until (put_all clk quiet 0 (hint_records content) c) (rr_key rr) (rr_data rr) \<noteq> None"
    if "rr \<in> set (hint_records content)" for rr
    using that known_put_all by blast
  show ?thesis
  proof (intro conjI parts)
    show "load_root_hints clk content c = None \<longleftrightarrow> (\<exists>l \<in> set (str_lines content). hint_of_line l = HintPanic)"
      using ok bad by (metis option.distinct(1))
    show "\<forall>c'. load_root_hints clk content c = Some c' \<longrightarrow> c' = put_all clk quiet 0 (hint_records content) c \<and>
        (\<forall>rr \<in> set (hint_records content). known_until c' (rr_key rr) (rr_data rr) \<noteq> None)"
    proof (intro allI impI)
      fix c' assume "load_root_hints clk content c = Some c'"
      then have "c' = put_all clk quiet 0 (hint_records content) c" using ok bad by (metis option.distinct(1) option.inject)
      then show "c' = put_all clk quiet 0 (hint_records content) c \<and>
          (\<forall>rr \<in> set (hint_records content). known_until c' (rr_key rr) (rr_data rr) \<noteq> None)"
        using known by blast
    qed
  qed
qed

definition sample_hints :: bytes where
  "sample_hints = ascii ''; root'' @ [10] @ ascii ''.  3600000  NS  a.'' @ [10] @ ascii ''a. 3600000 IN A 1.2.3.4'' @ [10]"

lemma sample_lines:
  "map (\<lambda>l. (starts_with [59] (trim_ws l), split_whitespace (trim_ws l))) (str_lines sample_hints) =
     [(True, [ascii '';'', ascii ''root'']), (False, [ascii ''.'', ascii ''3600000'', ascii ''NS'', ascii ''a.'']),
      (False, [ascii ''a.'', ascii ''3600000'', ascii ''IN'', ascii ''A'', ascii ''1.2.3.4''])]"
  by code_simp

lemma sample_octets: "parse_octets (ascii ''1.2.3.4'') = [1, 2, 3, 4]"
  by code_simp

lemma sample_record_lines:
  "\<exists>l1 l2 l3 t1 t2. str_lines sample_hints = [l1, l2, l3] \<and> hint_of_line l1 = SkipLine \<and>
     hint_of_line l2 = HintRecord \<lparr>rr_name = ascii ''.'', rr_type = TYPE_NS, rr_class = CLASS_IN, rr_ttl = t1, rr_data = NS (ascii ''a.'')\<rparr> \<and>
     hint_of_line l3 = HintRecord \<lparr>rr_name = ascii ''a.'', rr_type = TYPE_A, rr_class = CLASS_IN, rr_ttl = t2, rr_data = A (1, 2, 3, 4)\<rparr>"
proof -
  have parts: "\<exists>t. hint_of_parts [ascii ''.'', ascii ''3600000'', ascii ''NS'', ascii ''a.''] =
      HintRecord \<lparr>rr_name = ascii ''.'', rr_type = TYPE_NS, rr_class = CLASS_IN, rr_ttl = t, rr_data = NS (ascii ''a.'')\<rparr>"
    "\<exists>t. hint_of_parts [ascii ''a.'', ascii ''3600000'', ascii ''IN'', ascii ''A'', ascii ''1.2.3.4''] =
      HintRecord \<lparr>rr_name = ascii ''a.'', rr_type = TYPE_A, rr_class = CLASS_IN, rr_ttl = t, rr_data = A (1, 2, 3, 4)\<rparr>"
  proof -
    have cmp: "eq_ignore_ascii_case (ascii ''NS'') (ascii ''IN'') = False" "eq_ignore_ascii_case (ascii ''NS'') (ascii ''CLASS1'') = False"
      "eq_ignore_ascii_case (ascii ''IN'') (ascii ''IN'') = True" "(ascii ''NS'' = ascii ''A'') = False"
      by code_simp+
    show "\<exists>t. hint_of_parts [ascii ''.'', ascii ''3600000'', ascii ''NS'', ascii ''a.''] =
      HintRecord \<lparr>rr_name = ascii ''.'', rr_type = TYPE_NS, rr_class = CLASS_IN, rr_ttl = t, rr_data = NS (ascii ''a.'')\<rparr>"
      by (simp add: hint_of_parts_def Let_def cmp)
    show "\<exists>t. hint_of_parts [ascii ''a.'', ascii ''3600000'', ascii ''IN'', ascii ''A'', ascii ''1.2.3.4''] =
      HintRecord \<lparr>rr_name = ascii ''a.'', rr_type = TYPE_A, rr_class = CLASS_IN, rr_ttl = t, rr_data = A (1, 2, 3, 4)\<rparr>"
      by (simp add: hint_of_parts_def Let_def cmp sample_octets hint_of_octets_def)
  qed
  have words: "split_whitespace [] = []" by code_simp
  obtain l1 l2 l3 where lines: "str_lines sample_hints = [l1, l2, l3]"
    using sample_lines by (auto simp: map_eq_Cons_conv)
  have "hint_of_line l1 = SkipLine"
    "hint_of_line l2 = hint_of_parts [ascii ''.'', ascii ''3600000'', ascii ''NS'', ascii ''a.'']"
    "hint_of_line l3 = hint_of_parts [ascii ''a.'', ascii ''3600000'', ascii ''IN'', ascii ''A'', ascii ''1.2.3.4'']"
    using sample_lines words by (auto simp: lines hint_of_line_def Let_def)
  then show ?thesis using lines parts by metis
qed

theorem root_hints_loaded_witness:
  "\<exists>c'. load_root_hints (\<lambda>_. 0) sample_hints dns_cache_new = Some c' \<and>
     known_until c' (ascii ''.'', TYPE_NS, CLASS_IN) (NS (ascii ''a.'')) \<noteq> None \<and>
     known_until c' (ascii ''a.'', TYPE_A, CLASS_IN) (A (1, 2, 3, 4)) \<noteq> None"
proof -
  obtain l1 l2 l3 t1 t2 where l: "str_lines sample_hints = [l1, l2, l3]" "hint_of_line l1 = SkipLine"
    "hint_of_line l2 = HintRecord \<lparr>rr_name = ascii ''.'', rr_type = TYPE_NS, rr_class = CLASS_IN, rr_ttl = t1, rr_data = NS (ascii ''a.'')\<rparr>"
    "hint_of_line l3 = HintRecord \<lparr>rr_name = ascii ''a.'', rr_type = TYPE_A, rr_class = CLASS_IN, rr_ttl = t2, rr_data = A (1, 2, 3, 4)\<rparr>"
    using sample_record_lines by blast
  note loaded = root_hints_loaded [of "\<lambda>_. 0" sample_hints dns_cache_new]
  obtain c' where c': "load_root_hints (\<lambda>_. 0) sample_hints dns_cache_new = Some c'"
    using loaded l by fastforce
  moreover have "\<forall>rr \<in> set (hint_records sample_hints). known_until c' (rr_key rr) (rr_data rr) \<noteq> None"
    using loaded c' by blast
  moreover have "to_ascii_lowercase (ascii ''.'') = ascii ''.''" "to_ascii_lowercase (ascii ''a.'') = ascii ''a.''"
    by code_simp+
  ultimately show ?thesis using l by (simp add: hint_records_def rr_key_def)
qed

end
