(* ===== verification/Socks5.thy ===== *)
theory Socks5
  imports Codec Text
begin

text \<open>
  \<^verbatim>\<open>my-proxy/src/socks5_proto.rs\<close> and \<^verbatim>\<open>my-proxy/src/error.rs\<close>: addresses of the
  SOCKS5 protocol, the method negotiation, requests and replies.

  A \<^verbatim>\<open>String\<close> is the list of its UTF-8 bytes, an \<^verbatim>\<open>Ipv6Addr\<close> the list of its
  sixteen octets.  A \<^verbatim>\<open>TcpStream\<close> is what the peer has still to say (\<open>inp\<close>; the peer
  closes after it) and what was written to it (\<open>outp\<close>); writing succeeds.  The resolver
  \<^verbatim>\<open>tokio::net::lookup_host\<close> is a parameter.
\<close>

section \<open>Errors and results\<close>

datatype io_kind = UnexpectedEof | InvalidData | AddrNotAvailable | Refused | OtherIo

datatype ProxyError =
    Io io_kind
  | SocksInvalidVersion u8
  | SocksMethodNotSupported
  | SocksInvalidCommand u8
  | SocksInvalidAddressType u8
  | DnsResolutionFailed bytes

type_synonym 'a result = "ProxyError + 'a"

section \<open>Addresses\<close>

datatype Address = Ipv4 ip4 u16 | Ipv6 bytes u16 | Domain bytes u16

definition from_socks5 :: "bytes \<Rightarrow> (Address \<times> nat) result" where
  "from_socks5 data =
     (if data = [] then Inl (SocksInvalidAddressType 0xFF)
      else let atyp = data ! 0 in
        if atyp = 0x01
        then if length data < 7 then Inl (Io UnexpectedEof)
             else Inr (Ipv4 (ip4_at 1 data) (u16_at 5 data), 7)
        else if atyp = 0x03
        then if length data < 2 then Inl (Io UnexpectedEof)
             else let domain_len = unat (data ! 1); fin = 2 + domain_len + 2 in
               if length data < fin then Inl (Io UnexpectedEof)
               else if \<not> utf8_valid (slice 2 (2 + domain_len) data) then Inl (Io InvalidData)
               else Inr (Domain (slice 2 (2 + domain_len) data) (u16_at (2 + domain_len) data), fin)
        else if atyp = 0x04
        then if length data < 19 then Inl (Io UnexpectedEof)
             else Inr (Ipv6 (slice 1 17 data) (u16_at 17 data), 19)
        else Inl (SocksInvalidAddressType atyp))"

definition to_socks5_bytes :: "Address \<Rightarrow> bytes" where
  "to_socks5_bytes addr =
     (case addr of
        Ipv4 ip port \<Rightarrow> [0x01] @ ip4_bytes ip @ u16_to_be port
      | Domain domain port \<Rightarrow> [0x03] @ [of_nat (length domain)] @ domain @ u16_to_be port
      | Ipv6 ip port \<Rightarrow> [0x04] @ ip @ u16_to_be port)"

datatype SocketAddr = V4 ip4 u16 | V6 bytes u16

definition is_ipv6 :: "SocketAddr \<Rightarrow> bool" where
  "is_ipv6 a = (case a of V6 _ _ \<Rightarrow> True | V4 _ _ \<Rightarrow> False)"

text \<open>\<open>lookup_host\<close> is given the domain and the port that \<^verbatim>\<open>format!("{}:{}")\<close> joins.\<close>

definition resolve_all ::
  "(bytes \<Rightarrow> u16 \<Rightarrow> io_kind + SocketAddr list) \<Rightarrow> Address \<Rightarrow> SocketAddr list result" where
  "resolve_all lookup_host addr =
     (case addr of
        Ipv4 ip port \<Rightarrow> Inr [V4 ip port]
      | Ipv6 ip port \<Rightarrow> Inr [V6 ip port]
      | Domain domain port \<Rightarrow>
          (case lookup_host domain port of
             Inl e \<Rightarrow> Inl (Io e)
           | Inr addrs \<Rightarrow>
               if addrs = [] then Inl (DnsResolutionFailed domain) else Inr (sort_key is_ipv6 addrs)))"

definition resolve_ipv4 ::
  "(bytes \<Rightarrow> u16 \<Rightarrow> io_kind + SocketAddr list) \<Rightarrow> Address \<Rightarrow> SocketAddr result" where
  "resolve_ipv4 lookup_host addr =
     (case addr of
        Ipv4 ip port \<Rightarrow> Inr (V4 ip port)
      | Ipv6 _ _ \<Rightarrow> Inl (Io AddrNotAvailable)
      | Domain domain port \<Rightarrow>
          (case lookup_host domain port of
             Inl e \<Rightarrow> Inl (Io e)
           | Inr addrs \<Rightarrow>
               (case find (\<lambda>a. \<not> is_ipv6 a) addrs of
                  Some a \<Rightarrow> Inr a
                | None \<Rightarrow> Inl (DnsResolutionFailed domain))))"

section \<open>Streams\<close>

record tcp_stream =
  inp :: bytes
  outp :: bytes

definition read_exact :: "nat \<Rightarrow> tcp_stream \<Rightarrow> bytes result \<times> tcp_stream" where
  "read_exact n s =
     (if length (inp s) < n then (Inl (Io UnexpectedEof), s\<lparr>inp := []\<rparr>)
      else (Inr (take n (inp s)), s\<lparr>inp := drop n (inp s)\<rparr>))"

definition write_all :: "bytes \<Rightarrow> tcp_stream \<Rightarrow> tcp_stream" where
  "write_all bs s = s\<lparr>outp := outp s @ bs\<rparr>"

text \<open>The \<^verbatim>\<open>?\<close> operator: an error ends the function, with the stream as it is.\<close>

definition try_then :: "(tcp_stream \<Rightarrow> 'a result \<times> tcp_stream) \<Rightarrow> ('a \<Rightarrow> tcp_stream \<Rightarrow> 'b result \<times> tcp_stream) \<Rightarrow>
    tcp_stream \<Rightarrow> 'b result \<times> tcp_stream" where
  "try_then m f s = (case m s of (Inl e, s) \<Rightarrow> (Inl e, s) | (Inr x, s) \<Rightarrow> f x s)"

section \<open>Negotiation, requests and replies\<close>

datatype Command = TcpConnect | UdpAssociate

definition command_from_u8 :: "u8 \<Rightarrow> Command option" where
  "command_from_u8 v =
     (if v = 0x01 then Some TcpConnect else if v = 0x03 then Some UdpAssociate else None)"

record Socks5Request =
  cmd :: Command
  addr :: Address

datatype ReplyCode = Success | HostUnreachable | ConnectionRefused

fun reply_code :: "ReplyCode \<Rightarrow> u8" where
  "reply_code Success = 0x00"
| "reply_code HostUnreachable = 0x04"
| "reply_code ConnectionRefused = 0x05"

definition handshake :: "tcp_stream \<Rightarrow> unit result \<times> tcp_stream" where
  "handshake =
     try_then (read_exact 2) (\<lambda>header.
       let ver = header ! 0; nmethods = header ! 1
       in if ver \<noteq> 0x05 then (\<lambda>s. (Inl (SocksInvalidVersion ver), s))
          else try_then (read_exact (unat nmethods)) (\<lambda>methods s.
            if 0x00 \<notin> set methods
            then (Inl SocksMethodNotSupported, write_all [0x05, 0xFF] s)
            else (Inr (), write_all [0x05, 0x00] s)))"

definition read_address :: "u8 \<Rightarrow> tcp_stream \<Rightarrow> Address result \<times> tcp_stream" where
  "read_address atyp =
     (let parse = (\<lambda>buf s. (map_sum id fst (from_socks5 buf), s))
      in if atyp = 0x01 then try_then (read_exact 6) (\<lambda>rest. parse ([0x01] @ rest))
         else if atyp = 0x03
         then try_then (read_exact 1) (\<lambda>len_buf.
                try_then (read_exact (unat (len_buf ! 0) + 2)) (\<lambda>rest. parse ([0x03, len_buf ! 0] @ rest)))
         else if atyp = 0x04 then try_then (read_exact 18) (\<lambda>rest. parse ([0x04] @ rest))
         else (\<lambda>s. (Inl (SocksInvalidAddressType atyp), s)))"

definition read_request :: "tcp_stream \<Rightarrow> Socks5Request result \<times> tcp_stream" where
  "read_request =
     try_then (read_exact 4) (\<lambda>header.
       let ver = header ! 0; c = header ! 1; atyp = header ! 3
       in if ver \<noteq> 0x05 then (\<lambda>s. (Inl (SocksInvalidVersion ver), s))
          else case command_from_u8 c of
                 None \<Rightarrow> (\<lambda>s. (Inl (SocksInvalidCommand c), s))
               | Some command \<Rightarrow> try_then (read_address atyp) (\<lambda>a s. (Inr \<lparr>cmd = command, addr = a\<rparr>, s)))"

definition write_reply :: "ReplyCode \<Rightarrow> Address \<Rightarrow> tcp_stream \<Rightarrow> unit result \<times> tcp_stream" where
  "write_reply code bind_addr s =
     (let addr_bytes = to_socks5_bytes bind_addr
      in (Inr (), write_all ([0x05, reply_code code, 0x00] @ addr_bytes) s))"

section \<open>The address format\<close>

fun address_wf :: "Address \<Rightarrow> bool" where
  "address_wf (Ipv4 ip port) = True"
| "address_wf (Ipv6 ip port) = (length ip = 16)"
| "address_wf (Domain d port) = (length d < 256 \<and> utf8_valid d)"

lemma from_to_socks5:
  assumes "address_wf a"
  shows "from_socks5 (to_socks5_bytes a @ rest) = Inr (a, length (to_socks5_bytes a))"
proof (cases a)
  case (Ipv4 ip port)
  then show ?thesis
    by (simp add: from_socks5_def to_socks5_bytes_def field_at_skip wire_simps)
next
  case (Ipv6 ip port)
  then show ?thesis
    using assms by (simp add: from_socks5_def to_socks5_bytes_def field_at_skip wire_simps slice_def)
next
  case (Domain d port)
  then show ?thesis
    using assms
    by (simp add: from_socks5_def to_socks5_bytes_def field_at_skip wire_simps slice_def unat_of_length_u8)
qed

lemma take_split: "a \<le> b \<Longrightarrow> take a xs @ slice a b xs = take b xs"
  by (metis le_add_diff_inverse slice_def take_add)

lemma to_from_socks5:
  assumes "from_socks5 data = Inr (a, n)"
  shows "address_wf a \<and> n \<le> length data \<and> to_socks5_bytes a = take n data"
proof -
  have hd: "x # slice (Suc 0) m data = take m data" if "data \<noteq> []" "data ! 0 = x" "0 < m" for x m
    using that by (cases data; cases m) (simp_all add: slice_def)
  have two: "x # data ! Suc 0 # slice 2 m data = take m data"
    if len: "2 \<le> length data" "2 \<le> m" "data ! 0 = x" for x m
  proof -
    obtain x y zs where d: "data = x # y # zs" using len(1) by (cases data; cases "tl data") auto
    show ?thesis using len(2,3) by (simp add: d slice_def take_Cons' numeral_2_eq_2)
  qed
  have join: "slice i j data @ slice j k data = slice i k data" if "i \<le> j" "j \<le> k" for i j k
    using that take_split [of "j - i" "k - i" "drop i data"] by (simp add: slice_def)
  show ?thesis
    using assms
    by (auto simp: from_socks5_def to_socks5_bytes_def Let_def bytes_of_field join hd word_bounds two
        split: if_splits)
qed

text \<open>The address format is a strict codec of whole buffers.\<close>

definition parse_whole :: "bytes \<Rightarrow> Address option" where
  "parse_whole data =
     (case from_socks5 data of Inr (a, n) \<Rightarrow> if n = length data then Some a else None | Inl _ \<Rightarrow> None)"

interpretation socks5: strict_codec to_socks5_bytes parse_whole address_wf
proof
  show "parse_whole (to_socks5_bytes a) = Some a" if "address_wf a" for a
    using from_to_socks5 [OF that, of "[]"] by (simp add: parse_whole_def)
  show "to_socks5_bytes a = data" if "parse_whole data = Some a" for data a
    using that to_from_socks5 [of data]
    by (auto simp: parse_whole_def split: sum.splits if_splits)
qed

section \<open>Reading from a stream\<close>

lemma read_exact_append [simp]:
  "length xs = n \<Longrightarrow> inp s = xs @ rest \<Longrightarrow> read_exact n s = (Inr xs, s\<lparr>inp := rest\<rparr>)"
  by (simp add: read_exact_def)

lemma read_address_correct:
  assumes "address_wf a" "to_socks5_bytes a = atyp # bs"
  shows "read_address atyp (s\<lparr>inp := bs @ rest\<rparr>) = (Inr a, s\<lparr>inp := rest\<rparr>)"
proof -
  have parse: "from_socks5 (atyp # bs) = Inr (a, Suc (length bs))"
    using from_to_socks5 [OF assms(1), of "[]"] by (simp add: assms(2))
  show ?thesis
  proof (cases a)
    case (Ipv4 ip port)
    then have "atyp = 1" "length bs = 6" using assms(2) by (auto simp: to_socks5_bytes_def)
    then show ?thesis using parse by (simp add: read_address_def try_then_def Let_def)
  next
    case (Ipv6 ip port)
    then have "atyp = 4" "length bs = 18" using assms by (auto simp: to_socks5_bytes_def)
    then show ?thesis using parse by (simp add: read_address_def try_then_def Let_def)
  next
    case (Domain d port)
    then have "atyp = 3" and bs: "bs = of_nat (length d) # d @ u16_to_be port" and "length d < 256"
      using assms by (auto simp: to_socks5_bytes_def)
    then show ?thesis
      using parse
      by (simp add: read_address_def try_then_def Let_def unat_of_length_u8
          read_exact_append [where xs = "[_]"] read_exact_append [where xs = "d @ u16_to_be port"])
  qed
qed

section \<open>Properties\<close>

text \<open>
  SOCKS5 addresses.  \<open>from_socks5\<close> accepts a buffer, returning the address \<open>a\<close> and the number
  of bytes used, exactly when \<open>a\<close> is well formed (a valid UTF-8 name of at most 255 bytes, sixteen
  octets) and the buffer starts with the encoding of \<open>a\<close>: parsing and printing are inverse,
  whatever data follows.
\<close>

theorem socks5_address_codec:
  "from_socks5 data = Inr (a, n) \<longleftrightarrow>
     address_wf a \<and> n = length (to_socks5_bytes a) \<and> take n data = to_socks5_bytes a"
proof
  assume "from_socks5 data = Inr (a, n)"
  from to_from_socks5 [OF this] show
    "address_wf a \<and> n = length (to_socks5_bytes a) \<and> take n data = to_socks5_bytes a"
    by (metis length_take min.absorb2)
next
  assume r: "address_wf a \<and> n = length (to_socks5_bytes a) \<and> take n data = to_socks5_bytes a"
  then have "data = to_socks5_bytes a @ drop n data" by (metis append_take_drop_id)
  with r from_to_socks5 [of a "drop n data"] show "from_socks5 data = Inr (a, n)" by metis
qed

lemma handshake_read:
  assumes "length methods < 256"
  shows "handshake \<lparr>inp = [0x05, of_nat (length methods)] @ methods @ rest, outp = out\<rparr> =
      (if 0 \<in> set methods then (Inr (), \<lparr>inp = rest, outp = out @ [0x05, 0x00]\<rparr>)
       else (Inl SocksMethodNotSupported, \<lparr>inp = rest, outp = out @ [0x05, 0xFF]\<rparr>))"
  by (simp add: handshake_def try_then_def Let_def write_all_def unat_of_length_u8 [OF assms]
      read_exact_append [where xs = "[_, _]"] read_exact_append [where xs = methods])

lemma request_read:
  assumes "address_wf a" "command_from_u8 c = Some command"
  shows "read_request \<lparr>inp = [0x05, c, rsv] @ to_socks5_bytes a @ rest, outp = out\<rparr> =
      (Inr \<lparr>cmd = command, addr = a\<rparr>, \<lparr>inp = rest, outp = out\<rparr>)"
proof -
  obtain atyp bs where enc: "to_socks5_bytes a = atyp # bs"
    by (cases a) (auto simp: to_socks5_bytes_def)
  have "read_request \<lparr>inp = [0x05, c, rsv] @ (atyp # bs) @ rest, outp = out\<rparr> =
      (Inr \<lparr>cmd = command, addr = a\<rparr>, \<lparr>inp = rest, outp = out\<rparr>)"
    using read_address_correct [OF assms(1) enc, where s = "\<lparr>inp = [], outp = out\<rparr>" and rest = rest] assms(2)
    by (simp add: read_request_def try_then_def Let_def read_exact_append [where xs = "[_, _, _, _]"])
  then show ?thesis by (simp add: enc)
qed

text \<open>
  The server side of a SOCKS5 connection.  A client that offers \<open>methods\<close> is answered
  \<open>05 00\<close> when it offers the method without authentication and \<open>05 FF\<close> otherwise; a
  request for a known command is then read with exactly the command and address that were
  sent.  In each case the bytes that follow stay in the stream.
\<close>

theorem socks5_session_read:
  assumes "length methods < 256" "address_wf a" "command_from_u8 c = Some command"
  shows "handshake \<lparr>inp = [0x05, of_nat (length methods)] @ methods @ rest, outp = out\<rparr> =
      (if 0 \<in> set methods then (Inr (), \<lparr>inp = rest, outp = out @ [0x05, 0x00]\<rparr>)
       else (Inl SocksMethodNotSupported, \<lparr>inp = rest, outp = out @ [0x05, 0xFF]\<rparr>)) \<and>
    read_request \<lparr>inp = [0x05, c, rsv] @ to_socks5_bytes a @ rest, outp = out\<rparr> =
      (Inr \<lparr>cmd = command, addr = a\<rparr>, \<lparr>inp = rest, outp = out\<rparr>)"
  using handshake_read [OF assms(1)] request_read [OF assms(2,3)] by blast

theorem socks5_session_read_witness:
  "read_request \<lparr>inp = [0x05, 1, 0] @ to_socks5_bytes (Domain [97, 46, 99] 443) @ [9, 9], outp = []\<rparr> =
     (Inr \<lparr>cmd = TcpConnect, addr = Domain [97, 46, 99] 443\<rparr>, \<lparr>inp = [9, 9], outp = []\<rparr>)"
  using socks5_session_read [of "[0]" "Domain [97, 46, 99] 443" 1 TcpConnect "[9, 9]" "[]" 0]
  by (simp add: command_from_u8_def)

end
