(* ===== verification/Udp_Relay.thy ===== *)
theory Udp_Relay
  imports Socks5 Hash_Map
begin

text \<open>
  \<^verbatim>\<open>my-proxy/src/relay/udp.rs\<close>: the UDP relay behind a SOCKS5 association.

  The socket is the list of what \<^verbatim>\<open>recv_from\<close> returns and the list \<open>sent\<close> of datagrams
  sent.  Each datagram comes with the result of the \<^verbatim>\<open>send_to\<close> it leads to and the two
  clock readings its processing takes.  \<^verbatim>\<open>unwrap\<close> of an absent client is the outcome
  \<open>Panic\<close>.  Console messages are left out.
\<close>

section \<open>The code\<close>

record UdpRelay =
  client :: "SocketAddr option"
  seen :: "(SocketAddr, instant) hash_map"
  idle_timeout :: duration
  sent :: "(bytes \<times> SocketAddr) list"

datatype outcome = Ok | Err ProxyError | Panic

record datagram =
  dg_data :: bytes
  dg_peer :: SocketAddr
  send_error :: "io_kind option"
  seen_at :: instant
  cleanup_at :: instant

datatype udp_recv = Datagram datagram | RecvError io_kind

type_synonym resolver = "bytes \<Rightarrow> u16 \<Rightarrow> io_kind + SocketAddr list"

definition relay_new :: "duration \<Rightarrow> UdpRelay" where
  "relay_new timeout = \<lparr>client = None, seen = hm_new, idle_timeout = timeout, sent = []\<rparr>"

text \<open>\<^verbatim>\<open>socket.send_to(payload, target).await?\<close>, then \<^verbatim>\<open>seen.insert(key, Instant::now())\<close>.\<close>

definition send_and_mark :: "datagram \<Rightarrow> bytes \<Rightarrow> SocketAddr \<Rightarrow> SocketAddr \<Rightarrow> UdpRelay \<Rightarrow> outcome \<times> UdpRelay" where
  "send_and_mark dg payload target key r =
     (case send_error dg of
        Some e \<Rightarrow> (Err (Io e), r)
      | None \<Rightarrow> (Ok, r\<lparr>sent := sent r @ [(payload, target)], seen := hm_insert key (seen_at dg) (seen r)\<rparr>))"

definition handle_client_packet :: "resolver \<Rightarrow> datagram \<Rightarrow> UdpRelay \<Rightarrow> outcome \<times> UdpRelay" where
  "handle_client_packet lookup_host dg r =
     (let data = dg_data dg
      in if length data < 10 then (Ok, r)
         else let frag = data ! 2
           in if frag \<noteq> 0x00 then (Ok, r)
              else case from_socks5 (drop 3 data) of
                     Inl _ \<Rightarrow> (Ok, r)
                   | Inr (address, consumed) \<Rightarrow>
                       let payload = drop (3 + consumed) data;
                           r = (if client r = None then r\<lparr>client := Some (dg_peer dg)\<rparr> else r)
                       in case resolve_ipv4 lookup_host address of
                            Inl e \<Rightarrow> (Err e, r)
                          | Inr target \<Rightarrow> send_and_mark dg payload target target r)"

definition handle_server_packet :: "datagram \<Rightarrow> UdpRelay \<Rightarrow> outcome \<times> UdpRelay" where
  "handle_server_packet dg r =
     (let data = dg_data dg;
          n = length data;
          reply = replicate (10 + n) 0;
          reply = copy_at 0 [0x00, 0x00, 0x00, 0x01] reply
      in case dg_peer dg of
           V6 _ _ \<Rightarrow> (Ok, r)
         | V4 ip port \<Rightarrow>
             let reply = copy_at 4 (ip4_bytes ip) reply;
                 reply = copy_at 8 (u16_to_be port) reply;
                 reply = copy_at 10 data reply
             in case client r of
                  None \<Rightarrow> (Panic, r)
                | Some c \<Rightarrow> send_and_mark dg reply c (dg_peer dg) r)"

definition cleanup :: "instant \<Rightarrow> UdpRelay \<Rightarrow> UdpRelay" where
  "cleanup now r = r\<lparr>seen := hm_retain (\<lambda>_ t. now - t < idle_timeout r) (seen r)\<rparr>"

text \<open>
  The body of the loop of \<^verbatim>\<open>run\<close>, and the loop over what is received; at the end of the list
  the relay waits for the next datagram.
\<close>

definition relay_packet :: "resolver \<Rightarrow> datagram \<Rightarrow> UdpRelay \<Rightarrow> outcome \<times> UdpRelay" where
  "relay_packet lookup_host dg r =
     (let (result, r) =
            (if Some (dg_peer dg) = client r \<or> client r = None
             then handle_client_packet lookup_host dg r
             else handle_server_packet dg r)
      in (result, if result = Ok then cleanup (cleanup_at dg) r else r))"

fun run :: "resolver \<Rightarrow> udp_recv list \<Rightarrow> UdpRelay \<Rightarrow> outcome \<times> UdpRelay" where
  "run lookup_host [] r = (Ok, r)"
| "run lookup_host (RecvError e # rs) r = (Err (Io e), r)"
| "run lookup_host (Datagram dg # rs) r =
     (case relay_packet lookup_host dg r of
        (Ok, r) \<Rightarrow> run lookup_host rs r
      | (Err e, r) \<Rightarrow> (Err e, r)
      | (Panic, r) \<Rightarrow> (Panic, r))"

section \<open>What a step does\<close>

lemma server_reply_eq:
  "copy_at 10 data (copy_at 8 (u16_to_be port) (copy_at 4 (ip4_bytes ip)
     (copy_at 0 [0, 0, 0, 1] (replicate (10 + length data) (0 :: u8))))) =
   [0, 0, 0] @ to_socks5_bytes (Ipv4 ip port) @ data"
  by (cases ip) (simp add: copy_at_def to_socks5_bytes_def u16_to_be_def numeral_eq_Suc)

lemma client_send_and_mark [simp]: "client (snd (send_and_mark dg p t k r)) = client r"
  by (simp add: send_and_mark_def split: option.split)

lemma no_panic_send_and_mark [simp]: "fst (send_and_mark dg p t k r) \<noteq> Panic"
  by (simp add: send_and_mark_def split: option.split)

lemma client_cleanup [simp]: "client (cleanup n r) = client r"
  by (simp add: cleanup_def)

lemma client_client_packet:
  "client (snd (handle_client_packet lookup_host dg r)) \<in> {client r, Some (dg_peer dg)} \<and>
   (client r \<noteq> None \<longrightarrow> client (snd (handle_client_packet lookup_host dg r)) = client r) \<and>
   fst (handle_client_packet lookup_host dg r) \<noteq> Panic"
  by (simp add: handle_client_packet_def Let_def split: sum.split prod.split)

lemma client_server_packet:
  "client r \<noteq> None \<Longrightarrow> client (snd (handle_server_packet dg r)) = client r \<and> fst (handle_server_packet dg r) \<noteq> Panic"
  by (auto simp: handle_server_packet_def Let_def split: SocketAddr.split)

lemma relay_packet_client:
  "fst (relay_packet lookup_host dg r) \<noteq> Panic \<and>
   (client r \<noteq> None \<longrightarrow> client (snd (relay_packet lookup_host dg r)) = client r)"
  using client_client_packet [of lookup_host dg r] client_server_packet [of r dg]
  by (auto simp: relay_packet_def Let_def case_prod_beta)

section \<open>Properties\<close>

text \<open>
  (C38) The relay is transparent.  A datagram of the associated client for an IPv4 target, in the SOCKS5
  encapsulation, is sent on to that target with its payload unchanged; a datagram from any
  other IPv4 host is sent to the client, in an encapsulation from which the client's parser
  recovers the host, the port and the unchanged payload.
\<close>

theorem relay_transparent:
  assumes "client r = Some c" "send_error dg = None"
  shows "(dg_peer dg = c \<and> dg_data dg = [0, 0, 0] @ to_socks5_bytes (Ipv4 ip port) @ payload \<longrightarrow>
      fst (relay_packet lookup_host dg r) = Ok \<and>
      sent (snd (relay_packet lookup_host dg r)) = sent r @ [(payload, V4 ip port)]) \<and>
    (dg_peer dg = V4 ip port \<and> dg_peer dg \<noteq> c \<longrightarrow>
      fst (relay_packet lookup_host dg r) = Ok \<and>
      (\<exists>reply. sent (snd (relay_packet lookup_host dg r)) = sent r @ [(reply, c)] \<and>
        from_socks5 (drop 3 reply) = Inr (Ipv4 ip port, 7) \<and> drop 10 reply = dg_data dg))"
proof -
  have "length (to_socks5_bytes (Ipv4 ip port)) = 7" by (simp add: to_socks5_bytes_def)
  moreover have "from_socks5 (to_socks5_bytes (Ipv4 ip port) @ rest) = Inr (Ipv4 ip port, 7)" for rest
    using from_to_socks5 [of "Ipv4 ip port" rest] calculation by simp
  ultimately show ?thesis
    using assms
    by (auto simp: relay_packet_def Let_def case_prod_beta handle_client_packet_def resolve_ipv4_def
        send_and_mark_def cleanup_def handle_server_packet_def server_reply_eq simp del: replicate.simps)
qed

definition example_relay :: UdpRelay where
  "example_relay = (relay_new 60)\<lparr>client := Some (V4 (10, 0, 0, 9) 5000)\<rparr>"

definition example_datagram :: datagram where
  "example_datagram =
     \<lparr>dg_data = [1, 2], dg_peer = V4 (8, 8, 8, 8) 53, send_error = None, seen_at = 0, cleanup_at = 1\<rparr>"

theorem relay_transparent_witness:
  "\<exists>reply. sent (snd (relay_packet (\<lambda>_ _. Inr []) example_datagram example_relay)) = [(reply, V4 (10, 0, 0, 9) 5000)] \<and>
     from_socks5 (drop 3 reply) = Inr (Ipv4 (8, 8, 8, 8) 53, 7) \<and> drop 10 reply = [1, 2]"
  using relay_transparent [of example_relay "V4 (10, 0, 0, 9) 5000" example_datagram "(8, 8, 8, 8)" 53 "[]" "\<lambda>_ _. Inr []"]
  by (simp add: example_relay_def example_datagram_def relay_new_def)

text \<open>
  Whatever arrives, the relay does not panic, and once a client is associated it stays the
  client.
\<close>

theorem relay_safe:
  "fst (run lookup_host rs r) \<noteq> Panic \<and>
   (client r \<noteq> None \<longrightarrow> client (snd (run lookup_host rs r)) = client r)"
proof (induction lookup_host rs r rule: run.induct)
  case (3 lookup_host dg rs r)
  obtain result r' where res: "relay_packet lookup_host dg r = (result, r')" by force
  then have "result \<noteq> Panic" "client r \<noteq> None \<longrightarrow> client r' = client r"
    using relay_packet_client [of lookup_host dg r] by auto
  then show ?case using 3 by (cases result) (auto simp: res)
qed simp_all

theorem relay_safe_witness:
  "client (snd (run (\<lambda>_ _. Inr []) [Datagram example_datagram] example_relay)) = Some (V4 (10, 0, 0, 9) 5000)"
  using relay_safe [of "\<lambda>_ _. Inr []" "[Datagram example_datagram]" example_relay]
  by (simp add: example_relay_def)

text \<open>
  One datagram for an IPv6 target ends the relay: the address is refused by \<^verbatim>\<open>resolve_ipv4\<close>
  and the error leaves the loop, so nothing that arrives later is relayed.
\<close>

theorem ipv6_target_ends_relay:
  assumes "client r = None \<or> client r = Some (dg_peer dg)" "length ip = 16"
    "dg_data dg = [0, 0, 0] @ to_socks5_bytes (Ipv6 ip port) @ payload"
  shows "fst (run lookup_host (Datagram dg # rs) r) = Err (Io AddrNotAvailable) \<and>
    sent (snd (run lookup_host (Datagram dg # rs) r)) = sent r"
proof -
  have len: "length (to_socks5_bytes (Ipv6 ip port)) = 19" using assms(2) by (simp add: to_socks5_bytes_def)
  have "from_socks5 (to_socks5_bytes (Ipv6 ip port) @ payload) = Inr (Ipv6 ip port, 19)"
    using from_to_socks5 [of "Ipv6 ip port" payload] len assms(2) by simp
  then show ?thesis
    using assms len
    by (auto simp: relay_packet_def Let_def case_prod_beta handle_client_packet_def resolve_ipv4_def)
qed

theorem ipv6_target_ends_relay_witness:
  "fst (run (\<lambda>_ _. Inr []) [Datagram (example_datagram\<lparr>dg_data := [0, 0, 0] @
      to_socks5_bytes (Ipv6 (replicate 16 1) 53) @ [7]\<rparr>)] (relay_new 60)) = Err (Io AddrNotAvailable)"
  using ipv6_target_ends_relay [of "relay_new 60" "example_datagram\<lparr>dg_data := [0, 0, 0] @
      to_socks5_bytes (Ipv6 (replicate 16 1) 53) @ [7]\<rparr>" "replicate 16 1" 53 "[7]" "\<lambda>_ _. Inr []" "[]"]
  by (simp add: relay_new_def del: run.simps)

end
