(* ===== verification/Http_Proto.thy ===== *)
theory Http_Proto
  imports Text_Scan
begin

text \<open>
  \<^verbatim>\<open>minicaddy/src/http_proto.rs\<close>: headers, authorization, ranges, and reading and writing message
  bodies.  A \<^verbatim>\<open>String\<close> is the list of its UTF-8 bytes.  \<^verbatim>\<open>httparse\<close>, \<^verbatim>\<open>base64\<close>,
  \<^verbatim>\<open>flate2\<close> and \<^verbatim>\<open>libc::gmtime_r\<close> are parameters of the definitions that use them.
\<close>

section \<open>Headers\<close>

type_synonym u64 = "64 word"

record Header =
  h_name :: bytes
  h_value :: bytes

definition get_header :: "Header list \<Rightarrow> bytes \<Rightarrow> bytes option" where
  "get_header headers name =
     (case find (\<lambda>h. eq_ignore_ascii_case (h_name h) name) headers of
        None \<Rightarrow> None
      | Some h \<Rightarrow> if utf8_valid (h_value h) then Some (h_value h) else None)"

definition wants_keep_alive :: "Header list \<Rightarrow> bool" where
  "wants_keep_alive headers =
     (case get_header headers (ascii ''Connection'') of
        None \<Rightarrow> True
      | Some v \<Rightarrow> \<not> eq_ignore_ascii_case v (ascii ''close''))"

definition HOP_BY_HOP :: "bytes list" where
  "HOP_BY_HOP = map ascii
     [''connection'', ''keep-alive'', ''transfer-encoding'', ''te'', ''trailer'', ''upgrade'',
      ''proxy-authenticate'', ''proxy-authorization'']"

definition is_hop_by_hop :: "bytes \<Rightarrow> bool" where
  "is_hop_by_hop name = list_ex (\<lambda>h. eq_ignore_ascii_case h name) HOP_BY_HOP"

definition copy_header :: "Header \<Rightarrow> bytes" where
  "copy_header h =
     h_name h @ ascii '': '' @ (if utf8_valid (h_value h) then h_value h else []) @ CRLF"

definition copy_headers :: "bytes \<Rightarrow> Header list \<Rightarrow> bytes" where
  "copy_headers dst headers = dst @ concat (map copy_header (filter (\<lambda>h. \<not> is_hop_by_hop (h_name h)) headers))"

section \<open>Authorization\<close>

text \<open>The loop of \<^verbatim>\<open>ct_eq\<close>.\<close>

fun diff_loop :: "u8 \<Rightarrow> bytes \<Rightarrow> bytes \<Rightarrow> u8" where
  "diff_loop diff (x # xs) (y # ys) = diff_loop (diff OR (x XOR y)) xs ys"
| "diff_loop diff _ _ = diff"

definition ct_eq :: "bytes \<Rightarrow> bytes \<Rightarrow> bool" where
  "ct_eq a b = (if length a \<noteq> length b then False else diff_loop 0 a b = 0)"

definition check_auth :: "(bytes \<Rightarrow> bytes option) \<Rightarrow> Header list \<Rightarrow> bytes \<Rightarrow> bool" where
  "check_auth base64_decode headers expected =
     (case Option.bind (get_header headers (ascii ''Authorization'')) (strip_prefix (ascii ''Basic '')) of
        None \<Rightarrow> False
      | Some encoded \<Rightarrow>
          (case base64_decode encoded of
             None \<Rightarrow> False
           | Some decoded \<Rightarrow> ct_eq decoded expected))"

section \<open>Dates, tags and ranges\<close>

record tm =
  tm_wday :: nat
  tm_mday :: nat
  tm_mon :: nat
  tm_year :: int
  tm_hour :: nat
  tm_min :: nat
  tm_sec :: nat

definition DAYS :: "bytes list" where
  "DAYS = map ascii [''Sun'', ''Mon'', ''Tue'', ''Wed'', ''Thu'', ''Fri'', ''Sat'']"

definition MONTHS :: "bytes list" where
  "MONTHS = map ascii [''Jan'', ''Feb'', ''Mar'', ''Apr'', ''May'', ''Jun'',
                       ''Jul'', ''Aug'', ''Sep'', ''Oct'', ''Nov'', ''Dec'']"

definition pad2 :: "nat \<Rightarrow> bytes" where
  "pad2 n = (if n < 10 then 48 # show_nat n else show_nat n)"

definition show_int :: "int \<Rightarrow> bytes" where
  "show_int i = (if i < 0 then 45 # show_nat (nat (- i)) else show_nat (nat i))"

text \<open>\<open>None\<close> is the panic of an index out of range.  \<open>secs\<close> counts from 1970.\<close>

definition format_http_date :: "(nat \<Rightarrow> tm) \<Rightarrow> nat \<Rightarrow> bytes option" where
  "format_http_date gmtime secs =
     (let t = gmtime secs
      in if tm_wday t < length DAYS \<and> tm_mon t < length MONTHS
         then Some (DAYS ! tm_wday t @ ascii '', '' @ pad2 (tm_mday t) @ ascii '' '' @ MONTHS ! tm_mon t @ ascii '' '' @
                    show_int (tm_year t + 1900) @ ascii '' '' @ pad2 (tm_hour t) @ ascii '':'' @ pad2 (tm_min t) @
                    ascii '':'' @ pad2 (tm_sec t) @ ascii '' GMT'')
         else None)"

definition etag_for :: "nat \<Rightarrow> u64 \<Rightarrow> bytes" where
  "etag_for secs file_size = ascii ''W/'' @ [34] @ show_hex secs @ ascii ''-'' @ show_hex (unat file_size) @ [34]"

definition parse_u64 :: "bytes \<Rightarrow> u64 option" where
  "parse_u64 s = map_option of_nat (parse_uint U64_MAX s)"

text \<open>The subtractions wrap, as in a release build.\<close>

definition parse_range :: "bytes \<Rightarrow> u64 \<Rightarrow> (u64 \<times> u64) option" where
  "parse_range val file_size =
     (case strip_prefix (ascii ''bytes='') val of
        None \<Rightarrow> None
      | Some val \<Rightarrow>
          (case split_once 45 val of
             None \<Rightarrow> None
           | Some (start_str, end_str) \<Rightarrow>
               if trim_ws start_str = []
               then (case parse_u64 (trim_ws end_str) of
                       None \<Rightarrow> None
                     | Some n \<Rightarrow> if n = 0 \<or> file_size = 0 then None else Some (file_size - n, file_size - 1))
               else (case parse_u64 (trim_ws start_str) of
                       None \<Rightarrow> None
                     | Some start \<Rightarrow>
                         if file_size = 0 \<or> start \<ge> file_size then None
                         else (case (if trim_ws end_str = [] then Some (file_size - 1)
                                     else map_option (\<lambda>e. min e (file_size - 1)) (parse_u64 (trim_ws end_str))) of
                                 None \<Rightarrow> None
                               | Some en \<Rightarrow> if start \<le> en then Some (start, en) else None))))"

section \<open>Reading from the connection\<close>

text \<open>
  What a connection still delivers: the pieces that successive reads return (none of them empty), and what the
  reads after them do: report the end of the stream, fail, or never return.
\<close>

datatype stream_end = Closed | Broken | Silent

type_synonym input = "bytes list \<times> stream_end"

datatype http_error = InvalidRequest bytes | IoError

datatype 'a outcome = Done 'a | Failed http_error | Panicked | Blocked

definition bind_outcome :: "'a outcome \<Rightarrow> ('a \<Rightarrow> 'b outcome) \<Rightarrow> 'b outcome" where
  "bind_outcome r f = (case r of Done x \<Rightarrow> f x | Failed e \<Rightarrow> Failed e | Panicked \<Rightarrow> Panicked | Blocked \<Rightarrow> Blocked)"

text \<open>
  \<^verbatim>\<open>while !ready(buf) { read and append }\<close>.  The first part of the result is \<open>True\<close> when the
  buffer became ready and \<open>False\<close> when all pieces were read before.
\<close>

fun fill :: "(bytes \<Rightarrow> bool) \<Rightarrow> bytes \<Rightarrow> bytes list \<Rightarrow> bool \<times> bytes \<times> bytes list" where
  "fill ready buf [] = (ready buf, buf, [])"
| "fill ready buf (p # ps) = (if ready buf then (True, buf, p # ps) else fill ready (buf @ p) ps)"

text \<open>The read after the last piece: \<open>at_end\<close> is what the code does when it returns 0.\<close>

definition read_end :: "stream_end \<Rightarrow> 'a outcome \<Rightarrow> 'a outcome" where
  "read_end en at_end = (case en of Closed \<Rightarrow> at_end | Broken \<Rightarrow> Failed IoError | Silent \<Rightarrow> Blocked)"

lemma fill_bytes: "fill ready buf ps = (b, buf', ps') \<Longrightarrow> buf' @ concat ps' = buf @ concat ps"
  by (induction ready buf ps arbitrary: b buf' ps' rule: fill.induct) (auto split: if_splits)

lemma fill_ready: "fill ready buf ps = (b, buf', ps') \<Longrightarrow> b = ready buf' \<and> (\<not> b \<longrightarrow> ps' = [])"
  by (induction ready buf ps arbitrary: b buf' ps' rule: fill.induct) (auto split: if_splits)

lemma fill_now: "ready buf \<Longrightarrow> fill ready buf ps = (True, buf, ps)"
  by (cases ps) auto

section \<open>Chunked bodies\<close>

definition truncated :: http_error where
  "truncated = InvalidRequest (ascii ''chunked body truncated'')"

text \<open>The size in a chunk's first line, without its line end.\<close>

definition chunk_size :: "bytes \<Rightarrow> http_error + nat" where
  "chunk_size line =
     (if \<not> utf8_valid line then Inl (InvalidRequest (ascii ''non-utf8 chunk size''))
      else case parse_radix 16 U64_MAX (trim_ws (hd (split_on 59 line))) of
             None \<Rightarrow> Inl (InvalidRequest (ascii ''bad chunk size: '' @ line))
           | Some n \<Rightarrow> Inr n)"

text \<open>After the chunk of size 0: the body is complete, the trailer is skipped.\<close>

definition after_last_chunk :: "stream_end \<Rightarrow> bytes \<Rightarrow> bytes list \<Rightarrow> bytes \<Rightarrow> (bytes \<times> bytes \<times> bytes list) outcome" where
  "after_last_chunk en buf ps body =
     (if starts_with CRLF buf then Done (body, drop 2 buf, ps)
      else let (ok, buf, ps) = fill (contains_sub (CRLF @ CRLF)) buf ps in
        if ok then Done (body, drop (the (find_sub (CRLF @ CRLF) buf) + 4) buf, ps)
        else read_end en (Done (body, [], ps)))"

text \<open>
  \<^verbatim>\<open>read_chunked_body\<close> gives the body, the bytes read beyond it and the pieces not read.
  \<open>n + 2\<close>, \<open>n\<close> the size, is computed in 64 bits.
\<close>

function chunks_loop :: "stream_end \<Rightarrow> bytes \<Rightarrow> bytes list \<Rightarrow> bytes \<Rightarrow> (bytes \<times> bytes \<times> bytes list) outcome" where
  "chunks_loop en buf ps body =
     (let (ok, buf, ps) = fill (contains_sub CRLF) buf ps in
      if \<not> ok then read_end en (Failed truncated)
      else let line_end = the (find_sub CRLF buf) in
        case chunk_size (take line_end buf) of
          Inl err \<Rightarrow> Failed err
        | Inr n \<Rightarrow>
            let buf = drop (line_end + 2) buf in
            if n = 0 then after_last_chunk en buf ps body
            else let (ok, buf, ps) = fill (\<lambda>buf. length buf \<ge> (n + 2) mod 2 ^ 64) buf ps in
              if \<not> ok then read_end en (Failed truncated)
              else if n > length buf then Panicked
              else chunks_loop en (drop (n + 2) buf) ps (body @ take n buf))"
  by pat_completeness auto
termination
proof (relation "measure (\<lambda>(en, buf, ps, body). length (buf @ concat ps))", simp, goal_cases)
  case (1 en buf ps body x ok x' b1 ps1 line_end n b2 x'' ok2 x''' b3 ps3)
  then have f1: "fill (contains_sub CRLF) buf ps = (ok, b1, ps1)" and ok
    and f2: "fill (\<lambda>buf. length buf \<ge> (n + 2) mod 2 ^ 64) (drop (line_end + 2) b1) ps1 = (ok2, b3, ps3)"
    by auto
  then have "contains_sub CRLF b1" using fill_ready by blast
  then obtain i where "find_sub CRLF b1 = Some i" by (auto simp: contains_sub_def)
  then have "2 \<le> length b1" using find_sub_bound [of CRLF b1] by (simp add: CRLF_def)
  moreover have "length (b1 @ concat ps1) = length (buf @ concat ps)" using fill_bytes [OF f1] by simp
  moreover have "length (b3 @ concat ps3) = length (drop (line_end + 2) b1 @ concat ps1)" using fill_bytes [OF f2] by simp
  ultimately show ?case by simp
qed

declare chunks_loop.simps [simp del]

definition read_chunked_body :: "input \<Rightarrow> bytes \<Rightarrow> (bytes \<times> bytes \<times> input) outcome" where
  "read_chunked_body inp buf0 =
     bind_outcome (chunks_loop (snd inp) buf0 (fst inp) []) (\<lambda>(body, leftover, ps). Done (body, leftover, ps, snd inp))"

definition read_body :: "input \<Rightarrow> bytes \<Rightarrow> Header list \<Rightarrow> (bytes \<times> bytes \<times> input) outcome" where
  "read_body inp buf0 headers =
     (if (case get_header headers (ascii ''Transfer-Encoding'') of
            None \<Rightarrow> False | Some v \<Rightarrow> eq_ignore_ascii_case v (ascii ''chunked''))
      then read_chunked_body inp buf0
      else let content_length =
             (case Option.bind (get_header headers (ascii ''Content-Length'')) (parse_uint U64_MAX) of
                None \<Rightarrow> 0 | Some n \<Rightarrow> n) in
        if content_length = 0 then Done ([], buf0, inp)
        else let (ok, buf, ps) = fill (\<lambda>buf. length buf \<ge> content_length) buf0 (fst inp) in
          if \<not> ok then read_end (snd inp) (Failed (InvalidRequest (ascii ''body truncated'')))
          else Done (take content_length buf, drop content_length buf, ps, snd inp))"

section \<open>Writing\<close>

definition is_compressible :: "bytes \<Rightarrow> bool" where
  "is_compressible ct =
     (starts_with (ascii ''text/'') ct \<or> contains_sub (ascii ''javascript'') ct \<or> contains_sub (ascii ''json'') ct \<or>
      contains_sub (ascii ''xml'') ct \<or> contains_sub (ascii ''svg'') ct)"

text \<open>The bytes each function writes to the stream.\<close>

definition write_chunk :: "bytes \<Rightarrow> bytes" where
  "write_chunk data = show_hex (length data) @ CRLF @ data @ CRLF"

definition write_last_chunk :: bytes where
  "write_last_chunk = ascii ''0'' @ CRLF @ CRLF"

definition write_429 :: bytes where
  "write_429 =
     (let body = ascii ''429 Too Many Requests'' in
      ascii ''HTTP/1.1 429 Too Many Requests'' @ CRLF @ ascii ''Retry-After: 1'' @ CRLF @
      ascii ''Content-Type: text/plain'' @ CRLF @ ascii ''Content-Length: '' @ show_nat (length body) @ CRLF @
      ascii ''Connection: close'' @ CRLF @ CRLF @ body)"

definition write_401 :: bytes where
  "write_401 =
     (let body = ascii ''401 Unauthorized'' in
      ascii ''HTTP/1.1 401 Unauthorized'' @ CRLF @
      ascii ''WWW-Authenticate: Basic realm='' @ [34] @ ascii ''Restricted'' @ [34] @ CRLF @
      ascii ''Content-Type: text/plain'' @ CRLF @ ascii ''Content-Length: '' @ show_nat (length body) @ CRLF @
      ascii ''Connection: close'' @ CRLF @ CRLF @ body)"

definition write_502 :: "bytes \<Rightarrow> bytes" where
  "write_502 reason =
     (let body = ascii ''502 Bad Gateway'' @ [10] @ ascii ''Upstream: '' @ reason in
      ascii ''HTTP/1.1 502 Bad Gateway'' @ CRLF @ ascii ''Content-Type: text/plain'' @ CRLF @
      ascii ''Content-Length: '' @ show_nat (length body) @ CRLF @
      ascii ''Connection: close'' @ CRLF @ CRLF @ body)"

end
