(* ===== verification/Http_Proto_Correct.thy ===== *)
theory Http_Proto_Correct
  imports Http_Proto
begin

text \<open>
  Properties of the HTTP protocol code: the comparison of secrets, message bodies however the connection cuts
  them into pieces, and ranges.
\<close>

section \<open>Authorization\<close>

lemma xor_eq_0: "a XOR b = 0 \<longleftrightarrow> a = (b :: u8)"
  by (auto simp: bit_eq_iff bit_simps)

lemma or_eq_0: "a OR b = 0 \<longleftrightarrow> a = 0 \<and> (b :: u8) = 0"
  by (auto simp: bit_eq_iff bit_simps)

lemma diff_loop_0: "length a = length b \<Longrightarrow> diff_loop d a b = 0 \<longleftrightarrow> d = 0 \<and> a = b"
  by (induction d a b rule: diff_loop.induct) (auto simp: or_eq_0 xor_eq_0)

lemma ct_eq_iff: "ct_eq a b \<longleftrightarrow> a = b"
  by (auto simp: ct_eq_def diff_loop_0)

lemma check_auth_iff:
  "check_auth base64_decode headers expected \<longleftrightarrow>
     (\<exists>encoded. get_header headers (ascii ''Authorization'') = Some (ascii ''Basic '' @ encoded) \<and>
        base64_decode encoded = Some expected)" (is "?l \<longleftrightarrow> ?r")
proof
  show "?r \<Longrightarrow> ?l" by (auto simp: check_auth_def ct_eq_iff)
  show "?l \<Longrightarrow> ?r"
    by (auto simp: check_auth_def ct_eq_iff dest: strip_prefix_Some split: option.splits Option.bind_splits)
qed

text \<open>
  (C31) The comparison that takes the same time for all secrets of a length is equality, and so
  \<^verbatim>\<open>check_auth\<close> accepts exactly the requests whose \<^verbatim>\<open>Authorization\<close> header is
  \<^verbatim>\<open>Basic\<close>, a space and a text that decodes to the expected user and password.
\<close>

theorem check_auth_exact:
  "ct_eq a b = (a = b) \<and>
   check_auth base64_decode headers expected =
     (\<exists>encoded. get_header headers (ascii ''Authorization'') = Some (ascii ''Basic '' @ encoded) \<and>
        base64_decode encoded = Some expected)"
  by (simp add: ct_eq_iff check_auth_iff)

section \<open>Where the connection cuts the stream\<close>

text \<open>The positions, counted from the begin of the buffer, at which a piece ends.\<close>

fun cuts :: "bytes \<Rightarrow> bytes list \<Rightarrow> nat set" where
  "cuts buf [] = {length buf}"
| "cuts buf (p # ps) = Set.insert (length buf) (cuts (buf @ p) ps)"

lemma length_in_cuts: "length buf \<in> cuts buf ps"
  by (cases ps) auto

lemma cuts_fill: "fill ready buf ps = (b, buf', ps') \<Longrightarrow> cuts buf' ps' \<subseteq> cuts buf ps"
  by (induction ready buf ps arbitrary: b buf' ps' rule: fill.induct) (fastforce split: if_splits)+

lemma cuts_drop: "d \<le> length buf \<Longrightarrow> b \<in> cuts (drop d buf) ps \<Longrightarrow> b + d \<in> cuts buf ps"
proof (induction buf ps rule: cuts.induct)
  case (2 buf p ps)
  then show ?case using drop_append [of d buf p] by auto
qed simp

lemma find_sub_append: "find_sub pat xs = Some i \<Longrightarrow> find_sub pat (xs @ ys) = Some i"
proof (induction xs arbitrary: i)
  case (Cons x xs)
  show ?case
  proof (cases "starts_with pat (x # xs)")
    case True
    then have "starts_with pat (x # xs @ ys)"
      unfolding starts_with_def by (metis append_Cons append_take_drop_id append_eq_conv_conj append.assoc)
    then show ?thesis using True Cons.prems by simp
  next
    case False
    then obtain j where j: "find_sub pat xs = Some j" "i = Suc j" using Cons.prems by auto
    have "length pat \<le> length xs" using find_sub_bound [OF j(1)] by simp
    then have "\<not> starts_with pat (x # xs @ ys)"
      using False by (auto simp: starts_with_def take_Cons split: nat.splits)
    then show ?thesis using Cons.IH [OF j(1)] j by simp
  qed
qed simp

lemma find_CRLF: "13 \<notin> set p \<Longrightarrow> find_sub CRLF (p @ CRLF @ s) = Some (length p)"
  by (induction p) (auto simp: CRLF_def starts_with_def)

text \<open>The line at the front of the stream is found, whatever the pieces.\<close>

lemma fill_line:
  assumes "buf @ concat ps = p @ CRLF @ s" "13 \<notin> set p"
  obtains buf' ps' where "fill (contains_sub CRLF) buf ps = (True, buf', ps')" "find_sub CRLF buf' = Some (length p)"
    "take (length p) buf' = p" "length p + 2 \<le> length buf'" "drop (length p + 2) buf' @ concat ps' = s"
proof -
  obtain b buf' ps' where f: "fill (contains_sub CRLF) buf ps = (b, buf', ps')" by (metis prod_cases3)
  have all: "buf' @ concat ps' = p @ CRLF @ s" using fill_bytes [OF f] assms(1) by simp
  have b
  proof (rule ccontr)
    assume "\<not> b"
    then have "ps' = []" "\<not> contains_sub CRLF buf'" using fill_ready [OF f] by auto
    then show False using all find_CRLF [OF assms(2)] by (auto simp: contains_sub_def)
  qed
  then obtain i where i: "find_sub CRLF buf' = Some i" using fill_ready [OF f] by (auto simp: contains_sub_def)
  have i': "i = length p" using find_sub_append [OF i, of "concat ps'"] all find_CRLF [OF assms(2)] by simp
  have len: "length p + 2 \<le> length buf'" using find_sub_bound [OF i] i' by (simp add: CRLF_def)
  have "take (length p) (buf' @ concat ps') = p" "drop (length p + 2) (buf' @ concat ps') = s"
    using all by (simp_all add: CRLF_def)
  then have "take (length p) buf' = p" "drop (length p + 2) buf' @ concat ps' = s" using len by simp_all
  with f \<open>b\<close> i i' len show ?thesis using that by auto
qed

lemma fill_length:
  assumes "n \<le> length (buf @ concat ps)"
  obtains buf' ps' where "fill (\<lambda>b. length b \<ge> n) buf ps = (True, buf', ps')" "n \<le> length buf'"
    "buf' @ concat ps' = buf @ concat ps"
proof -
  obtain b buf' ps' where f: "fill (\<lambda>b. length b \<ge> n) buf ps = (b, buf', ps')" by (metis prod_cases3)
  have all: "buf' @ concat ps' = buf @ concat ps" by (rule fill_bytes [OF f])
  have b using fill_ready [OF f] all assms by (metis append_Nil2 concat.simps(1))
  then show ?thesis using f all fill_ready [OF f] that by auto
qed

section \<open>Chunked bodies\<close>

lemma hex_no_special: "13 \<notin> set (show_hex n)" "59 \<notin> set (show_hex n)"
  using show_hex_chars hex_not_ws by blast+

lemma chunk_size_hex: "n \<le> U64_MAX \<Longrightarrow> chunk_size (show_hex n) = Inr n"
  by (simp add: chunk_size_def utf8_hex split_on_no_sep hex_no_special trim_hex parse_show_hex)

text \<open>One chunk.  If it is in the buffer, no piece is read.\<close>

lemma chunk_step:
  assumes "buf @ concat ps = write_chunk c @ s" "c \<noteq> []" "length c + 2 < 2 ^ 64"
  obtains buf' ps' where "chunks_loop en buf ps body = chunks_loop en buf' ps' (body @ c)" "buf' @ concat ps' = s"
    "\<And>b. b \<in> cuts buf' ps' \<Longrightarrow> b + length (write_chunk c) \<in> cuts buf ps"
    "length (write_chunk c) \<le> length buf \<Longrightarrow> ps' = ps"
proof -
  let ?h = "show_hex (length c)"
  have stream: "buf @ concat ps = ?h @ CRLF @ (c @ CRLF @ s)" using assms(1) by (simp add: write_chunk_def)
  obtain b1 ps1 where f1: "fill (contains_sub CRLF) buf ps = (True, b1, ps1)" "find_sub CRLF b1 = Some (length ?h)"
      "take (length ?h) b1 = ?h" "length ?h + 2 \<le> length b1" "drop (length ?h + 2) b1 @ concat ps1 = c @ CRLF @ s"
    by (rule fill_line [OF stream hex_no_special(1)])
  let ?b2 = "drop (length ?h + 2) b1"
  have "length c + 2 \<le> length (?b2 @ concat ps1)" using f1(5) by (simp add: CRLF_def)
  then obtain b3 ps3 where f2: "fill (\<lambda>b. length b \<ge> length c + 2) ?b2 ps1 = (True, b3, ps3)" "length c + 2 \<le> length b3"
      "b3 @ concat ps3 = ?b2 @ concat ps1"
    by (rule fill_length)
  have "take (length c) (b3 @ concat ps3) = c" "drop (length c + 2) (b3 @ concat ps3) = s"
    using f1(5) f2(3) by (simp_all add: CRLF_def)
  then have b3: "take (length c) b3 = c" "drop (length c + 2) b3 @ concat ps3 = s" using f2(2) by simp_all
  have step: "chunks_loop en buf ps body = chunks_loop en (drop (length c + 2) b3) ps3 (body @ c)"
    using assms(2,3) f1 f2(1,2) b3(1)
    by (subst chunks_loop.simps) (simp add: chunk_size_hex)
  have cut: "b + length (write_chunk c) \<in> cuts buf ps" if "b \<in> cuts (drop (length c + 2) b3) ps3" for b
  proof -
    have "b + (length c + 2) \<in> cuts ?b2 ps1" using cuts_drop [OF f2(2) that] cuts_fill [OF f2(1)] by blast
    from cuts_drop [OF f1(4) this] cuts_fill [OF f1(1)] show ?thesis
      by (auto simp: write_chunk_def CRLF_def algebra_simps)
  qed
  have stay: "ps3 = ps" if "length (write_chunk c) \<le> length buf"
  proof -
    have "take (length (write_chunk c)) (buf @ concat ps) = write_chunk c" using assms(1) by simp
    then have buf: "buf = write_chunk c @ drop (length (write_chunk c)) buf"
      using that by (metis append_take_drop_id diff_is_0_eq append_Nil2 take_append take_eq_Nil)
    have "contains_sub CRLF buf"
      by (subst buf) (simp add: contains_sub_def write_chunk_def find_CRLF hex_no_special)
    then have "b1 = buf" "ps1 = ps" using f1(1) fill_now by auto
    moreover have "length ?b2 \<ge> length c + 2" using calculation that by (simp add: write_chunk_def CRLF_def)
    ultimately show ?thesis using f2(1) fill_now [of "\<lambda>b. length b \<ge> length c + 2" ?b2 ps1] by simp
  qed
  show ?thesis by (rule that [OF step b3(2) cut stay])
qed

lemma chunk_size_0: "chunk_size (ascii ''0'') = Inr 0"
proof -
  have "ascii ''0'' = show_hex 0" by (simp add: ascii_def show_hex_def show_radix.simps digit_char_def)
  then show ?thesis by (simp add: chunk_size_hex)
qed

text \<open>All chunks of a body, then the line of the last chunk.\<close>

definition chunks_ok :: "bytes list \<Rightarrow> bool" where
  "chunks_ok cs = (\<forall>c \<in> set cs. c \<noteq> [] \<and> length c + 2 < 2 ^ 64)"

definition write_chunks :: "bytes list \<Rightarrow> bytes" where
  "write_chunks cs = concat (map write_chunk cs)"

lemma write_chunks_simps [simp]:
  "write_chunks [] = []" "write_chunks (c # cs) = write_chunk c @ write_chunks cs"
  by (simp_all add: write_chunks_def)

lemma chunks_steps:
  assumes "buf @ concat ps = write_chunks cs @ s" "chunks_ok cs"
  obtains buf' ps' where "chunks_loop en buf ps body = chunks_loop en buf' ps' (body @ concat cs)" "buf' @ concat ps' = s"
    "\<And>b. b \<in> cuts buf' ps' \<Longrightarrow> b + length (write_chunks cs) \<in> cuts buf ps"
    "length (write_chunks cs) \<le> length buf \<Longrightarrow> ps' = ps"
  using assms
proof (induction cs arbitrary: buf ps body thesis)
  case Nil
  then show ?case by auto
next
  case (Cons c cs)
  from Cons.prems(2,3) have c: "buf @ concat ps = write_chunk c @ (write_chunks cs @ s)" "c \<noteq> []" "length c + 2 < 2 ^ 64"
    and cs: "chunks_ok cs"
    by (auto simp: chunks_ok_def)
  obtain b1 ps1 where s1: "chunks_loop en buf ps body = chunks_loop en b1 ps1 (body @ c)" "b1 @ concat ps1 = write_chunks cs @ s"
      "\<And>b. b \<in> cuts b1 ps1 \<Longrightarrow> b + length (write_chunk c) \<in> cuts buf ps"
      "length (write_chunk c) \<le> length buf \<Longrightarrow> ps1 = ps"
    using chunk_step [OF c, of en body] by metis
  obtain b2 ps2 where s2: "chunks_loop en b1 ps1 (body @ c) = chunks_loop en b2 ps2 ((body @ c) @ concat cs)" "b2 @ concat ps2 = s"
      "\<And>b. b \<in> cuts b2 ps2 \<Longrightarrow> b + length (write_chunks cs) \<in> cuts b1 ps1"
      "length (write_chunks cs) \<le> length b1 \<Longrightarrow> ps2 = ps1"
    using Cons.IH [OF _ s1(2) cs, of "body @ c"] by metis
  show ?case
  proof (rule Cons.prems(1))
    show "chunks_loop en buf ps body = chunks_loop en b2 ps2 (body @ concat (c # cs))" using s1(1) s2(1) by simp
    show "b2 @ concat ps2 = s" by (rule s2(2))
    show "b + length (write_chunks (c # cs)) \<in> cuts buf ps" if "b \<in> cuts b2 ps2" for b
      using s1(3) [OF s2(3) [OF that]] by (simp add: add_ac)
    show "ps2 = ps" if "length (write_chunks (c # cs)) \<le> length buf"
    proof -
      have ps1: "ps1 = ps" using s1(4) that by simp
      have "length b1 + length (write_chunk c) = length buf"
        using arg_cong [OF c(1), of length] arg_cong [OF s1(2), of length] ps1 by simp
      then show ?thesis using s2(4) ps1 that by simp
    qed
  qed
qed

lemma last_chunk:
  assumes "buf @ concat ps = ascii ''0'' @ CRLF @ s"
  obtains buf' ps' where "chunks_loop en buf ps body = after_last_chunk en buf' ps' body" "buf' @ concat ps' = s"
    "length buf' + 3 \<in> cuts buf ps" "3 \<le> length buf \<Longrightarrow> buf' = drop 3 buf \<and> ps' = ps"
proof -
  have zero: "13 \<notin> set (ascii ''0'')" "length (ascii ''0'') = 1" by (simp_all add: ascii_def)
  obtain b1 ps1 where f: "fill (contains_sub CRLF) buf ps = (True, b1, ps1)" "find_sub CRLF b1 = Some 1"
      "take 1 b1 = ascii ''0''" "3 \<le> length b1" "drop 3 b1 @ concat ps1 = s"
    using fill_line [OF assms zero(1)] zero(2) by (metis add_One_commute one_plus_numeral_commute semiring_norm(3) one_plus_numeral)
  have step: "chunks_loop en buf ps body = after_last_chunk en (drop 3 b1) ps1 body"
    using f by (subst chunks_loop.simps) (simp add: chunk_size_0 numeral_3_eq_3)
  have cut: "length (drop 3 b1) + 3 \<in> cuts buf ps"
    using cuts_fill [OF f(1)] length_in_cuts [of b1 ps1] f(4) by auto
  have stay: "drop 3 b1 = drop 3 buf \<and> ps1 = ps" if "3 \<le> length buf"
  proof -
    have "take 3 (buf @ concat ps) = ascii ''0'' @ CRLF" using assms by (simp add: ascii_def CRLF_def)
    then have "buf = ascii ''0'' @ CRLF @ drop 3 buf"
      using that by (metis append.assoc append_take_drop_id diff_is_0_eq append_Nil2 take_append take_eq_Nil)
    then have "contains_sub CRLF buf" using find_CRLF [OF zero(1)] by (metis contains_sub_def option.distinct(1))
    then show ?thesis using f(1) fill_now by auto
  qed
  show ?thesis by (rule that [OF step f(5) cut stay])
qed

text \<open>
  (C18) Chunked bodies are read as they are written.  When a body is sent as non-empty chunks and a last chunk with
  no trailer, and the connection cuts the stream into pieces anywhere but right before the blank line that ends the body and
  inside it, then \<^verbatim>\<open>read_chunked_body\<close> returns the bytes of the chunks, and nothing that follows the body
  is lost.  The two cuts left out are those at which the code goes wrong: see \<open>cut_before_blank_line\<close> below.
\<close>

theorem chunked_roundtrip:
  assumes "buf @ concat ps = write_chunks cs @ write_last_chunk @ rest" "chunks_ok cs"
    and "length (write_chunks cs) + 3 \<notin> cuts buf ps" "length (write_chunks cs) + 4 \<notin> cuts buf ps"
  shows "\<exists>leftover ps'. read_chunked_body (ps, en) buf = Done (concat cs, leftover, ps', en) \<and> leftover @ concat ps' = rest"
proof -
  obtain b1 ps1 where s1: "chunks_loop en buf ps [] = chunks_loop en b1 ps1 ([] @ concat cs)"
      "b1 @ concat ps1 = write_last_chunk @ rest" "\<And>b. b \<in> cuts b1 ps1 \<Longrightarrow> b + length (write_chunks cs) \<in> cuts buf ps"
    using chunks_steps [OF assms(1,2), of en "[]"] by metis
  from s1(2) have "b1 @ concat ps1 = ascii ''0'' @ CRLF @ (CRLF @ rest)" by (simp add: write_last_chunk_def)
  then obtain b2 ps2 where s2: "chunks_loop en b1 ps1 (concat cs) = after_last_chunk en b2 ps2 (concat cs)"
      "b2 @ concat ps2 = CRLF @ rest" "length b2 + 3 \<in> cuts b1 ps1"
    using last_chunk [of b1 ps1 "CRLF @ rest" en "concat cs"] by metis
  from s1(3) [OF s2(3)] assms(3,4) have len: "2 \<le> length b2"
    by (cases "length b2"; cases "length b2 - 1") (auto simp: add_ac numeral_eq_Suc)
  have "take 2 (b2 @ concat ps2) = CRLF" using s2(2) by (simp add: CRLF_def)
  then have b2: "b2 = CRLF @ drop 2 b2" using len by (metis append_take_drop_id diff_is_0_eq append_Nil2 take_append take_eq_Nil)
  then have "starts_with CRLF b2" by (metis starts_with_append)
  then have "chunks_loop en buf ps [] = Done (concat cs, drop 2 b2, ps2)"
    using s1(1) s2(1) by (simp add: after_last_chunk_def)
  moreover have "drop 2 b2 @ concat ps2 = rest" using s2(2) b2 by (metis append.assoc append_same_eq same_append_eq)
  ultimately show ?thesis by (simp add: read_chunked_body_def bind_outcome_def)
qed

definition hi_chunk :: bytes where "hi_chunk = ascii ''hi''"

lemma hi_stream: "write_chunk hi_chunk = ascii ''2'' @ CRLF @ ascii ''hi'' @ CRLF"
  by (simp add: write_chunk_def hi_chunk_def ascii_def show_hex_def show_radix.simps digit_char_def)

theorem chunked_roundtrip_witness:
  "\<exists>leftover ps'. read_chunked_body ([ascii ''i'' @ CRLF @ write_last_chunk @ ascii ''GET''], Silent) (ascii ''2'' @ CRLF @ ascii ''h'') =
     Done (hi_chunk, leftover, ps', Silent) \<and> leftover @ concat ps' = ascii ''GET''"
  using chunked_roundtrip [of "ascii ''2'' @ CRLF @ ascii ''h''" "[ascii ''i'' @ CRLF @ write_last_chunk @ ascii ''GET'']"
      "[hi_chunk]" "ascii ''GET''" Silent]
  by (simp add: hi_stream chunks_ok_def write_last_chunk_def) (simp add: hi_chunk_def ascii_def CRLF_def)

text \<open>
  A cut before the blank line loses requests.  When the pieces end between the line of the last chunk and the
  blank line after it, the blank line is taken for the begin of a trailer: everything up to the next blank line is
  skipped, which is the head of the next request when one follows, and when nothing follows, the read waits
  although the body is complete.
\<close>

theorem cut_before_blank_line:
  assumes "chunks_ok cs"
  shows "(find_sub (CRLF @ CRLF) (CRLF @ later) = Some i \<longrightarrow>
      read_chunked_body ((CRLF @ later) # ps, en) (write_chunks cs @ ascii ''0'' @ CRLF) =
        Done (concat cs, drop (i + 4) (CRLF @ later), ps, en)) \<and>
    read_chunked_body ([CRLF], Silent) (write_chunks cs @ ascii ''0'' @ CRLF) = Blocked"
proof (intro conjI impI)
  let ?buf = "write_chunks cs @ ascii ''0'' @ CRLF"
  have three: "length (ascii ''0'' @ CRLF) = 3" by (simp add: ascii_def CRLF_def)
  have loop: "chunks_loop en ?buf ps [] = after_last_chunk en [] ps (concat cs)" for en ps
  proof -
    have "?buf @ concat ps = write_chunks cs @ (ascii ''0'' @ CRLF @ concat ps)" by simp
    then obtain b1 where s1: "chunks_loop en ?buf ps [] = chunks_loop en b1 ps (concat cs)"
        "b1 @ concat ps = ascii ''0'' @ CRLF @ concat ps"
      using chunks_steps [OF _ assms, of ?buf ps "ascii ''0'' @ CRLF @ concat ps" en "[]"] by fastforce
    then have b1: "b1 = ascii ''0'' @ CRLF" by (metis append.assoc append_same_eq)
    then have "3 \<le> length b1" "drop 3 b1 = []" using three by simp_all
    then show ?thesis using s1 last_chunk [OF s1(2), of en "concat cs"] by (metis)
  qed
  have none: "\<not> starts_with CRLF []" "\<not> contains_sub (CRLF @ CRLF) []" by (simp_all add: starts_with_def contains_sub_def CRLF_def)
  show "read_chunked_body ((CRLF @ later) # ps, en) ?buf = Done (concat cs, drop (i + 4) (CRLF @ later), ps, en)"
    if "find_sub (CRLF @ CRLF) (CRLF @ later) = Some i"
    using that none fill_now [of "contains_sub (CRLF @ CRLF)" "CRLF @ later" ps]
    by (simp add: read_chunked_body_def loop after_last_chunk_def contains_sub_def bind_outcome_def)
  have "\<not> contains_sub (CRLF @ CRLF) CRLF" by (simp add: contains_sub_def CRLF_def starts_with_def)
  then show "read_chunked_body ([CRLF], Silent) ?buf = Blocked"
    using none by (simp add: read_chunked_body_def loop after_last_chunk_def bind_outcome_def read_end_def)
qed

text \<open>The head of a request of one line and its blank line are lost; only its body \<^verbatim>\<open>x\<close> is left.\<close>

theorem cut_before_blank_line_witness:
  "read_chunked_body ([CRLF @ ascii ''GET / HTTP/1.1'' @ CRLF @ CRLF @ ascii ''x''], Silent)
     (write_chunks [hi_chunk] @ ascii ''0'' @ CRLF) = Done (hi_chunk, ascii ''x'', [], Silent)"
proof -
  have "find_sub (CRLF @ CRLF) (CRLF @ ascii ''GET / HTTP/1.1'' @ CRLF @ CRLF @ ascii ''x'') = Some 16"
    by (simp add: CRLF_def ascii_def starts_with_def)
  then show ?thesis
    using cut_before_blank_line [of "[hi_chunk]" "ascii ''GET / HTTP/1.1'' @ CRLF @ CRLF @ ascii ''x''" 16 "[]" Silent]
    by (simp add: chunks_ok_def) (simp add: hi_chunk_def ascii_def CRLF_def)
qed

section \<open>Bodies with a length\<close>

text \<open>
  A body with a \<^verbatim>\<open>Content-Length\<close> is that many bytes of the stream, whatever the pieces; all that
  follows is kept for the next request.  When the stream ends before, the request fails.
\<close>

theorem content_length_body:
  assumes "get_header headers (ascii ''Transfer-Encoding'') = None"
    and "get_header headers (ascii ''Content-Length'') = Some (show_nat n)" "n \<le> U64_MAX"
  shows "(n \<le> length (buf @ concat ps) \<longrightarrow>
      (\<exists>leftover ps'. read_body (ps, en) buf headers = Done (take n (buf @ concat ps), leftover, ps', en) \<and>
         leftover @ concat ps' = drop n (buf @ concat ps))) \<and>
    (length (buf @ concat ps) < n \<longrightarrow>
      read_body (ps, Closed) buf headers = Failed (InvalidRequest (ascii ''body truncated'')))"
proof (intro conjI impI)
  note hdr = assms(1,2) parse_show_nat [OF assms(3)]
  show "\<exists>leftover ps'. read_body (ps, en) buf headers = Done (take n (buf @ concat ps), leftover, ps', en) \<and>
      leftover @ concat ps' = drop n (buf @ concat ps)" if len: "n \<le> length (buf @ concat ps)"
  proof (cases "n = 0")
    case True
    then show ?thesis using parse_show_nat [of 0 U64_MAX] by (simp add: read_body_def hdr)
  next
    case False
    obtain b ps' where f: "fill (\<lambda>b. length b \<ge> n) buf ps = (True, b, ps')" "n \<le> length b"
        "b @ concat ps' = buf @ concat ps"
      by (rule fill_length [OF len])
    then have "take n b = take n (buf @ concat ps)" "drop n b @ concat ps' = drop n (buf @ concat ps)"
      by (simp_all flip: f(3))
    then show ?thesis using False f(1) by (simp add: read_body_def hdr)
  qed
  show "read_body (ps, Closed) buf headers = Failed (InvalidRequest (ascii ''body truncated''))"
    if short: "length (buf @ concat ps) < n"
  proof -
    obtain ok b ps' where f: "fill (\<lambda>b. length b \<ge> n) buf ps = (ok, b, ps')" by (metis prod_cases3)
    have "\<not> ok" using fill_ready [OF f] arg_cong [OF fill_bytes [OF f], of length] short by simp
    then show ?thesis using f short by (simp add: read_body_def hdr read_end_def)
  qed
qed

theorem content_length_body_witness:
  "\<exists>leftover ps'. read_body ([ascii ''lo!''], Silent) (ascii ''hel'') [\<lparr>h_name = ascii ''content-length'', h_value = ascii ''5''\<rparr>] =
     Done (ascii ''hello'', leftover, ps', Silent) \<and> leftover @ concat ps' = ascii ''!''"
proof -
  have five: "show_nat 5 = ascii ''5''" by (simp add: show_nat_def show_radix.simps digit_char_def ascii_def)
  have hdr: "get_header [\<lparr>h_name = ascii ''content-length'', h_value = ascii ''5''\<rparr>] (ascii ''Transfer-Encoding'') = None"
      "get_header [\<lparr>h_name = ascii ''content-length'', h_value = ascii ''5''\<rparr>] (ascii ''Content-Length'') = Some (show_nat 5)"
    by (simp_all add: get_header_def eq_ignore_ascii_case_def to_ascii_lowercase_def in_range_def five) (simp_all add: ascii_def)
  show ?thesis
    using content_length_body [OF hdr, of "ascii ''hel''" "[ascii ''lo!'']" Silent] by (simp add: ascii_def)
qed

section \<open>Ranges\<close>

definition long_suffix :: "bytes \<Rightarrow> u64 \<Rightarrow> bool" where
  "long_suffix val file_size =
     (\<exists>s t n. val = ascii ''bytes='' @ s @ 45 # t \<and> trim_ws s = [] \<and> parse_u64 (trim_ws t) = Some n \<and> file_size < n)"

text \<open>
  A range that \<^verbatim>\<open>parse_range\<close> accepts ends inside the file and begins at or before its end, except
  when the header asks for more bytes from the end than the file has.
\<close>

theorem parse_range_inside:
  assumes "parse_range val file_size = Some (start, en)"
  shows "en < file_size \<and> (start \<le> en \<or> long_suffix val file_size)"
proof -
  have le: "file_size - 1 < file_size" if "file_size \<noteq> 0"
    using that by (simp add: word_less_nat_alt unat_minus_one unat_gt_0)
  obtain v where v1: "strip_prefix (ascii ''bytes='') val = Some v"
    using assms by (cases "strip_prefix (ascii ''bytes='') val") (simp_all add: parse_range_def)
  obtain s t where v2: "split_once 45 v = Some (s, t)"
    using assms v1 by (cases "split_once 45 v"; cases "the (split_once 45 v)") (simp_all add: parse_range_def)
  note pr = assms [unfolded parse_range_def v1 v2 option.case prod.case]
  have val: "val = ascii ''bytes='' @ s @ 45 # t" using strip_prefix_Some [OF v1] split_once_Some [OF v2] by simp
  show ?thesis
  proof (cases "trim_ws s = []")
    case True
    then obtain n where n: "parse_u64 (trim_ws t) = Some n" "n \<noteq> 0" "file_size \<noteq> 0" "start = file_size - n" "en = file_size - 1"
      using pr by (cases "parse_u64 (trim_ws t)") (auto split: if_splits)
    have "start \<le> en" if "\<not> file_size < n"
      using that n(2-5) unat_gt_0 [of n] by (simp add: word_le_nat_alt unat_sub_if' not_less word_less_nat_alt)
    then show ?thesis using le n val True by (auto simp: long_suffix_def)
  next
    case False
    then show ?thesis using pr le
      by (cases "parse_u64 (trim_ws s)") (auto simp: min_def split: option.splits if_splits)
  qed
qed

lemma ascii_append: "ascii (s @ t) = ascii s @ ascii t"
  by (simp add: ascii_def)

lemma ascii_Cons: "ascii (c # s) = of_char c # ascii s" "ascii [] = []"
  by (simp_all add: ascii_def)

lemma parse_range_suffix:
  assumes "0 < n" "n \<le> U64_MAX" "file_size \<noteq> 0"
  shows "parse_range (ascii ''bytes=-'' @ show_nat n) file_size = Some (file_size - of_nat n, file_size - 1)"
proof -
  have "ascii ''bytes=-'' @ show_nat n = ascii ''bytes='' @ [45] @ show_nat n" by (simp add: ascii_def)
  then have "strip_prefix (ascii ''bytes='') (ascii ''bytes=-'' @ show_nat n) = Some ([45] @ show_nat n)"
    using strip_prefix_append by metis
  moreover have "unat (of_nat n :: u64) = n" using assms(2) by (simp add: unat_of_nat)
  then have "(of_nat n :: u64) \<noteq> 0" using assms(1) by (metis less_irrefl unat_0)
  ultimately show ?thesis
    using assms by (simp add: parse_range_def trim_nat parse_u64_def parse_show_nat)
qed

theorem parse_range_inside_witness:
  "parse_range (ascii ''bytes=-3'') 10 = Some (7, 9) \<and> (9 :: u64) < 10"
proof -
  have "show_nat 3 = ascii ''3''" by (simp add: show_nat_def show_radix.simps digit_char_def ascii_def)
  then have "parse_range (ascii ''bytes=-3'') 10 = Some (7, 9)"
    using parse_range_suffix [of 3 10] ascii_append [of "''bytes=-''" "''3''"] by simp
  then show ?thesis using parse_range_inside by blast
qed

text \<open>
  A request for the last \<open>n\<close> bytes of a shorter file, which asks for the whole file, gets a range that
  begins beyond the end of the file: the subtraction wraps, and the announced length is \<open>n\<close>, more than the
  file has.
\<close>

theorem long_suffix_wraps:
  assumes "file_size \<noteq> 0" "unat file_size < n" "n \<le> U64_MAX"
  shows "\<exists>start en. parse_range (ascii ''bytes=-'' @ show_nat n) file_size = Some (start, en) \<and>
    file_size < start \<and> unat (en - start + 1) = n"
proof -
  have n: "unat (of_nat n :: u64) = n" using assms(3) by (simp add: unat_of_nat)
  have "file_size < file_size - of_nat n"
    using assms n by (simp add: word_less_nat_alt unat_sub_if' unat_gt_0)
  moreover have "(file_size - 1) - (file_size - of_nat n) + 1 = (of_nat n :: u64)" by simp
  ultimately show ?thesis using parse_range_suffix [of n file_size] assms n by auto
qed

theorem long_suffix_wraps_witness:
  "\<exists>start en. parse_range (ascii ''bytes=-'' @ show_nat 11) 10 = Some (start, en) \<and> 10 < start \<and> unat (en - start + 1) = 11"
  using long_suffix_wraps [of 10 11] by simp

end
