(* ===== verification/Seconds.thy ===== *)
theory Seconds
  imports Complex_Main Prelude
begin

text \<open>
  \<^verbatim>\<open>Duration::as_secs_f64\<close>.  \<^verbatim>\<open>f64\<close> numbers are exact rationals or, where a square root is taken, reals in this
  development, so rounding is not modelled.
\<close>

definition as_secs :: "duration \<Rightarrow> 'a :: linordered_field" where
  "as_secs d = of_nat d / 1000000000"

lemma as_secs_nonneg [simp]: "0 \<le> as_secs d"
  by (simp add: as_secs_def)

lemma as_secs_diff: "a \<le> b \<Longrightarrow> b \<le> c \<Longrightarrow> as_secs (b - a) + as_secs (c - b) = as_secs (c - a)"
  by (simp add: as_secs_def of_nat_diff add_divide_distrib [symmetric])

end
