(* ===== verification/Rate_Limiter.thy ===== *)
theory Rate_Limiter
  imports Seconds
begin

text \<open>
  \<^verbatim>\<open>minicaddy/src/rate_limiter.rs\<close>: the token bucket.  \<^verbatim>\<open>f64\<close> numbers are exact
  rationals here, so rounding is not modelled.  The mutex makes a call one step; its reading of the clock is
  an argument.

  The locale \<open>potential_limiter\<close> states what an admission control needs so that the number of admitted
  requests is bounded, \<open>capped_limiter\<close> what makes the bound hold from any moment on; the bucket is an
  interpretation of both, its tokens the potential and its burst the ceiling.
\<close>

section \<open>The code\<close>

record TokenBucket =
  tokens :: rat
  last_refill :: instant
  rate :: rat
  burst :: rat

definition token_bucket_new :: "instant \<Rightarrow> rat \<Rightarrow> rat \<Rightarrow> TokenBucket" where
  "token_bucket_new now r b = \<lparr>tokens = b, last_refill = now, rate = r, burst = b\<rparr>"

definition try_consume :: "instant \<Rightarrow> TokenBucket \<Rightarrow> bool \<times> TokenBucket" where
  "try_consume now b =
     (let elapsed = as_secs (now - last_refill b);
          b = b\<lparr>tokens := min (tokens b + elapsed * rate b) (burst b), last_refill := now\<rparr>
      in if tokens b \<ge> 1 then (True, b\<lparr>tokens := tokens b - 1\<rparr>) else (False, b))"

text \<open>The answers to the requests that come at the given times.\<close>

fun consume_all :: "instant list \<Rightarrow> TokenBucket \<Rightarrow> bool list \<times> TokenBucket" where
  "consume_all [] b = ([], b)"
| "consume_all (now # ts) b =
     (let (allowed, b) = try_consume now b; (rest, b) = consume_all ts b in (allowed # rest, b))"

section \<open>Bounding what is admitted\<close>

locale potential_limiter =
  fixes step :: "instant \<Rightarrow> 's \<Rightarrow> bool \<times> 's"
    and ok :: "'s \<Rightarrow> bool"
    and time :: "'s \<Rightarrow> instant"
    and level :: "'s \<Rightarrow> rat"
    and speed :: rat
  assumes step_ok: "ok s \<Longrightarrow> ok (snd (step t s))"
    and step_time: "ok s \<Longrightarrow> time (snd (step t s)) = t"
    and level_nonneg: "ok s \<Longrightarrow> 0 \<le> level s"
    and step_level: "ok s \<Longrightarrow> time s \<le> t \<Longrightarrow>
      (if fst (step t s) then 1 else 0) + level (snd (step t s)) \<le> level s + as_secs (t - time s) * speed"
begin

fun admit_all :: "instant list \<Rightarrow> 's \<Rightarrow> bool list \<times> 's" where
  "admit_all [] s = ([], s)"
| "admit_all (t # ts) s = (let (a, s) = step t s; (rest, s) = admit_all ts s in (a # rest, s))"

lemma admitted_level:
  "ok s \<Longrightarrow> sorted (time s # ts) \<Longrightarrow>
     of_nat (count_list (fst (admit_all ts s)) True) + level (snd (admit_all ts s)) \<le>
       level s + as_secs (last (time s # ts) - time s) * speed"
proof (induction ts arbitrary: s)
  case (Cons t ts)
  obtain a s1 where st: "step t s = (a, s1)" by (cases "step t s")
  have s1: "ok s1" "time s1 = t" using step_ok [OF Cons.prems(1), of t] step_time [OF Cons.prems(1), of t] st by simp_all
  have "time s \<le> t" "sorted (time s1 # ts)" "t \<le> last (t # ts)" using Cons.prems s1 by (auto split: if_splits)
  have lvl: "(if a then 1 else 0) + level s1 \<le> level s + as_secs (t - time s) * speed"
    using step_level [OF Cons.prems(1) \<open>time s \<le> t\<close>] st by simp
  have rest: "of_nat (count_list (fst (admit_all ts s1)) True) + level (snd (admit_all ts s1)) \<le>
      level s1 + as_secs (last (t # ts) - t) * speed"
    using Cons.IH [OF s1(1) \<open>sorted (time s1 # ts)\<close>] s1(2) by simp
  have secs: "as_secs (t - time s) * speed + as_secs (last (t # ts) - t) * speed = as_secs (last (t # ts) - time s) * speed"
    unfolding distrib_right [symmetric] as_secs_diff [OF \<open>time s \<le> t\<close> \<open>t \<le> last (t # ts)\<close>] by (rule refl)
  have eqs: "of_nat (count_list (fst (admit_all (t # ts) s)) True) =
      (if a then 1 else 0) + (of_nat (count_list (fst (admit_all ts s1)) True) :: rat)"
      "snd (admit_all (t # ts) s) = snd (admit_all ts s1)" "last (time s # t # ts) = last (t # ts)"
    by (simp_all add: st case_prod_beta)
  show ?case unfolding eqs using rest secs lvl by linarith
qed (simp add: as_secs_def)

lemma admitted_ok: "ok s \<Longrightarrow> ok (snd (admit_all ts s))"
  by (induction ts arbitrary: s) (auto simp: case_prod_beta step_ok)

lemma admitted_bound:
  assumes "ok s" "sorted (time s # ts)"
  shows "of_nat (count_list (fst (admit_all ts s)) True) \<le> level s + as_secs (last (time s # ts) - time s) * speed"
  using admitted_level [OF assms] level_nonneg [OF admitted_ok [OF assms(1), of ts]] by simp

lemma admit_all_append:
  "fst (admit_all (us @ ts) s) = fst (admit_all us s) @ fst (admit_all ts (snd (admit_all us s)))"
  "length (fst (admit_all us s)) = length us"
  by (induction us arbitrary: s) (simp_all add: case_prod_beta)

end

text \<open>
  A limiter with a ceiling: a request together with what it leaves never counts for more than \<open>cap\<close>, however
  long the limiter was left alone.  So the bound holds from any moment on, whatever has happened before it.
\<close>

locale capped_limiter = potential_limiter +
  fixes cap :: rat
  assumes level_cap: "ok s \<Longrightarrow> (if fst (step t s) then 1 else 0) + level (snd (step t s)) \<le> cap"
begin

lemma interval_bound:
  assumes "ok s" "sorted (t # ts)"
  shows "of_nat (count_list (fst (admit_all (t # ts) s)) True) \<le> cap + as_secs (last (t # ts) - t) * speed"
proof -
  have s1: "ok (snd (step t s))" "time (snd (step t s)) = t" using step_ok step_time assms(1) by simp_all
  have "of_nat (count_list (fst (admit_all ts (snd (step t s)))) True) \<le>
      level (snd (step t s)) + as_secs (last (t # ts) - t) * speed"
    using admitted_bound [OF s1(1), of ts] assms(2) by (simp add: s1(2))
  moreover have "of_nat (count_list (fst (admit_all (t # ts) s)) True) =
      (if fst (step t s) then 1 else 0) + (of_nat (count_list (fst (admit_all ts (snd (step t s)))) True) :: rat)"
    by (simp add: case_prod_beta)
  ultimately show ?thesis using level_cap [OF assms(1), of t] by linarith
qed

lemma interval_bound_later:
  assumes "ok s" "sorted (t # ts)"
  shows "of_nat (count_list (drop (length us) (fst (admit_all (us @ t # ts) s))) True) \<le>
    cap + as_secs (last (t # ts) - t) * speed"
  using interval_bound [OF admitted_ok [OF assms(1), of us] assms(2)]
  by (simp add: admit_all_append del: admit_all.simps)

end

section \<open>The bucket\<close>

definition bucket_ok :: "rat \<Rightarrow> rat \<Rightarrow> TokenBucket \<Rightarrow> bool" where
  "bucket_ok r b s = (rate s = r \<and> burst s = b \<and> 0 \<le> r \<and> 0 \<le> b \<and> 0 \<le> tokens s \<and> tokens s \<le> b)"

interpretation bucket: capped_limiter try_consume "bucket_ok r b" last_refill tokens r b for r b
proof (unfold_locales, goal_cases)
  case (1 s t)
  then show ?case by (auto simp: bucket_ok_def try_consume_def Let_def)
next
  case (2 s t)
  then show ?case by (simp add: try_consume_def Let_def)
next
  case (3 s)
  then show ?case by (simp add: bucket_ok_def)
next
  case (4 s t)
  then show ?case by (auto simp: bucket_ok_def try_consume_def Let_def min_def)
next
  case (5 s t)
  then show ?case by (auto simp: bucket_ok_def try_consume_def Let_def)
qed

lemma consume_all_admit: "consume_all ts s = bucket.admit_all ts s"
  by (induction ts arbitrary: s) (auto simp: case_prod_beta)

section \<open>Properties\<close>

text \<open>
  (C32) The limiter keeps its promise over every interval: whatever requests \<open>us\<close> the bucket has seen since it
  was made, and however long it was idle, of the requests that come at \<open>t\<close> and at the later times \<open>ts\<close> at most
  \<open>burst\<close> plus \<open>rate\<close> times the seconds from \<open>t\<close> to the last of them are let through.
\<close>

theorem rate_limit_bound:
  assumes "0 \<le> r" "0 \<le> b" "sorted (t # ts)"
  shows "of_nat (count_list (drop (length us) (fst (consume_all (us @ t # ts) (token_bucket_new t0 r b)))) True)
    \<le> b + as_secs (last (t # ts) - t) * r"
proof -
  have "bucket_ok r b (token_bucket_new t0 r b)" using assms by (simp add: bucket_ok_def token_bucket_new_def)
  from bucket.interval_bound_later [OF this assms(3)] show ?thesis unfolding consume_all_admit .
qed

text \<open>
  Two requests in a burst, an hour of silence, then five requests within half a second: three of them pass.
\<close>

theorem rate_limit_bound_witness:
  "count_list (drop 2 (fst (consume_all ([0, 0] @ 3600000000000 # [3600000000000, 3600000000000, 3600500000000,
      3600500000000]) (token_bucket_new 0 2 2)))) True = 3 \<and>
   of_nat (count_list (drop 2 (fst (consume_all ([0, 0] @ 3600000000000 # [3600000000000, 3600000000000, 3600500000000,
      3600500000000]) (token_bucket_new 0 2 2)))) True) \<le> (2 + as_secs 500000000 * 2 :: rat)"
  using rate_limit_bound [of 2 2 3600000000000 "[3600000000000, 3600000000000, 3600500000000, 3600500000000]" "[0, 0]" 0]
  by (simp add: try_consume_def token_bucket_new_def as_secs_def)

text \<open>
  A request is refused only when the bucket is empty.  After a request at \<open>t\<close>, a request is let
  through exactly when the tokens left then, with what has come in since, are at least one, and the bucket
  never holds more than \<open>burst\<close>.
\<close>

theorem consume_exact:
  assumes "bucket_ok r b s"
  shows "fst (try_consume now s) = (1 \<le> b \<and> 1 \<le> tokens s + as_secs (now - last_refill s) * r) \<and>
    bucket_ok r b (snd (try_consume now s))"
  using assms bucket.step_ok [OF assms, of now] by (auto simp: bucket_ok_def try_consume_def Let_def)

theorem consume_exact_witness:
  "fst (try_consume 1000000000 \<lparr>tokens = 0, last_refill = 0, rate = 1, burst = 5\<rparr>) \<and>
   \<not> fst (try_consume 999999999 \<lparr>tokens = 0, last_refill = 0, rate = 1, burst = 5\<rparr>)"
  using consume_exact [of 1 5 "\<lparr>tokens = 0, last_refill = 0, rate = 1, burst = 5\<rparr>" 1000000000]
    consume_exact [of 1 5 "\<lparr>tokens = 0, last_refill = 0, rate = 1, burst = 5\<rparr>" 999999999]
  by (simp add: bucket_ok_def as_secs_def)

end
