(* ===== verification/File_Tree.thy ===== *)
theory File_Tree
  imports Text_Scan "HOL-Library.Sublist" "HOL-Library.List_Lexorder"
begin

text \<open>
  What the file server uses of \<^verbatim>\<open>std::fs\<close> and \<^verbatim>\<open>std::path\<close>: a tree of files, directories and symbolic
  links that does not change while a request is served, \<^verbatim>\<open>canonicalize\<close>, \<^verbatim>\<open>Path::join\<close>,
  \<^verbatim>\<open>starts_with\<close> and \<^verbatim>\<open>extension\<close>.  Names are UTF-8; permissions and I/O errors are left out.
\<close>

datatype node = FileNode bytes nat | DirNode | LinkNode bytes

text \<open>
  The nodes by their place: the names on the way from the root of the file system.  A file has its contents and
  the time of its last change in seconds, a link the path it holds.
\<close>

type_synonym file_tree = "(bytes list \<times> node) list"

definition node_at :: "file_tree \<Rightarrow> bytes list \<Rightarrow> node option" where
  "node_at t p = (if p = [] then Some DirNode else map_of t p)"

section \<open>Resolving a path\<close>

text \<open>Linux follows at most 40 links in one path.\<close>

definition MAXSYMLINKS :: nat where "MAXSYMLINKS = 40"

function walk_path :: "file_tree \<Rightarrow> nat \<Rightarrow> bytes list \<Rightarrow> bytes list \<Rightarrow> bytes list option" where
  "walk_path t links cur [] = Some cur"
| "walk_path t links cur (c # cs) =
     (if node_at t cur \<noteq> Some DirNode then None
      else if c = [] \<or> c = ascii ''.'' then walk_path t links cur cs
      else if c = ascii ''..'' then walk_path t links (butlast cur) cs
      else case node_at t (cur @ [c]) of
             None \<Rightarrow> None
           | Some (LinkNode target) \<Rightarrow>
               if links = 0 \<or> target = [] then None
               else walk_path t (links - 1) (if starts_with (ascii ''/'') target then [] else cur) (split_on 47 target @ cs)
           | Some _ \<Rightarrow> walk_path t links (cur @ [c]) cs)"
  by pat_completeness auto
termination
  by (relation "measures [\<lambda>(t, links, cur, cs). links, \<lambda>(t, links, cur, cs). length cs]") auto

text \<open>\<^verbatim>\<open>Path::canonicalize\<close>, in the working directory \<open>cwd\<close>.\<close>

definition canonicalize :: "file_tree \<Rightarrow> bytes list \<Rightarrow> bytes \<Rightarrow> bytes list option" where
  "canonicalize t cwd s =
     (if s = [] then None
      else walk_path t MAXSYMLINKS (if starts_with (ascii ''/'') s then [] else cwd) (split_on 47 s))"

definition path_join :: "bytes \<Rightarrow> bytes \<Rightarrow> bytes" where
  "path_join root rel =
     (if starts_with (ascii ''/'') rel then rel
      else if root \<noteq> [] \<and> last root \<noteq> 47 then root @ [47] @ rel
      else root @ rel)"

definition file_extension :: "bytes list \<Rightarrow> bytes option" where
  "file_extension p =
     (if p = [] then None
      else case rsplit_once 46 (last p) of
             None \<Rightarrow> None
           | Some (before, after) \<Rightarrow> if before = [] then None else Some after)"

text \<open>\<^verbatim>\<open>read_dir\<close>: the names in a directory, and which of them are directories.\<close>

definition read_dir :: "file_tree \<Rightarrow> bytes list \<Rightarrow> (bytes \<times> bool) list" where
  "read_dir t p = [(last q, n = DirNode). (q, n) \<leftarrow> t, q \<noteq> [] \<and> butlast q = p]"

section \<open>Real places\<close>

text \<open>A place whose way from the root goes through directories only: nothing on it is a link.\<close>

definition real_place :: "file_tree \<Rightarrow> bytes list \<Rightarrow> bool" where
  "real_place t p =
     ((\<forall>k < length p. node_at t (take k p) = Some DirNode) \<and>
      (\<exists>n. node_at t p = Some n \<and> (\<forall>target. n \<noteq> LinkNode target)))"

lemma real_place_root: "real_place t []"
  by (simp add: real_place_def node_at_def)

lemma real_place_butlast:
  assumes "real_place t p"
  shows "real_place t (butlast p)"
proof (cases "p = []")
  case False
  have "node_at t (take k (butlast p)) = Some DirNode" if "k \<le> length (butlast p)" for k
  proof -
    have "length (butlast p) < length p" using False by simp
    with that have "k < length p" by (rule le_less_trans)
    moreover from this have "take k (butlast p) = take k p" by (simp add: take_butlast)
    ultimately show ?thesis using assms by (simp add: real_place_def)
  qed
  then show ?thesis unfolding real_place_def by (metis le_refl node.distinct(5) nat_less_le take_all)
qed (simp add: real_place_root)

lemma real_place_child:
  assumes "real_place t p" "node_at t p = Some DirNode" "node_at t (p @ [c]) = Some n" "\<And>target. n \<noteq> LinkNode target"
  shows "real_place t (p @ [c])"
  using assms unfolding real_place_def by (auto simp: less_Suc_eq)

lemma walk_real: "walk_path t links cur cs = Some p \<Longrightarrow> real_place t cur \<Longrightarrow> real_place t p"
proof (induction t links cur cs rule: walk_path.induct)
  case (2 t links cur c cs)
  have cur: "node_at t cur = Some DirNode" using "2.prems"(1) by (auto split: if_splits)
  show ?case
  proof (cases "c = [] \<or> c = ascii ''.'' \<or> c = ascii ''..''")
    case True
    then show ?thesis
      using "2.prems" "2.IH"(1,2) cur by (auto simp: real_place_butlast split: if_splits)
  next
    case False
    then obtain n where n: "node_at t (cur @ [c]) = Some n" using "2.prems"(1) cur by (auto split: option.splits)
    show ?thesis
    proof (cases n)
      case (LinkNode target)
      then show ?thesis
        using False n cur "2.prems" "2.IH" real_place_root by (auto split: if_splits)
    next
      case (FileNode x y)
      then show ?thesis using False n cur "2.prems" "2.IH" real_place_child [of t cur c n] by auto
    next
      case DirNode
      then show ?thesis using False n cur "2.prems" "2.IH" real_place_child [of t cur c n] by auto
    qed
  qed
qed simp

lemma canonicalize_real:
  assumes "canonicalize t cwd s = Some p" "real_place t cwd"
  shows "real_place t p"
  using assms walk_real real_place_root unfolding canonicalize_def by (metis option.distinct(1))

end
