(* ===== verification/Http_Files.thy ===== *)
theory Http_Files
  imports Http_Proto_Correct File_Tree
begin

text \<open>
  The file server of minicaddy: \<^verbatim>\<open>inbounds/http_files.rs\<close> and the functions on paths of
  \<^verbatim>\<open>http_proto.rs\<close>.  A handler gives the bytes it writes to the connection and how it ends; writing does
  not fail.  The tree of files, the working directory and the third-party functions are in the record
  \<open>web_env\<close>.
\<close>

section \<open>The code\<close>

record web_env =
  we_tree :: file_tree
  we_cwd :: "bytes list"
  we_gmtime :: "nat \<Rightarrow> tm"
  we_gzip :: "bytes \<Rightarrow> bytes option"

type_synonym response = "bytes \<times> unit outcome"

definition mime_type :: "bytes list \<Rightarrow> bytes" where
  "mime_type path =
     (let ext = file_extension path;
          is = (\<lambda>s. ext = Some (ascii s))
      in ascii
        (if is ''html'' \<or> is ''htm'' then ''text/html; charset=utf-8''
         else if is ''css'' then ''text/css''
         else if is ''js'' then ''application/javascript''
         else if is ''json'' then ''application/json''
         else if is ''png'' then ''image/png''
         else if is ''jpg'' \<or> is ''jpeg'' then ''image/jpeg''
         else if is ''gif'' then ''image/gif''
         else if is ''svg'' then ''image/svg+xml''
         else if is ''pdf'' then ''application/pdf''
         else if is ''ico'' then ''image/x-icon''
         else if is ''wasm'' then ''application/wasm''
         else ''application/octet-stream''))"

definition safe_path :: "web_env \<Rightarrow> bytes \<Rightarrow> bytes \<Rightarrow> bytes list option" where
  "safe_path e root path =
     (case canonicalize (we_tree e) (we_cwd e) (path_join root (trim_start_char 47 path)) of
        None \<Rightarrow> None
      | Some canon \<Rightarrow>
          (case canonicalize (we_tree e) (we_cwd e) root of
             None \<Rightarrow> None
           | Some root_canon \<Rightarrow> if prefix root_canon canon then Some canon else None))"

definition dir_entry_html :: "bytes \<Rightarrow> bytes \<times> bool \<Rightarrow> bytes" where
  "dir_entry_html base = (\<lambda>(name, is_dir).
     if is_dir
     then ascii ''<a href='' @ [34] @ base @ ascii ''/'' @ name @ ascii ''/'' @ [34] @ ascii ''>'' @ name @ ascii ''/</a>''
     else ascii ''<a href='' @ [34] @ base @ ascii ''/'' @ name @ [34] @ ascii ''>'' @ name @ ascii ''</a>'')"

definition dir_listing_html :: "web_env \<Rightarrow> bytes list \<Rightarrow> bytes \<Rightarrow> bytes" where
  "dir_listing_html e dir_path request_path =
     (let base = trim_end 47 request_path;
          names = sort (map (dir_entry_html base) (read_dir (we_tree e) dir_path))
      in ascii ''<!DOCTYPE html>'' @ [10] @ ascii ''<html><head><title>Index of '' @ request_path @
         ascii ''</title></head>'' @ [10] @ ascii ''<body>'' @ [10] @ ascii ''<h1>Index of '' @ request_path @
         ascii ''</h1>'' @ [10] @ ascii ''<hr>'' @ [10] @ ascii ''<pre>'' @ [10] @
         concat (map (\<lambda>n. n @ [10]) names) @
         ascii ''</pre>'' @ [10] @ ascii ''<hr>'' @ [10] @ ascii ''</body>'' @ [10] @ ascii ''</html>'')"

text \<open>The two ways to send a compressed body, and the parts of \<^verbatim>\<open>file_server\<close>.\<close>

definition ok_line :: bytes where "ok_line = ascii ''HTTP/1.1 200 OK'' @ CRLF"

definition gzip_head :: "bytes \<Rightarrow> bytes \<Rightarrow> bytes" where
  "gzip_head ct conn =
     ok_line @ ascii ''Content-Type: '' @ ct @ CRLF @ ascii ''Transfer-Encoding: chunked'' @ CRLF @
     ascii ''Content-Encoding: gzip'' @ CRLF @ ascii ''Vary: Accept-Encoding'' @ CRLF @
     ascii ''Connection: '' @ conn @ CRLF @ CRLF"

definition not_found :: "bytes \<Rightarrow> bytes" where
  "not_found conn =
     ascii ''HTTP/1.1 404 Not Found'' @ CRLF @ ascii ''Content-Length: 9'' @ CRLF @ ascii ''Connection: '' @ conn @ CRLF @ CRLF @
     ascii ''Not Found''"

definition html_type :: bytes where "html_type = ascii ''text/html; charset=utf-8''"

definition serve_dir :: "web_env \<Rightarrow> bytes list \<Rightarrow> bytes \<Rightarrow> bytes \<Rightarrow> bool \<Rightarrow> bool \<Rightarrow> response" where
  "serve_dir e target path conn is_head wants_gzip =
     (let html = dir_listing_html e target path
      in if wants_gzip
         then (case we_gzip e html of
                 None \<Rightarrow> ([], Failed IoError)
               | Some data \<Rightarrow>
                   (gzip_head html_type conn @ (if is_head then [] else write_chunk data @ write_last_chunk), Done ()))
         else (ok_line @ ascii ''Content-Type: '' @ html_type @ CRLF @ ascii ''Content-Length: '' @ show_nat (length html) @ CRLF @
               ascii ''Connection: '' @ conn @ CRLF @ CRLF @ (if is_head then [] else html), Done ()))"

definition serve_range :: "bytes \<Rightarrow> bytes \<Rightarrow> bytes \<Rightarrow> bytes \<Rightarrow> bytes \<Rightarrow> bool \<Rightarrow> response" where
  "serve_range content range_val ct etag conn is_head =
     (let file_size = of_nat (length content) :: u64
      in case parse_range range_val file_size of
           Some (start, en) \<Rightarrow>
             let len = en - start + 1
             in if unat start \<ge> 2 ^ 63 then ([], Failed IoError)
                else (ascii ''HTTP/1.1 206 Partial Content'' @ CRLF @ ascii ''Content-Range: bytes '' @ show_nat (unat start) @
                      ascii ''-'' @ show_nat (unat en) @ ascii ''/'' @ show_nat (unat file_size) @ CRLF @
                      ascii ''Content-Length: '' @ show_nat (unat len) @ CRLF @ ascii ''Content-Type: '' @ ct @ CRLF @
                      ascii ''ETag: '' @ etag @ CRLF @ ascii ''Connection: '' @ conn @ CRLF @ CRLF @
                      (if is_head then [] else take (unat len) (drop (unat start) content)), Done ())
         | None \<Rightarrow>
             (ascii ''HTTP/1.1 416 Range Not Satisfiable'' @ CRLF @ ascii ''Content-Range: bytes */'' @ show_nat (unat file_size) @
              CRLF @ ascii ''Connection: '' @ conn @ CRLF @ CRLF, Done ()))"

definition serve_file :: "web_env \<Rightarrow> bytes list \<Rightarrow> bytes \<Rightarrow> nat \<Rightarrow> Header list \<Rightarrow> bytes \<Rightarrow> bool \<Rightarrow> bool \<Rightarrow> response" where
  "serve_file e target content mtime headers conn is_head wants_gzip =
     (let file_size = of_nat (length content);
          etag = etag_for mtime file_size;
          ct = mime_type target
      in case format_http_date (we_gmtime e) mtime of
           None \<Rightarrow> ([], Panicked)
         | Some last_mod \<Rightarrow>
             if get_header headers (ascii ''If-None-Match'') = Some etag
             then (ascii ''HTTP/1.1 304 Not Modified'' @ CRLF @ ascii ''ETag: '' @ etag @ CRLF @ ascii ''Connection: '' @ conn @
                   CRLF @ CRLF, Done ())
             else case get_header headers (ascii ''Range'') of
                    Some range_val \<Rightarrow> serve_range content range_val ct etag conn is_head
                  | None \<Rightarrow>
                      if wants_gzip \<and> is_compressible ct \<and> \<not> is_head
                      then (case we_gzip e content of
                              None \<Rightarrow> ([], Failed IoError)
                            | Some compressed \<Rightarrow> (gzip_head ct conn @ write_chunk compressed @ write_last_chunk, Done ()))
                      else (ok_line @ ascii ''Content-Length: '' @ show_nat (unat file_size) @ CRLF @
                            ascii ''Content-Type: '' @ ct @ CRLF @ ascii ''ETag: '' @ etag @ CRLF @
                            ascii ''Last-Modified: '' @ last_mod @ CRLF @ ascii ''Connection: '' @ conn @ CRLF @ CRLF @
                            (if is_head then [] else content), Done ()))"

definition connection_word :: "bool \<Rightarrow> bytes" where
  "connection_word keep_alive = (if keep_alive then ascii ''keep-alive'' else ascii ''close'')"

definition accepts_gzip :: "Header list \<Rightarrow> bool" where
  "accepts_gzip headers =
     (case get_header headers (ascii ''Accept-Encoding'') of None \<Rightarrow> False | Some v \<Rightarrow> contains_sub (ascii ''gzip'') v)"

definition file_server :: "web_env \<Rightarrow> bytes \<Rightarrow> bytes \<Rightarrow> Header list \<Rightarrow> bool \<Rightarrow> bytes \<Rightarrow> bool \<Rightarrow> response" where
  "file_server e method path headers keep_alive root enable_gzip =
     (let conn = connection_word keep_alive;
          is_head = eq_ignore_ascii_case method (ascii ''HEAD'');
          wants_gzip = (enable_gzip \<and> accepts_gzip headers)
      in case safe_path e root path of
           None \<Rightarrow> (not_found conn, Done ())
         | Some target \<Rightarrow>
             (case node_at (we_tree e) target of
                Some DirNode \<Rightarrow> serve_dir e target path conn is_head wants_gzip
              | Some (FileNode content mtime) \<Rightarrow> serve_file e target content mtime headers conn is_head wants_gzip
              | _ \<Rightarrow> ([], Failed IoError)))"

section \<open>Properties\<close>

lemma safe_path_inside:
  assumes "safe_path e root path = Some p" "real_place (we_tree e) (we_cwd e)"
  shows "real_place (we_tree e) p \<and> (\<exists>r. canonicalize (we_tree e) (we_cwd e) root = Some r \<and> prefix r p)"
  using assms canonicalize_real
  by (auto simp: safe_path_def split: option.splits if_splits)

text \<open>
  (C14) The file server never leaves its directory.  Whatever the request path, with parent directories, empty
  parts and symbolic links in it, the answer is \<^verbatim>\<open>404\<close>, or it is made from a directory or a file whose
  real place, reached through directories only and no link, is at or below the real place of the root.
\<close>

theorem file_server_confined:
  assumes "real_place (we_tree e) (we_cwd e)"
  shows "file_server e method path headers keep_alive root enable_gzip = (not_found (connection_word keep_alive), Done ()) \<or>
    (\<exists>r p. canonicalize (we_tree e) (we_cwd e) root = Some r \<and> prefix r p \<and> real_place (we_tree e) p \<and>
      (let is_head = eq_ignore_ascii_case method (ascii ''HEAD''); gz = enable_gzip \<and> accepts_gzip headers;
           answer = file_server e method path headers keep_alive root enable_gzip
       in node_at (we_tree e) p = Some DirNode \<and> answer = serve_dir e p path (connection_word keep_alive) is_head gz \<or>
          (\<exists>content mtime. node_at (we_tree e) p = Some (FileNode content mtime) \<and>
             answer = serve_file e p content mtime headers (connection_word keep_alive) is_head gz)))"
proof (cases "safe_path e root path")
  case None
  then show ?thesis by (simp add: file_server_def)
next
  case (Some p)
  from safe_path_inside [OF Some assms] obtain r where
    r: "canonicalize (we_tree e) (we_cwd e) root = Some r" "prefix r p" "real_place (we_tree e) p" by blast
  then obtain n where n: "node_at (we_tree e) p = Some n" "\<And>t. n \<noteq> LinkNode t"
    unfolding real_place_def by blast
  show ?thesis
    using r n by (cases n) (auto simp: file_server_def Some Let_def)
qed

text \<open>A site directory \<^verbatim>\<open>/w\<close> with a page, a secret outside it and a link to the secret inside it.\<close>

definition small_tree :: file_tree where
  "small_tree =
     [([ascii ''w''], DirNode), ([ascii ''w'', ascii ''a.html''], FileNode (ascii ''hello'') 0),
      ([ascii ''s''], FileNode (ascii ''secret'') 0), ([ascii ''w'', ascii ''l''], LinkNode (ascii ''../s''))]"

definition small_env :: web_env where
  "small_env = \<lparr>we_tree = small_tree, we_cwd = [],
     we_gmtime = \<lambda>_. \<lparr>tm_wday = 4, tm_mday = 1, tm_mon = 0, tm_year = 70, tm_hour = 0, tm_min = 0, tm_sec = 0\<rparr>, we_gzip = Some\<rparr>"

lemma small_env_cwd: "real_place (we_tree small_env) (we_cwd small_env)"
  by (simp add: small_env_def real_place_root)

lemma small_safe_paths:
  "safe_path small_env (ascii ''/w'') (ascii ''/l'') = None"
  "safe_path small_env (ascii ''/w'') (ascii ''/../s'') = None"
  "safe_path small_env (ascii ''/w'') (ascii ''/../w//./a.html'') = Some [ascii ''w'', ascii ''a.html'']"
  by code_simp+

theorem file_server_confined_witness:
  "fst (file_server small_env (ascii ''GET'') (ascii ''/l'') [] True (ascii ''/w'') False) = not_found (ascii ''keep-alive'')"
  using file_server_confined [OF small_env_cwd, of "ascii ''GET''" "ascii ''/l''" "[]" True "ascii ''/w''" False]
  by (simp add: file_server_def small_safe_paths connection_word_def)

lemma digits_no_dash: "45 \<notin> set (show_nat n)"
  using show_nat_chars [of 45 n] by (auto simp: in_range_def)

lemma unat_of_nat_u64: "n \<le> U64_MAX \<Longrightarrow> unat (of_nat n :: u64) = n"
  by (simp add: unat_of_nat)

lemma parse_range_first_last:
  assumes "a < unat file_size" "a \<le> b" "b \<le> U64_MAX"
  shows "parse_range (ascii ''bytes='' @ show_nat a @ ascii ''-'' @ show_nat b) file_size =
    Some (of_nat a, min (of_nat b) (file_size - 1))"
proof -
  have dash: "ascii ''-'' = [45]" by (simp add: ascii_def)
  have a: "unat (of_nat a :: u64) = a" and b: "unat (of_nat b :: u64) = b" using assms by (simp_all add: unat_of_nat_u64)
  have "file_size \<noteq> 0" using assms(1) by auto
  moreover have "\<not> file_size \<le> of_nat a" using assms(1) a by (simp add: word_le_nat_alt)
  moreover have "of_nat a \<le> min (of_nat b) (file_size - 1)"
    using assms a b calculation(1) by (auto simp: word_le_nat_alt min_def unat_minus_one)
  moreover have "a \<le> U64_MAX" using assms(2,3) by simp
  ultimately show ?thesis
    using assms(3) by (simp add: parse_range_def dash split_once_sep digits_no_dash trim_nat parse_u64_def parse_show_nat)
qed

text \<open>
  A request for the bytes \<open>a\<close> to \<open>b\<close> of a file is answered by exactly these bytes, up to the end of the
  file, and their number is the announced length.
\<close>

theorem range_served:
  assumes "a < length content" "a \<le> b" "b \<le> U64_MAX" "length content < 2 ^ 63"
  shows "\<exists>head. serve_range content (ascii ''bytes='' @ show_nat a @ ascii ''-'' @ show_nat b) ct etag conn False =
      (ascii ''HTTP/1.1 206 Partial Content'' @ CRLF @ ascii ''Content-Range: bytes '' @ show_nat a @ ascii ''-'' @
       show_nat (min b (length content - 1)) @ ascii ''/'' @ show_nat (length content) @ CRLF @
       ascii ''Content-Length: '' @ show_nat (length (slice a (min b (length content - 1) + 1) content)) @ CRLF @ head @ CRLF @ CRLF @
       slice a (min b (length content - 1) + 1) content, Done ())"
proof -
  define m where "m = min b (length content - 1)"
  let ?n = "length content"
  have m: "a \<le> m" "m < ?n" "m \<le> b" using assms(1,2) by (auto simp: m_def)
  have n: "unat (of_nat ?n :: u64) = ?n" and ua: "unat (of_nat a :: u64) = a" and ub: "unat (of_nat b :: u64) = b"
    and um: "unat (of_nat m :: u64) = m"
    using assms m by (simp_all add: unat_of_nat_u64)
  have nz: "(of_nat ?n :: u64) \<noteq> 0" using n assms(1) by (metis gr_implies_not0 unat_0)
  have e: "min (of_nat b) (of_nat ?n - 1 :: u64) = of_nat m"
    using nz ub n um by (intro word_unat_eq_iff [THEN iffD2]) (auto simp: m_def min_def word_le_nat_alt unat_minus_one)
  have "of_nat m - of_nat a + 1 = (of_nat (m - a + 1) :: u64)" using m by (simp add: of_nat_diff)
  then have len: "unat (of_nat m - of_nat a + 1 :: u64) = m - a + 1" "length (slice a (m + 1) content) = m - a + 1"
    using m assms(4) by (simp_all add: unat_of_nat_u64 slice_def del: of_nat_Suc of_nat_add)
  have bytes: "take (m - a + 1) (drop a content) = slice a (m + 1) content" using m by (simp add: slice_def Suc_diff_le)
  have range: "parse_range (ascii ''bytes='' @ show_nat a @ ascii ''-'' @ show_nat b) (of_nat ?n) = Some (of_nat a, of_nat m)"
    using parse_range_first_last [of a "of_nat ?n" b] assms n e by simp
  have "a < 2 ^ 63" using assms(1,4) by simp
  then show ?thesis
    unfolding m_def [symmetric] serve_range_def range option.case prod.case Let_def ua um n len bytes
    by (intro exI [of _ "ascii ''Content-Type: '' @ ct @ CRLF @ ascii ''ETag: '' @ etag @ CRLF @ ascii ''Connection: '' @ conn"]) simp
qed

theorem range_served_witness:
  "\<exists>head. snd (serve_range (ascii ''hello'') (ascii ''bytes='' @ show_nat 1 @ ascii ''-'' @ show_nat 9) [] [] [] False) = Done () \<and>
     fst (serve_range (ascii ''hello'') (ascii ''bytes='' @ show_nat 1 @ ascii ''-'' @ show_nat 9) [] [] [] False) = head @ ascii ''ello''"
proof -
  have "slice 1 (min 9 (length (ascii ''hello'') - 1) + 1) (ascii ''hello'') = ascii ''ello''"
    by (simp add: slice_def ascii_def)
  then show ?thesis
    using range_served [of 1 "ascii ''hello''" 9 "[]" "[]" "[]"] by (auto simp: ascii_def simp flip: append_assoc)
qed

text \<open>
  Two answers of the file server break the connection they keep open.  A \<^verbatim>\<open>HEAD\<close> request for a file that
  does not exist is answered with a body, and a range that cannot be satisfied is answered without
  \<^verbatim>\<open>Content-Length\<close> or \<^verbatim>\<open>Transfer-Encoding\<close>, so that the client takes the next answer for the body of
  this one.
\<close>

theorem file_server_unframed:
  shows "(safe_path e root path = None \<longrightarrow>
      (\<exists>head. fst (file_server e (ascii ''HEAD'') path headers True root gz) =
         head @ ascii ''Connection: keep-alive'' @ CRLF @ CRLF @ ascii ''Not Found'')) \<and>
    (parse_range range_val (of_nat (length content)) = None \<longrightarrow>
      serve_range content range_val ct etag (connection_word True) is_head =
        (ascii ''HTTP/1.1 416 Range Not Satisfiable'' @ CRLF @
         ascii ''Content-Range: bytes */'' @ show_nat (unat (of_nat (length content) :: u64)) @ CRLF @
         ascii ''Connection: keep-alive'' @ CRLF @ CRLF, Done ()))"
proof (intro conjI impI)
  assume "safe_path e root path = None"
  moreover have "ascii ''Connection: '' @ ascii ''keep-alive'' = ascii ''Connection: keep-alive''" by (simp add: ascii_def)
  ultimately show "\<exists>head. fst (file_server e (ascii ''HEAD'') path headers True root gz) =
      head @ ascii ''Connection: keep-alive'' @ CRLF @ CRLF @ ascii ''Not Found''"
    by (intro exI [of _ "ascii ''HTTP/1.1 404 Not Found'' @ CRLF @ ascii ''Content-Length: 9'' @ CRLF"])
      (simp add: file_server_def not_found_def connection_word_def)
next
  assume "parse_range range_val (of_nat (length content)) = None"
  moreover have "ascii ''Connection: '' @ ascii ''keep-alive'' = ascii ''Connection: keep-alive''" by (simp add: ascii_def)
  ultimately show "serve_range content range_val ct etag (connection_word True) is_head =
        (ascii ''HTTP/1.1 416 Range Not Satisfiable'' @ CRLF @
         ascii ''Content-Range: bytes */'' @ show_nat (unat (of_nat (length content) :: u64)) @ CRLF @
         ascii ''Connection: keep-alive'' @ CRLF @ CRLF, Done ())"
    by (simp add: serve_range_def Let_def connection_word_def)
qed

theorem file_server_unframed_witness:
  "\<exists>head. fst (file_server small_env (ascii ''HEAD'') (ascii ''/../s'') [] True (ascii ''/w'') False) =
     head @ ascii ''Connection: keep-alive'' @ CRLF @ CRLF @ ascii ''Not Found''"
  using file_server_unframed [of small_env "ascii ''/w''" "ascii ''/../s''" "[]" False "[]" "[]" "[]" "[]" False] small_safe_paths(2)
  by blast

end
