(* ===== verification/Caddyfile.thy ===== *)
theory Caddyfile
  imports Complex_Main Text_Scan
begin

text \<open>
  \<^verbatim>\<open>minicaddy/src/config.rs\<close>: the parser of the configuration file.  \<open>None\<close> is a panic.  The parser of
  \<^verbatim>\<open>f64\<close> numbers is the parameter \<open>parse_f64\<close>; the numbers are rationals.
\<close>

section \<open>The code\<close>

record SiteConfig =
  listen_addr :: bytes
  site_host :: "bytes option"
  site_root :: "bytes option"
  site_file_server :: bool
  site_gzip :: bool
  site_log :: bool
  site_reverse_proxy :: "bytes option"
  site_basic_auth :: "(bytes \<times> bytes) option"
  site_rate_limit :: "(rat \<times> rat) option"

text \<open>The address before a block: the last line that is no comment.  Number sign 35, colon 58.\<close>

definition block_address :: "bytes \<Rightarrow> bytes" where
  "block_address addr_part =
     (let ls = filter (\<lambda>l. \<not> starts_with [35] (trim_start_ws l)) (str_lines (trim_ws addr_part))
      in trim_ws (if ls = [] then [] else last ls))"

definition split_address :: "bytes \<Rightarrow> bytes option \<times> bytes" where
  "split_address addr =
     (case rsplit_once 58 addr of
        Some (h, p) \<Rightarrow> (if h = [] then None else Some h, p)
      | None \<Rightarrow> (Some addr, ascii ''80''))"

definition new_site :: "bytes \<Rightarrow> SiteConfig" where
  "new_site addr =
     (let (host, port) = split_address addr
      in \<lparr>listen_addr = ascii ''0.0.0.0:'' @ port, site_host = host, site_root = None, site_file_server = False,
          site_gzip = False, site_log = False, site_reverse_proxy = None, site_basic_auth = None, site_rate_limit = None\<rparr>)"

definition next_part :: "bytes list \<Rightarrow> bytes option" where
  "next_part parts = (case parts of [] \<Rightarrow> None | p # _ \<Rightarrow> Some p)"

text \<open>One directive: the first word of the line and the words after it.\<close>

definition apply_directive :: "(bytes \<Rightarrow> rat option) \<Rightarrow> bytes \<Rightarrow> bytes list \<Rightarrow> SiteConfig \<Rightarrow> SiteConfig option" where
  "apply_directive parse_f64 directive parts site =
     (if directive = ascii ''root'' then Some (site\<lparr>site_root := next_part parts, site_file_server := True\<rparr>)
      else if directive = ascii ''file_server'' then Some (site\<lparr>site_file_server := True\<rparr>)
      else if directive = ascii ''gzip'' then Some (site\<lparr>site_gzip := True\<rparr>)
      else if directive = ascii ''log'' then Some (site\<lparr>site_log := True\<rparr>)
      else if directive = ascii ''reverse_proxy'' then Some (site\<lparr>site_reverse_proxy := next_part parts\<rparr>)
      else if directive = ascii ''rate_limit''
      then (case parts of
              r # b # _ \<Rightarrow>
                (case (parse_f64 r, parse_f64 b) of
                   (Some r, Some b) \<Rightarrow> Some (site\<lparr>site_rate_limit := Some (r, b)\<rparr>)
                 | _ \<Rightarrow> None)
            | _ \<Rightarrow> None)
      else if directive = ascii ''basic_auth''
      then Some (case parts of
                   u # p # r # _ \<Rightarrow> site\<lparr>site_basic_auth := Some (u @ ascii '':'' @ p, trim_matches_char 34 r)\<rparr>
                 | _ \<Rightarrow> site)
      else Some site)"

definition apply_line :: "(bytes \<Rightarrow> rat option) \<Rightarrow> bytes \<Rightarrow> SiteConfig \<Rightarrow> SiteConfig option" where
  "apply_line parse_f64 line site =
     (let line = trim_ws line
      in if line = [] \<or> starts_with [35] line then Some site
         else case split_whitespace line of
                [] \<Rightarrow> Some site
              | directive # parts \<Rightarrow> apply_directive parse_f64 directive parts site)"

fun apply_lines :: "(bytes \<Rightarrow> rat option) \<Rightarrow> bytes list \<Rightarrow> SiteConfig \<Rightarrow> SiteConfig option" where
  "apply_lines parse_f64 [] site = Some site"
| "apply_lines parse_f64 (l # ls) site =
     (case apply_line parse_f64 l site of None \<Rightarrow> None | Some site \<Rightarrow> apply_lines parse_f64 ls site)"

text \<open>One block, up to its closing brace: no site, one, or a panic.  Braces are 123 and 125.\<close>

definition parse_block :: "(bytes \<Rightarrow> rat option) \<Rightarrow> bytes \<Rightarrow> SiteConfig list option" where
  "parse_block parse_f64 block =
     (let block = trim_ws block
      in if block = [] then Some []
         else case split_once 123 block of
                None \<Rightarrow> Some []
              | Some (addr_part, body) \<Rightarrow>
                  let addr = block_address addr_part
                  in if addr = [] then Some []
                     else map_option (\<lambda>s. [s]) (apply_lines parse_f64 (str_lines (trim_ws body)) (new_site addr)))"

fun parse_blocks :: "(bytes \<Rightarrow> rat option) \<Rightarrow> bytes list \<Rightarrow> SiteConfig list option" where
  "parse_blocks parse_f64 [] = Some []"
| "parse_blocks parse_f64 (b # bs) =
     (case parse_block parse_f64 b of
        None \<Rightarrow> None
      | Some s \<Rightarrow> map_option (\<lambda>rest. s @ rest) (parse_blocks parse_f64 bs))"

definition from_caddyfile :: "(bytes \<Rightarrow> rat option) \<Rightarrow> bytes \<Rightarrow> SiteConfig list option" where
  "from_caddyfile parse_f64 content = parse_blocks parse_f64 (split_on 125 content)"

section \<open>Words and lines\<close>

text \<open>Words of printing ASCII characters.\<close>

definition word_byte :: "u8 \<Rightarrow> bool" where
  "word_byte b = (in_range 33 126 b \<and> b \<noteq> 123 \<and> b \<noteq> 125)"

definition is_word :: "bytes \<Rightarrow> bool" where
  "is_word w = (w \<noteq> [] \<and> list_all word_byte w)"

lemma word_byte_ws:
  assumes "word_byte a"
  shows "ws_len (a # r) = 0"
proof -
  have "\<not> in_range 9 13 a" "a \<noteq> 32" "a \<noteq> 0xC2" "a \<noteq> 0xE1" "a \<noteq> 0xE2" "a \<noteq> 0xE3"
    using assms by (auto simp: word_byte_def in_range_def word_le_nat_alt)
  then show ?thesis by (simp add: ws_len.simps split: list.split)
qed

lemma words_acc_word:
  "list_all word_byte w \<Longrightarrow> words_acc acc (w @ s) = words_acc (rev w @ acc) s"
proof (induction w arbitrary: acc)
  case (Cons a w)
  then show ?case by (subst words_acc.simps) (simp add: word_byte_ws)
qed simp

lemma ws_space: "ws_len (32 # s) = 1" "ws_len (10 # s) = 1"
  by (simp_all add: ws_len.simps in_range_def)

lemma words_acc_space: "acc \<noteq> [] \<Longrightarrow> words_acc acc (32 # s) = rev acc # words_acc [] s"
  by (subst words_acc.simps) (simp add: ws_space)

lemma split_whitespace_words:
  "ws \<noteq> [] \<Longrightarrow> list_all is_word ws \<Longrightarrow> split_whitespace (join [32] ws) = ws"
  unfolding split_whitespace_def
proof (induction "[32 :: u8]" ws rule: join.induct)
  case (2 p)
  then show ?case
    using words_acc_word [of p "[]" "[]"] by (simp add: is_word_def words_acc.simps)
next
  case (3 p q ps)
  then show ?case
    using words_acc_word [of p "[]" "32 # join [32] (q # ps)"] by (simp add: is_word_def words_acc_space)
qed simp

text \<open>On ASCII text, white space is a property of single bytes.\<close>

definition ascii_ws :: "u8 \<Rightarrow> bool" where
  "ascii_ws b = (in_range 9 13 b \<or> b = 32)"

definition is_text :: "bytes \<Rightarrow> bool" where
  "is_text s = list_all (\<lambda>b. b < 0x80) s"

lemma ws_len_ascii:
  assumes "a < 0x80"
  shows "ws_len (a # r) = (if ascii_ws a then 1 else 0)"
proof -
  have "a \<noteq> 0xC2" "a \<noteq> 0xE1" "a \<noteq> 0xE2" "a \<noteq> 0xE3" using assms by (auto simp: word_less_nat_alt)
  then show ?thesis by (simp add: ws_len.simps ascii_ws_def split: list.split)
qed

lemma trim_start_ascii: "is_text s \<Longrightarrow> trim_start_ws s = dropWhile ascii_ws s"
proof (induction s)
  case (Cons a s)
  then show ?case by (subst trim_start_ws.simps) (simp add: is_text_def ws_len_ascii)
qed (simp add: trim_start_ws.simps)

lemma trim_end_ascii: "is_text s \<Longrightarrow> trim_end_ws s = rev (dropWhile ascii_ws (rev s))"
proof (induction s)
  case (Cons a s)
  then have t: "is_text s" "is_text (a # s)" by (simp_all add: is_text_def)
  have "dropWhile ascii_ws (rev s) = [] \<longleftrightarrow> dropWhile ascii_ws s = []" by (auto simp: dropWhile_eq_Nil_conv)
  then show ?case
    using Cons.IH [OF t(1)] trim_start_ascii [OF t(2)] by (auto simp: dropWhile_append dropWhile_eq_Nil_conv)
qed simp

lemma is_text_simps [simp]:
  "is_text (a @ b) = (is_text a \<and> is_text b)" "is_text (x # s) = (x < 0x80 \<and> is_text s)" "is_text []"
  by (simp_all add: is_text_def)

lemma dropWhile_middle: "\<forall>x \<in> set pre. P x \<Longrightarrow> \<not> P y \<Longrightarrow> dropWhile P (pre @ y # s) = y # s"
  by (induction pre) auto

text \<open>White space around a text that begins and ends with another byte.\<close>

lemma trim_around:
  assumes "is_text (pre @ m @ post)" "\<forall>b \<in> set (pre @ post). ascii_ws b" "m \<noteq> []" "\<not> ascii_ws (hd m)" "\<not> ascii_ws (last m)"
  shows "trim_ws (pre @ m @ post) = m"
proof -
  obtain y m' where m: "m = y # m'" using assms(3) by (cases m) auto
  have start: "trim_start_ws (pre @ m @ post) = m @ post"
    using assms trim_start_ascii [OF assms(1)] dropWhile_middle [of pre ascii_ws y "m' @ post"] by (simp add: m)
  obtain m'' z where z: "m = m'' @ [z]" using assms(3) by (metis append_butlast_last_id)
  have "trim_end_ws (m @ post) = rev (dropWhile ascii_ws (rev post @ z # rev m''))"
    using assms(1) by (simp add: trim_end_ascii z)
  also have "\<dots> = m" using assms(2,5) z by (simp add: dropWhile_middle)
  finally show ?thesis by (simp add: trim_ws_def start)
qed

lemma trim_all: "is_text s \<Longrightarrow> \<forall>b \<in> set s. ascii_ws b \<Longrightarrow> trim_ws s = []"
  by (simp add: trim_ws_def trim_start_ascii dropWhile_eq_Nil_conv [THEN iffD2])

lemma trim_none: "is_text s \<Longrightarrow> s \<noteq> [] \<Longrightarrow> \<not> ascii_ws (hd s) \<Longrightarrow> \<not> ascii_ws (last s) \<Longrightarrow> trim_ws s = s"
  using trim_around [of "[]" s "[]"] by simp

section \<open>Writing a configuration\<close>

text \<open>The directives of a site as lines of words, and a site as a block.\<close>

definition site_lines :: "(rat \<Rightarrow> bytes) \<Rightarrow> SiteConfig \<Rightarrow> bytes list list" where
  "site_lines print_f64 s =
     (case site_root s of
        Some r \<Rightarrow> [[ascii ''root'', r]]
      | None \<Rightarrow> if site_file_server s then [[ascii ''file_server'']] else []) @
     (if site_gzip s then [[ascii ''gzip'']] else []) @
     (if site_log s then [[ascii ''log'']] else []) @
     (case site_reverse_proxy s of Some u \<Rightarrow> [[ascii ''reverse_proxy'', u]] | None \<Rightarrow> []) @
     (case site_rate_limit s of Some (r, b) \<Rightarrow> [[ascii ''rate_limit'', print_f64 r, print_f64 b]] | None \<Rightarrow> []) @
     (case site_basic_auth s of
        Some (cred, realm) \<Rightarrow>
          (case split_once 58 cred of Some (u, p) \<Rightarrow> [[ascii ''basic_auth'', u, p, realm]] | None \<Rightarrow> [])
      | None \<Rightarrow> [])"

definition print_block :: "(rat \<Rightarrow> bytes) \<Rightarrow> bytes \<Rightarrow> SiteConfig \<Rightarrow> bytes" where
  "print_block print_f64 port s =
     (case site_host s of None \<Rightarrow> [] | Some h \<Rightarrow> h) @ [58] @ port @ [32, 123, 10] @
     concat (map (\<lambda>l. join [32] l @ [10]) (site_lines print_f64 s))"

definition print_caddyfile :: "(rat \<Rightarrow> bytes) \<Rightarrow> (bytes \<times> SiteConfig) list \<Rightarrow> bytes" where
  "print_caddyfile print_f64 sites = concat (map (\<lambda>(port, s). print_block print_f64 port s @ [125, 10]) sites)"

text \<open>The numbers of a site, and the ones that the number format writes so that they can be read back.\<close>

definition site_numbers :: "SiteConfig \<Rightarrow> rat list" where
  "site_numbers s = (case site_rate_limit s of None \<Rightarrow> [] | Some (r, b) \<Rightarrow> [r, b])"

definition numbers_read :: "(bytes \<Rightarrow> rat option) \<Rightarrow> (rat \<Rightarrow> bytes) \<Rightarrow> SiteConfig \<Rightarrow> bool" where
  "numbers_read parse_f64 print_f64 s = list_all (\<lambda>r. parse_f64 (print_f64 r) = Some r) (site_numbers s)"

text \<open>The sites that can be written: words without white space and braces, no comment sign in front.\<close>

definition printable :: "(rat \<Rightarrow> bytes) \<Rightarrow> bytes \<Rightarrow> SiteConfig \<Rightarrow> bool" where
  "printable print_f64 port s =
     (is_word port \<and> 58 \<notin> set port \<and> listen_addr s = ascii ''0.0.0.0:'' @ port \<and>
      (\<forall>h. site_host s = Some h \<longrightarrow> is_word h \<and> hd h \<noteq> 35) \<and>
      (\<forall>r. site_root s = Some r \<longrightarrow> is_word r \<and> site_file_server s) \<and>
      (\<forall>u. site_reverse_proxy s = Some u \<longrightarrow> is_word u) \<and>
      (\<forall>r b. site_rate_limit s = Some (r, b) \<longrightarrow> is_word (print_f64 r) \<and> is_word (print_f64 b)) \<and>
      (\<forall>cred realm. site_basic_auth s = Some (cred, realm) \<longrightarrow>
         (\<exists>u p. split_once 58 cred = Some (u, p) \<and> is_word u \<and> is_word p) \<and> is_word realm \<and> hd realm \<noteq> 34 \<and> last realm \<noteq> 34))"

lemma word_byte_facts:
  assumes "word_byte b"
  shows "b < 0x80" "\<not> ascii_ws b" "b \<noteq> 10" "b \<noteq> 13" "b \<noteq> 32" "b \<noteq> 123" "b \<noteq> 125"
  using assms by (auto simp: word_byte_def ascii_ws_def in_range_def word_le_nat_alt word_less_nat_alt)

lemma is_wordD:
  assumes "is_word w"
  shows "w \<noteq> []" "is_text w" "\<not> ascii_ws (hd w)" "\<not> ascii_ws (last w)" "hd w \<in> set w" "last w \<in> set w"
    "\<And>b. b \<in> set w \<Longrightarrow> word_byte b"
proof -
  show all: "word_byte b" if "b \<in> set w" for b using assms that by (auto simp: is_word_def list_all_iff)
  show ne: "w \<noteq> []" using assms by (simp add: is_word_def)
  then show mem: "hd w \<in> set w" "last w \<in> set w" by simp_all
  then show "\<not> ascii_ws (hd w)" "\<not> ascii_ws (last w)" using all word_byte_facts by blast+
  show "is_text w" using all word_byte_facts(1) by (auto simp: is_text_def list_all_iff)
qed

lemma join_words:
  assumes "ws \<noteq> []" "list_all is_word ws"
  shows "join [32] ws \<noteq> []" "is_text (join [32] ws)" "hd (join [32] ws) = hd (hd ws)" "last (join [32] ws) = last (last ws)"
    "\<And>b. b \<in> set (join [32] ws) \<Longrightarrow> b = 32 \<or> word_byte b"
proof -
  show ne: "join [32] ws \<noteq> []" using assms by (induction "[32 :: u8]" ws rule: join.induct) (auto simp: is_word_def)
  show all: "b = 32 \<or> word_byte b" if "b \<in> set (join [32] ws)" for b
    using assms that by (induction "[32 :: u8]" ws rule: join.induct) (auto simp: is_word_def list_all_iff)
  then show "is_text (join [32] ws)" using word_byte_facts(1) by (fastforce simp: is_text_def list_all_iff)
  show "hd (join [32] ws) = hd (hd ws)" using assms
    by (induction "[32 :: u8]" ws rule: join.induct) (auto simp: is_word_def)
  show "last (join [32] ws) = last (last ws)" using assms
  proof (induction "[32 :: u8]" ws rule: join.induct)
    case (3 p q ps)
    then have "join [32] (q # ps) \<noteq> []" by (induction "[32 :: u8]" "q # ps" rule: join.induct) (auto simp: is_word_def)
    then show ?case using 3 by simp
  qed auto
qed

text \<open>A line of words is read back as its directive.\<close>

lemma apply_line_words:
  assumes "list_all is_word (d # parts)" "hd d \<noteq> 35"
  shows "apply_line parse_f64 (join [32] (d # parts)) site = apply_directive parse_f64 d parts site"
proof -
  let ?l = "join [32] (d # parts)"
  have "d # parts \<noteq> []" by simp
  note j = join_words [OF this assms(1)]
  have w: "is_word (hd (d # parts))" "is_word (last (d # parts))" using assms(1) by (auto simp: list_all_iff)
  have "\<not> ascii_ws (hd ?l)" "\<not> ascii_ws (last ?l)"
    unfolding j(3,4) using is_wordD(3) [OF w(1)] is_wordD(4) [OF w(2)] by auto
  then have "trim_ws ?l = ?l" using j(1,2) by (intro trim_none) auto
  moreover have "\<not> starts_with [35] ?l"
    using j(1,3) assms(2) by (metis hd_append2 list.sel(1) list.size(3,4) not_Cons_self2 starts_with_def append_take_drop_id)
  moreover have "split_whitespace ?l = d # parts" using split_whitespace_words [of "d # parts"] assms(1) by simp
  ultimately show ?thesis using j(1) by (simp add: apply_line_def)
qed

lemma str_lines_join:
  assumes "ls \<noteq> []" "\<And>l. l \<in> set ls \<Longrightarrow> l \<noteq> [] \<and> 10 \<notin> set l \<and> last l \<noteq> 13"
  shows "str_lines (join [10] ls) = ls"
proof -
  have "split_on 10 (join [10] ls) = ls" using assms by (intro split_join) auto
  moreover have "map strip_cr (butlast ls) = butlast ls"
    using assms by (intro map_idI) (auto simp: strip_cr_def dest: in_set_butlastD)
  moreover have "last ls \<noteq> []" using assms by simp
  ultimately show ?thesis using assms(1) by (simp add: str_lines_def)
qed

text \<open>The lines of a body, each with its line end, after the opening brace.\<close>

lemma concat_lines: "(ls :: bytes list) \<noteq> [] \<Longrightarrow> concat (map (\<lambda>l. l @ [10]) ls) = join [10] ls @ [10]"
  by (induction "[10 :: u8]" ls rule: join.induct) auto

definition word_lines :: "bytes list list \<Rightarrow> bool" where
  "word_lines wls = (\<forall>wl \<in> set wls. wl \<noteq> [] \<and> list_all is_word wl \<and> hd (hd wl) \<noteq> 35)"

lemma word_line:
  assumes "wl \<noteq> []" "list_all is_word wl"
  shows "join [32] wl \<noteq> []" "is_text (join [32] wl)" "10 \<notin> set (join [32] wl)" "123 \<notin> set (join [32] wl)"
    "125 \<notin> set (join [32] wl)" "\<not> ascii_ws (hd (join [32] wl))" "\<not> ascii_ws (last (join [32] wl))" "last (join [32] wl) \<noteq> 13"
proof -
  note j = join_words [OF assms]
  show "join [32] wl \<noteq> []" "is_text (join [32] wl)" using j by auto
  show "10 \<notin> set (join [32] wl)" "123 \<notin> set (join [32] wl)" "125 \<notin> set (join [32] wl)"
    using j(5) word_byte_facts by fastforce+
  have "is_word (hd wl)" "is_word (last wl)" using assms by (auto simp: list_all_iff)
  then show "\<not> ascii_ws (hd (join [32] wl))" "\<not> ascii_ws (last (join [32] wl))" "last (join [32] wl) \<noteq> 13"
    using j(3,4) is_wordD word_byte_facts(4) by metis+
qed

lemma body_shape:
  assumes "word_lines wls" "wls \<noteq> []"
  obtains b where "concat (map (\<lambda>l. join [32] l @ [10]) wls) = b @ [10]" "b \<noteq> []" "is_text b" "\<not> ascii_ws (hd b)"
    "\<not> ascii_ws (last b)" "str_lines b = map (join [32]) wls"
proof -
  let ?ls = "map (join [32]) wls"
  have line: "l \<noteq> [] \<and> is_text l \<and> 10 \<notin> set l \<and> \<not> ascii_ws (hd l) \<and> \<not> ascii_ws (last l) \<and> last l \<noteq> 13"
    if "l \<in> set ?ls" for l
    using that assms word_line unfolding word_lines_def by auto
  have join10: "ls \<noteq> [] \<Longrightarrow> (\<And>l. l \<in> set ls \<Longrightarrow> l \<noteq> [] \<and> is_text l) \<Longrightarrow>
      join [10] ls \<noteq> [] \<and> is_text (join [10] ls) \<and> hd (join [10] ls) = hd (hd ls) \<and> last (join [10] ls) = last (last ls)" for ls
    by (induction "[10 :: u8]" ls rule: join.induct) (auto simp: is_text_def)
  have "concat (map (\<lambda>l. join [32] l @ [10]) wls) = concat (map (\<lambda>l. l @ [10]) ?ls)" by (simp add: comp_def)
  then have "concat (map (\<lambda>l. join [32] l @ [10]) wls) = join [10] ?ls @ [10]" using assms(2) concat_lines [of ?ls] by simp
  moreover have "str_lines (join [10] ?ls) = ?ls" using assms(2) line by (intro str_lines_join) auto
  moreover have "join [10] ?ls \<noteq> []" "is_text (join [10] ?ls)" "\<not> ascii_ws (hd (join [10] ?ls))" "\<not> ascii_ws (last (join [10] ?ls))"
    using join10 [of ?ls] line assms(2) by (auto simp: hd_map last_map)
  ultimately show ?thesis using that by blast
qed

lemma newline_facts: "is_text [10]" "ascii_ws 10" "trim_ws [10] = []"
proof -
  show t: "is_text [10]" and w: "ascii_ws 10" by (simp_all add: is_text_def ascii_ws_def in_range_def)
  show "trim_ws [10] = []" using t w by (intro trim_all) auto
qed

lemma body_lines:
  assumes "word_lines wls"
  shows "str_lines (trim_ws (10 # concat (map (\<lambda>l. join [32] l @ [10]) wls))) = map (join [32]) wls"
proof (cases "wls = []")
  case True
  then show ?thesis by (simp add: newline_facts str_lines_def)
next
  case False
  obtain b where b: "concat (map (\<lambda>l. join [32] l @ [10]) wls) = b @ [10]" "b \<noteq> []" "is_text b" "\<not> ascii_ws (hd b)"
      "\<not> ascii_ws (last b)" "str_lines b = map (join [32]) wls"
    by (rule body_shape [OF assms False])
  have "trim_ws ([10] @ b @ [10]) = b" using b newline_facts by (intro trim_around) auto
  then show ?thesis using b by simp
qed

fun apply_words :: "(bytes \<Rightarrow> rat option) \<Rightarrow> bytes list list \<Rightarrow> SiteConfig \<Rightarrow> SiteConfig option" where
  "apply_words parse_f64 [] s = Some s"
| "apply_words parse_f64 (wl # wls) s =
     (case apply_directive parse_f64 (hd wl) (tl wl) s of None \<Rightarrow> None | Some s \<Rightarrow> apply_words parse_f64 wls s)"

lemma apply_words_append:
  "apply_words f (xs @ ys) s = (case apply_words f xs s of None \<Rightarrow> None | Some s \<Rightarrow> apply_words f ys s)"
  by (induction xs arbitrary: s) (auto split: option.split)

lemma apply_lines_words: "word_lines wls \<Longrightarrow> apply_lines f (map (join [32]) wls) s = apply_words f wls s"
proof (induction wls arbitrary: s)
  case (Cons wl wls)
  then obtain d parts where wl: "wl = d # parts" by (cases wl) (auto simp: word_lines_def)
  have "apply_line f (join [32] wl) s = apply_directive f d parts s" for s
    using Cons.prems unfolding wl by (intro apply_line_words) (auto simp: word_lines_def)
  then show ?case using Cons.IH Cons.prems wl by (auto simp: word_lines_def split: option.split)
qed simp

text \<open>The directives that are their own word.\<close>

lemma directive_words:
  "is_word (ascii ''root'')" "is_word (ascii ''file_server'')" "is_word (ascii ''gzip'')" "is_word (ascii ''log'')"
  "is_word (ascii ''reverse_proxy'')" "is_word (ascii ''rate_limit'')" "is_word (ascii ''basic_auth'')"
  by (simp_all add: is_word_def ascii_def word_byte_def in_range_def)

lemma directive_heads:
  "hd (ascii ''root'') \<noteq> 35" "hd (ascii ''file_server'') \<noteq> 35" "hd (ascii ''gzip'') \<noteq> 35" "hd (ascii ''log'') \<noteq> 35"
  "hd (ascii ''reverse_proxy'') \<noteq> 35" "hd (ascii ''rate_limit'') \<noteq> 35" "hd (ascii ''basic_auth'') \<noteq> 35"
  by (simp_all add: ascii_def)

lemma site_lines_words: "printable print_f64 port s \<Longrightarrow> word_lines (site_lines print_f64 s)"
  unfolding printable_def word_lines_def site_lines_def
  by (cases s) (auto simp: directive_words directive_heads split: option.splits if_splits prod.splits)

lemma apply_directive_simps:
  "apply_directive f (ascii ''root'') (r # ps) s = Some (s\<lparr>site_root := Some r, site_file_server := True\<rparr>)"
  "apply_directive f (ascii ''file_server'') ps s = Some (s\<lparr>site_file_server := True\<rparr>)"
  "apply_directive f (ascii ''gzip'') ps s = Some (s\<lparr>site_gzip := True\<rparr>)"
  "apply_directive f (ascii ''log'') ps s = Some (s\<lparr>site_log := True\<rparr>)"
  "apply_directive f (ascii ''reverse_proxy'') (u # ps) s = Some (s\<lparr>site_reverse_proxy := Some u\<rparr>)"
  "f r = Some r' \<Longrightarrow> f b = Some b' \<Longrightarrow>
     apply_directive f (ascii ''rate_limit'') (r # b # ps) s = Some (s\<lparr>site_rate_limit := Some (r', b')\<rparr>)"
  "apply_directive f (ascii ''basic_auth'') (u # p # r # ps) s =
     Some (s\<lparr>site_basic_auth := Some (u @ [58] @ p, trim_matches_char 34 r)\<rparr>)"
  by (simp_all add: apply_directive_def ascii_def next_part_def)

lemma trim_matches_none:
  assumes "w \<noteq> []" "hd w \<noteq> c" "last w \<noteq> c"
  shows "trim_matches_char c w = w"
proof -
  have "dropWhile (\<lambda>x. x = c) w = w" using assms(1,2) by (cases w) auto
  moreover have "dropWhile (\<lambda>x. x = c) (rev w) = rev w" using assms(1,3) by (cases "rev w") (auto simp flip: hd_rev)
  ultimately show ?thesis by (simp add: trim_matches_char_def trim_start_char_def trim_end_def)
qed

lemma site_lines_applied:
  assumes "printable print_f64 port s" "numbers_read parse_f64 print_f64 s"
  shows "apply_words parse_f64 (site_lines print_f64 s)
    \<lparr>listen_addr = listen_addr s, site_host = site_host s, site_root = None, site_file_server = False, site_gzip = False,
     site_log = False, site_reverse_proxy = None, site_basic_auth = None, site_rate_limit = None\<rparr> = Some s"
proof -
  obtain la h root fs gz lg rp ba rl where s: "s = \<lparr>listen_addr = la, site_host = h, site_root = root, site_file_server = fs,
      site_gzip = gz, site_log = lg, site_reverse_proxy = rp, site_basic_auth = ba, site_rate_limit = rl\<rparr>"
    by (cases s)
  have auth: "apply_words parse_f64 (case ba of Some (cred, realm) \<Rightarrow>
        (case split_once 58 cred of Some (u, p) \<Rightarrow> [[ascii ''basic_auth'', u, p, realm]] | None \<Rightarrow> []) | None \<Rightarrow> []) t =
      Some (t\<lparr>site_basic_auth := ba\<rparr>)" if "site_basic_auth t = None" for t
    using assms(1) that split_once_Some [of 58] is_wordD(1)
    by (auto simp: printable_def s apply_directive_simps trim_matches_none split: option.splits)
  have limit: "apply_words parse_f64 (case rl of Some (r, b) \<Rightarrow> [[ascii ''rate_limit'', print_f64 r, print_f64 b]] | None \<Rightarrow> []) t =
      Some (t\<lparr>site_rate_limit := rl\<rparr>)" if "site_rate_limit t = None" for t
    using that assms(2) by (auto simp: s numbers_read_def site_numbers_def apply_directive_simps split: option.split)
  show ?thesis
    using assms(1) unfolding s site_lines_def
    by (auto simp: apply_words_append auth limit apply_directive_simps printable_def split: option.split)
qed

text \<open>The address of a printed block.\<close>

definition print_address :: "bytes \<Rightarrow> SiteConfig \<Rightarrow> bytes" where
  "print_address port s = (case site_host s of None \<Rightarrow> [] | Some h \<Rightarrow> h) @ [58] @ port"

lemma address_word:
  assumes "printable print_f64 port s"
  shows "is_word (print_address port s)" "hd (print_address port s) \<noteq> 35"
    "split_address (print_address port s) = (site_host s, port)"
proof -
  have colon: "word_byte 58" by (simp add: word_byte_def in_range_def)
  show "is_word (print_address port s)"
    using assms colon by (auto simp: printable_def is_word_def print_address_def split: option.split)
  show "hd (print_address port s) \<noteq> 35"
    using assms by (auto simp: printable_def print_address_def is_word_def hd_append split: option.split)
  have "rsplit_once 58 (print_address port s) = Some (case site_host s of None \<Rightarrow> [] | Some h \<Rightarrow> h, port)"
    using assms rsplit_once_sep [of 58 port "case site_host s of None \<Rightarrow> [] | Some h \<Rightarrow> h"]
    by (simp add: printable_def print_address_def)
  then show "split_address (print_address port s) = (site_host s, port)"
    using assms by (auto simp: split_address_def printable_def is_word_def split: option.split)
qed

lemma block_address_word:
  assumes "is_word a" "hd a \<noteq> 35"
  shows "block_address (a @ [32]) = a"
proof -
  note w = is_wordD [OF assms(1)]
  have trim: "trim_ws (a @ [32]) = a" "trim_ws a = a"
    using trim_around [of "[]" a "[32]"] trim_none [of a] w by (auto simp: is_text_def ascii_ws_def)
  have "str_lines a = [a]"
    using str_lines_join [of "[a]"] w(1,6,7) word_byte_facts(3,4) by auto
  moreover have "trim_start_ws a = a" using w(1-3) by (cases a) (simp_all add: trim_start_ascii)
  moreover have "\<not> starts_with [35] a" using assms(2) w(1) by (cases a) (auto simp: starts_with_def)
  ultimately show ?thesis by (simp add: block_address_def trim)
qed

lemma parse_print_block:
  assumes "printable print_f64 port s" "numbers_read parse_f64 print_f64 s" "set nl \<subseteq> {10}"
  shows "parse_block parse_f64 (nl @ print_block print_f64 port s) = Some [s]"
proof -
  let ?a = "print_address port s" and ?wls = "site_lines print_f64 s"
  let ?body = "concat (map (\<lambda>l. join [32] l @ [10]) ?wls)"
  note aw = address_word [OF assms(1)] and w = is_wordD [OF address_word(1) [OF assms(1)]]
  have wls: "word_lines ?wls" by (rule site_lines_words [OF assms(1)])
  have "is_text nl" "\<forall>b \<in> set nl. ascii_ws b" using assms(3) newline_facts by (auto simp: is_text_def list_all_iff)
  note nl = this
  have block: "print_block print_f64 port s = (?a @ [32, 123]) @ 10 # ?body" by (simp add: print_block_def print_address_def)
  have ends: "is_text (?a @ [32, 123])" "\<not> ascii_ws (hd (?a @ x))" "\<not> ascii_ws (last (?a @ [32, 123]))" for x
    using w by (auto simp: ascii_ws_def in_range_def)
  have "\<exists>m. trim_ws (nl @ print_block print_f64 port s) = ?a @ [32, 123] @ m \<and> trim_ws m = trim_ws (10 # ?body)"
  proof (cases "?wls = []")
    case True
    have "trim_ws (nl @ (?a @ [32, 123]) @ [10]) = ?a @ [32, 123]"
      using nl ends newline_facts by (intro trim_around) auto
    then show ?thesis using block True newline_facts(3) by (intro exI [of _ "[]"]) simp
  next
    case False
    obtain b where b: "?body = b @ [10]" "b \<noteq> []" "is_text b" "\<not> ascii_ws (hd b)" "\<not> ascii_ws (last b)"
      by (rule body_shape [OF wls False])
    have "trim_ws (nl @ ((?a @ [32, 123]) @ [10] @ b) @ [10]) = (?a @ [32, 123]) @ [10] @ b"
      using nl ends newline_facts b by (intro trim_around) auto
    moreover have "trim_ws ([10] @ b) = b" "trim_ws ([10] @ b @ [10]) = b"
      using trim_around [of "[10]" b "[]"] trim_around [of "[10]" b "[10]"] newline_facts b by auto
    ultimately show ?thesis using block b(1) by (intro exI [of _ "[10] @ b"]) simp
  qed
  then obtain m where m: "trim_ws (nl @ print_block print_f64 port s) = ?a @ [32, 123] @ m" "trim_ws m = trim_ws (10 # ?body)" by blast
  have "123 \<notin> set (?a @ [32])" using w(7) word_byte_facts(6) by fastforce
  then have "split_once 123 ((?a @ [32]) @ 123 # m) = Some (?a @ [32], m)" by (rule split_once_sep)
  moreover have "block_address (?a @ [32]) = ?a" by (rule block_address_word [OF aw(1,2)])
  moreover have "apply_lines parse_f64 (str_lines (trim_ws m)) (new_site ?a) = Some s"
    using site_lines_applied [OF assms(1,2)] assms(1) aw(3)
    by (simp add: m(2) body_lines [OF wls] apply_lines_words [OF wls] new_site_def printable_def)
  ultimately show ?thesis using w(1) by (simp add: parse_block_def m(1) Let_def)
qed

section \<open>Properties\<close>

lemma print_block_no_brace:
  assumes "printable print_f64 port s"
  shows "125 \<notin> set (print_block print_f64 port s)"
proof -
  have "125 \<notin> set (print_address port s)" using is_wordD(7) [OF address_word(1) [OF assms]] word_byte_facts(7) by blast
  moreover have "125 \<notin> set (join [32] l)" if "l \<in> set (site_lines print_f64 s)" for l
    using site_lines_words [OF assms] that by (intro word_line(5)) (auto simp: word_lines_def)
  ultimately show ?thesis by (auto simp: print_block_def print_address_def)
qed

text \<open>
  (C19) The configuration file says what it means: the sites that are written to a file, one block each with the
  host, the port and one line per directive, are the sites that are read from it, in the same order and
  with nothing added.  The values are words of printing ASCII characters without braces (\<open>printable\<close>).  Of the format of numbers
  only the numbers that occur in the sites matter: each of the rates and bursts written has to be read back as
  itself, as Rust's \<^verbatim>\<open>Display\<close> and \<^verbatim>\<open>parse\<close> do with every finite \<^verbatim>\<open>f64\<close>.
\<close>

theorem caddyfile_roundtrip:
  assumes "\<And>port s. (port, s) \<in> set sites \<Longrightarrow> printable print_f64 port s \<and> numbers_read parse_f64 print_f64 s"
  shows "from_caddyfile parse_f64 (print_caddyfile print_f64 sites) = Some (map snd sites)"
proof -
  have "parse_blocks parse_f64 (split_on 125 (nl @ print_caddyfile print_f64 sites)) = Some (map snd sites)"
    if "set nl \<subseteq> {10}" for nl
    using that assms
  proof (induction sites arbitrary: nl)
    case Nil
    then have "125 \<notin> set nl" by auto
    moreover have "trim_ws nl = []"
      using Nil(1) newline_facts by (intro trim_all) (auto simp: is_text_def list_all_iff)
    ultimately show ?case by (simp add: print_caddyfile_def split_on_no_sep parse_block_def)
  next
    case (Cons site sites)
    obtain port s where site: "site = (port, s)" by (cases site)
    have pr: "printable print_f64 port s" "numbers_read parse_f64 print_f64 s" using Cons.prems site by auto
    have "125 \<notin> set (nl @ print_block print_f64 port s)"
      using print_block_no_brace [OF pr(1)] Cons.prems(1) by auto
    moreover have "nl @ print_caddyfile print_f64 (site # sites) =
        (nl @ print_block print_f64 port s) @ 125 # ([10] @ print_caddyfile print_f64 sites)"
      by (simp add: print_caddyfile_def site)
    ultimately have "split_on 125 (nl @ print_caddyfile print_f64 (site # sites)) =
        (nl @ print_block print_f64 port s) # split_on 125 ([10] @ print_caddyfile print_f64 sites)"
      using split_on_sep [of 125 "nl @ print_block print_f64 port s" "[10] @ print_caddyfile print_f64 sites"] by metis
    moreover have "parse_blocks parse_f64 (split_on 125 ([10] @ print_caddyfile print_f64 sites)) = Some (map snd sites)"
      using Cons.prems by (intro Cons.IH) auto
    ultimately show ?case
      using parse_print_block [OF pr Cons.prems(1)] by (simp add: site)
  qed
  from this [of "[]"] show ?thesis by (simp add: from_caddyfile_def)
qed

text \<open>A site with every kind of directive but a limit.\<close>

definition sample_site :: SiteConfig where
  "sample_site =
     \<lparr>listen_addr = ascii ''0.0.0.0:'' @ ascii ''8080'', site_host = Some (ascii ''vh.localhost''), site_root = Some (ascii ''./sites/vh''),
      site_file_server = True, site_gzip = True, site_log = False, site_reverse_proxy = Some (ascii ''127.0.0.1:9000''),
      site_basic_auth = Some (ascii ''admin:secret'', ascii ''Staging''), site_rate_limit = None\<rparr>"

lemma sample_words:
  "is_word (ascii ''8080'')" "is_word (ascii ''vh.localhost'')" "is_word (ascii ''./sites/vh'')" "is_word (ascii ''127.0.0.1:9000'')"
  "is_word (ascii ''admin'')" "is_word (ascii ''secret'')" "is_word (ascii ''Staging'')"
  by (simp_all add: is_word_def ascii_def word_byte_def in_range_def)

lemma sample_printable: "printable print_f64 (ascii ''8080'') sample_site"
proof -
  have "split_once 58 (ascii ''admin:secret'') = Some (ascii ''admin'', ascii ''secret'')" by (simp add: ascii_def)
  then show ?thesis
    by (simp add: printable_def sample_site_def sample_words) (simp add: ascii_def)
qed

text \<open>
  Decimal numbers, written without a sign and with one digit after the point where there is one, and read with any
  number of digits.
\<close>

definition print_decimal :: "rat \<Rightarrow> bytes" where
  "print_decimal r =
     (let n = nat \<lfloor>r * 10\<rfloor> in show_nat (n div 10) @ (if n mod 10 = 0 then [] else [46] @ show_nat (n mod 10)))"

definition read_decimal :: "bytes \<Rightarrow> rat option" where
  "read_decimal s =
     (case split_once 46 s of
        None \<Rightarrow> if s = [] then None else map_option of_nat (digits_value 10 0 s)
      | Some (a, b) \<Rightarrow>
          if a @ b = [] then None
          else map_option (\<lambda>n. of_nat n / 10 ^ length b) (digits_value 10 0 (a @ b)))"

definition limited_site :: SiteConfig where
  "limited_site = sample_site\<lparr>site_host := None, site_rate_limit := Some (5 / 2, 10)\<rparr>"

lemma decimals_printed: "print_decimal (5 / 2) = ascii ''2.5''" "print_decimal 10 = ascii ''10''"
  by (simp_all add: print_decimal_def show_nat_def show_radix.simps digit_char_def ascii_def)

lemma decimals_read: "read_decimal (ascii ''2.5'') = Some (5 / 2)" "read_decimal (ascii ''10'') = Some 10"
  by (simp_all add: read_decimal_def ascii_def digit_value_def in_range_def)

lemma limited_printable: "printable print_decimal (ascii ''8080'') limited_site"
proof -
  have "is_word (ascii ''2.5'')" "is_word (ascii ''10'')"
    by (simp_all add: is_word_def ascii_def word_byte_def in_range_def)
  moreover have "print_decimal r = ascii ''2.5''" if "r * 2 = 5" for r
  proof -
    have "r = 5 / 2" using that by linarith
    then show ?thesis by (simp only: decimals_printed)
  qed
  ultimately show ?thesis
    using sample_printable [of print_decimal] by (simp add: printable_def limited_site_def decimals_printed)
qed

text \<open>A virtual host without a limit and a site with one of 2.5 requests a second and a burst of 10.\<close>

theorem caddyfile_roundtrip_witness:
  "from_caddyfile read_decimal (print_caddyfile print_decimal [(ascii ''8080'', sample_site), (ascii ''8080'', limited_site)]) =
     Some [sample_site, limited_site]"
proof -
  have "numbers_read read_decimal print_decimal sample_site" "numbers_read read_decimal print_decimal limited_site"
    by (simp_all add: numbers_read_def site_numbers_def sample_site_def limited_site_def decimals_printed decimals_read)
  then show ?thesis
    using caddyfile_roundtrip [of "[(ascii ''8080'', sample_site), (ascii ''8080'', limited_site)]" print_decimal read_decimal]
      sample_printable limited_printable by fastforce
qed

end
