(* ===== verification/Http_Server.thy ===== *)
theory Http_Server
  imports Http_Files Caddyfile Rate_Limiter Hash_Map
begin

text \<open>
  The server of minicaddy: \<^verbatim>\<open>inbounds/http.rs\<close> and \<^verbatim>\<open>inbounds/http_proxy.rs\<close>.  The parsers of
  \<^verbatim>\<open>httparse\<close>, \<^verbatim>\<open>base64\<close>, the upstream servers and the clock are in the record
  \<open>server_env\<close>.  \<open>se_clock e k\<close> is the time at which the \<open>k\<close>-th request of a connection asks the limiter, and
  \<open>se_others e k\<close> what the other connections of the listener, which share the limiter, have done to it since the request
  before.
\<close>

section \<open>The world of the server\<close>

record HttpRequest =
  req_method :: "bytes option"
  req_path :: "bytes option"
  req_headers :: "Header list"

text \<open>What \<^verbatim>\<open>parse\<close> of \<^verbatim>\<open>httparse\<close> says of a buffer: the size of the head and what it holds.\<close>

datatype 'a parse_status = Complete nat 'a | Partial | ParseError

text \<open>An upstream server: connecting fails with a reason, or the answer to the request comes in pieces.\<close>

datatype upstream = Refused bytes | Connected input

record server_env =
  se_web :: web_env
  se_base64 :: "bytes \<Rightarrow> bytes option"
  se_parse_request :: "bytes \<Rightarrow> HttpRequest parse_status"
  se_parse_response :: "bytes \<Rightarrow> unit parse_status"
  se_upstream :: "bytes \<Rightarrow> bytes \<Rightarrow> upstream"
  se_clock :: "nat \<Rightarrow> instant"
  se_client_ip :: bytes
  se_others :: "nat \<Rightarrow> TokenBucket \<Rightarrow> TokenBucket"

section \<open>The reverse proxy\<close>

definition upstream_path :: "bytes \<Rightarrow> bytes" where
  "upstream_path path =
     (let p = (case strip_prefix (ascii ''/api'') path of Some p \<Rightarrow> p | None \<Rightarrow> path)
      in if p = [] then ascii ''/'' else p)"

text \<open>All that is written to the upstream server.\<close>

definition proxy_request :: "bytes \<Rightarrow> bytes \<Rightarrow> bytes \<Rightarrow> Header list \<Rightarrow> bytes \<Rightarrow> bytes" where
  "proxy_request client_ip method path headers body =
     copy_headers (method @ ascii '' '' @ upstream_path path @ ascii '' HTTP/1.1'' @ CRLF) headers @
     ascii ''X-Forwarded-For: '' @ client_ip @ CRLF @ ascii ''X-Forwarded-Proto: http'' @ CRLF @ CRLF @ body"

definition reverse_proxy :: "server_env \<Rightarrow> bytes \<Rightarrow> bytes \<Rightarrow> Header list \<Rightarrow> bytes \<Rightarrow> bytes \<Rightarrow> response" where
  "reverse_proxy e method path headers body upstream_addr =
     (case se_upstream e upstream_addr (proxy_request (se_client_ip e) method path headers body) of
        Refused reason \<Rightarrow> (write_502 reason, Done ())
      | Connected (ps, en) \<Rightarrow>
          (case ps of
             [] \<Rightarrow>
               (case en of
                  Closed \<Rightarrow> (write_502 (ascii ''upstream closed connection''), Done ())
                | Broken \<Rightarrow> ([], Failed IoError)
                | Silent \<Rightarrow> ([], Blocked))
           | buf # rest \<Rightarrow>
               (case se_parse_response e buf of
                  Partial \<Rightarrow> (write_502 (ascii ''incomplete response''), Done ())
                | ParseError \<Rightarrow> (write_502 (ascii ''bad response''), Done ())
                | Complete header_size _ \<Rightarrow>
                    (take header_size buf @ (if header_size < length buf then drop header_size buf else []) @ concat rest,
                     read_end en (Done ())))))"

section \<open>One request\<close>

definition DEFAULT_ROOT :: bytes where "DEFAULT_ROOT = ascii ''./www''"

definition choose_site :: "SiteConfig list \<Rightarrow> bytes \<Rightarrow> SiteConfig option" where
  "choose_site sites host =
     (case find (\<lambda>s. site_host s = Some host) sites of
        Some s \<Rightarrow> Some s
      | None \<Rightarrow> find (\<lambda>s. site_host s = None) sites)"

definition plain_404 :: bytes where
  "plain_404 =
     (let body = ascii ''404 Not Found'' in
      ascii ''HTTP/1.1 404 Not Found'' @ CRLF @ ascii ''Content-Type: text/plain'' @ CRLF @
      ascii ''Content-Length: '' @ show_nat (length body) @ CRLF @ ascii ''Connection: close'' @ CRLF @ CRLF @ body)"

text \<open>The answer of a site that lets the request pass.\<close>

definition site_answer :: "server_env \<Rightarrow> SiteConfig \<Rightarrow> HttpRequest \<Rightarrow> bytes \<Rightarrow> bool \<Rightarrow> response" where
  "site_answer e site req body keep_alive =
     (let method = (case req_method req of None \<Rightarrow> ascii ''GET'' | Some m \<Rightarrow> m);
          path = (case req_path req of None \<Rightarrow> ascii ''/'' | Some p \<Rightarrow> p)
      in case site_reverse_proxy site of
           Some upstream \<Rightarrow> reverse_proxy e method path (req_headers req) body upstream
         | None \<Rightarrow>
             if site_file_server site
             then file_server (se_web e) method path (req_headers req) keep_alive
                    (case site_root site of None \<Rightarrow> DEFAULT_ROOT | Some r \<Rightarrow> r) (site_gzip site)
             else (plain_404, Done ()))"

text \<open>
  \<^verbatim>\<open>handle_request\<close>: what is written, the limiter afterwards, and the bytes read beyond the request with what
  the connection still delivers.
\<close>

definition limiter_allows :: "instant \<Rightarrow> TokenBucket option \<Rightarrow> bool \<times> TokenBucket option" where
  "limiter_allows now limiter =
     (case limiter of
        None \<Rightarrow> (True, None)
      | Some b \<Rightarrow> (let (allowed, b) = try_consume now b in (allowed, Some b)))"

definition handle_request :: "server_env \<Rightarrow> SiteConfig list \<Rightarrow> instant \<Rightarrow> TokenBucket option \<Rightarrow> HttpRequest \<Rightarrow> bytes \<Rightarrow>
    input \<Rightarrow> bool \<Rightarrow> bytes \<times> TokenBucket option \<times> (bytes \<times> input) outcome" where
  "handle_request e sites now limiter req body_prefix inp keep_alive =
     (case read_body inp body_prefix (req_headers req) of
        Failed err \<Rightarrow> ([], limiter, Failed err)
      | Panicked \<Rightarrow> ([], limiter, Panicked)
      | Blocked \<Rightarrow> ([], limiter, Blocked)
      | Done (body, leftover, inp) \<Rightarrow>
          let (allowed, limiter) = limiter_allows now limiter;
              host = (case get_header (req_headers req) (ascii ''Host'') of None \<Rightarrow> ascii ''localhost'' | Some h \<Rightarrow> h)
          in if \<not> allowed then (write_429, limiter, Done (leftover, inp))
             else case choose_site sites host of
                    None \<Rightarrow> ([], limiter, Panicked)
                  | Some site \<Rightarrow>
                      if (case site_basic_auth site of
                            None \<Rightarrow> False
                          | Some (expected, _) \<Rightarrow> \<not> check_auth (se_base64 e) (req_headers req) expected)
                      then (write_401, limiter, Done (leftover, inp))
                      else let (written, r) = site_answer e site req body keep_alive
                           in (written, limiter, bind_outcome r (\<lambda>_. Done (leftover, inp))))"

section \<open>One connection\<close>

definition bad_request :: bytes where
  "bad_request = ascii ''HTTP/1.1 400 Bad Request'' @ CRLF @ ascii ''Content-Length: 0'' @ CRLF @ ascii ''Connection: close'' @ CRLF @ CRLF"

text \<open>The limiter as the \<open>k\<close>-th request finds it.\<close>

definition limiter_at :: "server_env \<Rightarrow> nat \<Rightarrow> TokenBucket option \<Rightarrow> TokenBucket option" where
  "limiter_at e k limiter = map_option (se_others e k) limiter"

text \<open>
  The loop of \<^verbatim>\<open>serve_connection\<close>, with fuel: \<open>None\<close> means that the fuel was not enough.  A silent client is
  given up after the idle time.
\<close>

fun serve_loop :: "server_env \<Rightarrow> SiteConfig list \<Rightarrow> nat \<Rightarrow> nat \<Rightarrow> TokenBucket option \<Rightarrow> bytes \<Rightarrow> input \<Rightarrow>
    (bytes \<times> TokenBucket option \<times> unit outcome) option" where
  "serve_loop e sites 0 k limiter buffer inp = None"
| "serve_loop e sites (Suc fuel) k limiter buffer inp =
     (case se_parse_request e buffer of
        Complete header_size req \<Rightarrow>
          let keep_alive = wants_keep_alive (req_headers req);
              (written, limiter, r) =
                handle_request e sites (se_clock e k) (limiter_at e k limiter) req (drop header_size buffer) inp keep_alive
          in (case r of
                Failed err \<Rightarrow> Some (written, limiter, Failed err)
              | Panicked \<Rightarrow> Some (written, limiter, Panicked)
              | Blocked \<Rightarrow> Some (written, limiter, Blocked)
              | Done (buffer, inp) \<Rightarrow>
                  if \<not> keep_alive then Some (written, limiter, Done ())
                  else map_option (\<lambda>(later, limiter, r). (written @ later, limiter, r))
                         (serve_loop e sites fuel (k + 1) limiter buffer inp))
      | ParseError \<Rightarrow> Some (bad_request, limiter, Failed IoError)
      | Partial \<Rightarrow>
          (case inp of
             (p # ps, en) \<Rightarrow> serve_loop e sites fuel k limiter (buffer @ p) (ps, en)
           | ([], Closed) \<Rightarrow>
               Some ([], limiter, if buffer = [] then Done () else Failed (InvalidRequest (ascii ''incomplete request'')))
           | ([], Broken) \<Rightarrow> Some ([], limiter, Failed IoError)
           | ([], Silent) \<Rightarrow> Some ([], limiter, Done ())))"

definition serve_fuel :: "bytes \<Rightarrow> input \<Rightarrow> nat" where
  "serve_fuel buffer inp = length (buffer @ concat (fst inp)) + length (fst inp) + 1"

definition serve_connection :: "server_env \<Rightarrow> SiteConfig list \<Rightarrow> TokenBucket option \<Rightarrow> input \<Rightarrow>
    (bytes \<times> TokenBucket option \<times> unit outcome) option" where
  "serve_connection e sites limiter inp = serve_loop e sites (serve_fuel [] inp) 0 limiter [] inp"

section \<open>Listeners\<close>

text \<open>\<^verbatim>\<open>run_all\<close> groups the sites by their address; \<^verbatim>\<open>run_http\<close> makes one limiter for a group.\<close>

fun group_sites :: "SiteConfig list \<Rightarrow> (bytes, SiteConfig list) hash_map \<Rightarrow> (bytes, SiteConfig list) hash_map" where
  "group_sites [] by_port = by_port"
| "group_sites (site # sites) by_port =
     group_sites sites
       (hm_insert (listen_addr site)
          ((case hm_get by_port (listen_addr site) of None \<Rightarrow> [] | Some ss \<Rightarrow> ss) @ [site]) by_port)"

fun first_rate_limit :: "SiteConfig list \<Rightarrow> (rat \<times> rat) option" where
  "first_rate_limit [] = None"
| "first_rate_limit (s # ss) = (case site_rate_limit s of Some rl \<Rightarrow> Some rl | None \<Rightarrow> first_rate_limit ss)"

definition listener_limiter :: "instant \<Rightarrow> SiteConfig list \<Rightarrow> TokenBucket option" where
  "listener_limiter now sites = map_option (\<lambda>(r, b). token_bucket_new now r b) (first_rate_limit sites)"

end
