(* ===== verification/Http_Server_Correct.thy ===== *)
theory Http_Server_Correct
  imports Http_Server
begin

text \<open>
  What the server guarantees of a connection: it is served to its end, requests without the right password do
  not pass, and which site answers.
\<close>

lemma limiter_at_None [simp]: "limiter_at e k None = None"
  by (simp add: limiter_at_def)

section \<open>What is read\<close>

text \<open>
  The bytes and pieces that reading leaves of those there were, and what the loops use up: bytes and pieces.
\<close>

definition remaining :: "bytes \<Rightarrow> bytes list \<Rightarrow> nat" where
  "remaining buf ps = length (buf @ concat ps) + length ps"

definition left_of :: "bytes \<Rightarrow> bytes list \<Rightarrow> bytes \<Rightarrow> bytes list \<Rightarrow> bool" where
  "left_of buf' ps' buf ps = (suffix (buf' @ concat ps') (buf @ concat ps) \<and> suffix ps' ps)"

lemma left_of_refl [simp]: "left_of buf ps buf ps"
  by (simp add: left_of_def)

lemma left_of_trans: "left_of c p3 b p2 \<Longrightarrow> left_of b p2 a p1 \<Longrightarrow> left_of c p3 a p1"
  unfolding left_of_def by (meson suffix_order.trans)

lemma left_of_drop: "left_of (drop n buf) ps buf ps"
proof -
  have "buf @ concat ps = take n buf @ drop n buf @ concat ps" by simp
  then show ?thesis unfolding left_of_def suffix_def by blast
qed

lemma left_of_nil: "left_of [] ps buf ps"
  using left_of_drop [of "length buf" buf ps] by simp

lemma left_of_read: "left_of (buf @ p) ps buf (p # ps)"
  by (simp add: left_of_def suffix_ConsI)

lemma left_of_fill: "fill ready buf ps = (b, buf', ps') \<Longrightarrow> left_of buf' ps' buf ps"
  by (induction ready buf ps arbitrary: b buf' ps' rule: fill.induct)
    (auto split: if_splits intro: left_of_trans [OF _ left_of_read])

lemma left_of_remaining: "left_of buf' ps' buf ps \<Longrightarrow> remaining buf' ps' \<le> remaining buf ps"
  unfolding left_of_def remaining_def using suffix_length_le by (metis add_mono)

lemma read_end_cases:
  "read_end en r = Done x \<Longrightarrow> r = Done x"
  "read_end en r = Blocked \<Longrightarrow> r \<noteq> Blocked \<Longrightarrow> en = Silent"
  by (cases en; simp add: read_end_def)+

lemma after_last_chunk_left:
  assumes "after_last_chunk en buf ps body = Done (b, left, ps')"
  shows "left_of left ps' buf ps"
proof (cases "starts_with CRLF buf")
  case True
  then show ?thesis using assms left_of_drop by (auto simp: after_last_chunk_def)
next
  case False
  obtain ok b1 ps1 where f: "fill (contains_sub (CRLF @ CRLF)) buf ps = (ok, b1, ps1)" by (metis prod_cases3)
  show ?thesis
    using assms False f left_of_trans [OF left_of_drop left_of_fill [OF f]] left_of_trans [OF left_of_nil left_of_fill [OF f]]
    by (auto simp: after_last_chunk_def dest!: read_end_cases(1) split: if_splits)
qed

lemma chunks_loop_left:
  "chunks_loop en buf ps body = Done (b, left, ps') \<Longrightarrow> left_of left ps' buf ps"
proof (induction en buf ps body rule: chunks_loop.induct)
  case (1 en buf ps body)
  obtain ok b1 ps1 where f1: "fill (contains_sub CRLF) buf ps = (ok, b1, ps1)" by (metis prod_cases3)
  have ok using "1.prems" f1 by (subst (asm) chunks_loop.simps) (auto dest!: read_end_cases(1) split: if_splits)
  let ?i = "the (find_sub CRLF b1)" and ?b2 = "drop (the (find_sub CRLF b1) + 2) b1"
  have r1: "left_of ?b2 ps1 buf ps" by (rule left_of_trans [OF left_of_drop left_of_fill [OF f1]])
  obtain n where n: "chunk_size (take ?i b1) = Inr n"
    using "1.prems" f1 \<open>ok\<close>
    by (subst (asm) chunks_loop.simps; cases "chunk_size (take ?i b1)") (simp_all add: Let_def)
  show ?case
  proof (cases "n = 0")
    case True
    then have "after_last_chunk en ?b2 ps1 body = Done (b, left, ps')"
      using "1.prems" f1 \<open>ok\<close> n by (subst (asm) chunks_loop.simps) simp
    then show ?thesis using after_last_chunk_left r1 left_of_trans by blast
  next
    case False
    obtain ok2 b3 ps3 where f2: "fill (\<lambda>buf. length buf \<ge> (n + 2) mod 2 ^ 64) ?b2 ps1 = (ok2, b3, ps3)" by (metis prod_cases3)
    have more: "ok2" "n \<le> length b3" and rec: "chunks_loop en (drop (n + 2) b3) ps3 (body @ take n b3) = Done (b, left, ps')"
      using "1.prems" f1 \<open>ok\<close> n False f2
      by (subst (asm) chunks_loop.simps; auto simp: Let_def dest!: read_end_cases(1) split: if_splits)+
    have "left_of left ps' (drop (n + 2) b3) ps3"
      using "1.IH" [OF refl f1 [symmetric] refl _ refl n refl False refl f2 [symmetric] refl _ _ rec] \<open>ok\<close> more by simp
    then show ?thesis using left_of_trans [OF left_of_drop left_of_fill [OF f2]] r1 left_of_trans by blast
  qed
qed

text \<open>A read that never returns is one of a silent client.\<close>

lemma chunks_loop_blocked: "chunks_loop en buf ps body = Blocked \<Longrightarrow> en = Silent"
proof (induction en buf ps body rule: chunks_loop.induct)
  case (1 en buf ps body)
  obtain ok b1 ps1 where f1: "fill (contains_sub CRLF) buf ps = (ok, b1, ps1)" by (metis prod_cases3)
  let ?i = "the (find_sub CRLF b1)" and ?b2 = "drop (the (find_sub CRLF b1) + 2) b1"
  show ?case
  proof (cases ok)
    case False
    then have "read_end en (Failed truncated) = (Blocked :: (bytes \<times> bytes \<times> bytes list) outcome)"
      using "1.prems" f1 by (subst (asm) chunks_loop.simps) simp
    then show ?thesis by (rule read_end_cases(2)) simp
  next
    case True
    then obtain n where n: "chunk_size (take ?i b1) = Inr n"
      using "1.prems" f1 by (subst (asm) chunks_loop.simps; cases "chunk_size (take ?i b1)") (simp_all add: Let_def)
    show ?thesis
    proof (cases "n = 0")
      case True
      then have "after_last_chunk en ?b2 ps1 body = Blocked"
        using "1.prems" f1 \<open>ok\<close> n by (subst (asm) chunks_loop.simps) simp
      then show ?thesis
        by (auto simp: after_last_chunk_def case_prod_beta Let_def dest!: read_end_cases(2) split: if_splits)
    next
      case False
      obtain ok2 b3 ps3 where f2: "fill (\<lambda>buf. length buf \<ge> (n + 2) mod 2 ^ 64) ?b2 ps1 = (ok2, b3, ps3)" by (metis prod_cases3)
      have "read_end en (Failed truncated) = (Blocked :: (bytes \<times> bytes \<times> bytes list) outcome) \<or>
          ok2 \<and> n \<le> length b3 \<and> chunks_loop en (drop (n + 2) b3) ps3 (body @ take n b3) = Blocked"
        using "1.prems" f1 \<open>ok\<close> n False f2
        by (subst (asm) chunks_loop.simps) (auto simp: Let_def split: if_splits)
      then show ?thesis
      proof
        assume "read_end en (Failed truncated) = (Blocked :: (bytes \<times> bytes \<times> bytes list) outcome)"
        then show ?thesis by (rule read_end_cases(2)) simp
      next
        assume "ok2 \<and> n \<le> length b3 \<and> chunks_loop en (drop (n + 2) b3) ps3 (body @ take n b3) = Blocked"
        then show ?thesis
          using "1.IH" [OF refl f1 [symmetric] refl _ refl n refl False refl f2 [symmetric] refl] \<open>ok\<close> by simp
      qed
    qed
  qed
qed

definition announced_length :: "Header list \<Rightarrow> nat" where
  "announced_length headers =
     (case Option.bind (get_header headers (ascii ''Content-Length'')) (parse_uint U64_MAX) of None \<Rightarrow> 0 | Some n \<Rightarrow> n)"

definition chunked :: "Header list \<Rightarrow> bool" where
  "chunked headers =
     (case get_header headers (ascii ''Transfer-Encoding'') of None \<Rightarrow> False | Some v \<Rightarrow> eq_ignore_ascii_case v (ascii ''chunked''))"

lemma read_body_left:
  assumes "read_body (ps, en) buf headers = Done (body, left, ps', en')"
  shows "left_of left ps' buf ps \<and> en' = en"
proof (cases "chunked headers")
  case True
  then have "read_chunked_body (ps, en) buf = Done (body, left, ps', en')"
    using assms by (simp add: read_body_def chunked_def)
  then show ?thesis
    using chunks_loop_left by (auto simp: read_chunked_body_def bind_outcome_def split: outcome.splits)
next
  case False
  obtain ok b ps'' where f: "fill (\<lambda>buf. length buf \<ge> announced_length headers) buf ps = (ok, b, ps'')" by (metis prod_cases3)
  have "left = buf \<and> ps' = ps \<and> en' = en \<or> left = drop (announced_length headers) b \<and> ps' = ps'' \<and> en' = en"
    using assms f False unfolding read_body_def announced_length_def [symmetric] chunked_def [symmetric] Let_def
    by (auto dest!: read_end_cases(1) split: if_splits)
  then show ?thesis using left_of_trans [OF left_of_drop left_of_fill [OF f]] by auto
qed

text \<open>Reading a body never returns only when the client is silent, and has sent less than it has announced.\<close>

lemma read_body_blocked:
  assumes "read_body (ps, en) buf headers = Blocked"
  shows "en = Silent \<and> (chunked headers \<or> length (buf @ concat ps) < announced_length headers)"
proof (cases "chunked headers")
  case True
  then have "read_chunked_body (ps, en) buf = Blocked" using assms by (simp add: read_body_def chunked_def)
  then show ?thesis
    using chunks_loop_blocked True by (auto simp: read_chunked_body_def bind_outcome_def split: outcome.splits)
next
  case False
  let ?n = "announced_length headers"
  obtain ok b ps' where f: "fill (\<lambda>buf. length buf \<ge> ?n) buf ps = (ok, b, ps')" by (metis prod_cases3)
  have r: "\<not> ok" "read_end en (Failed (InvalidRequest (ascii ''body truncated''))) = (Blocked :: (bytes \<times> bytes \<times> input) outcome)"
    using assms f False unfolding read_body_def announced_length_def [symmetric] chunked_def [symmetric] Let_def
    by (auto split: if_splits)
  have "length (buf @ concat ps) = length b" "length b < ?n"
    using fill_bytes [OF f] fill_ready [OF f] r(1) by (metis append_Nil2 concat.simps(1), simp)
  then show ?thesis using read_end_cases(2) [OF r(2)] by simp
qed

section \<open>Waiting\<close>

text \<open>
  The other read without a timeout: the site of the request forwards it to an upstream server, which has taken the
  request and stops sending.
\<close>

definition upstream_silent :: "server_env \<Rightarrow> SiteConfig list \<Rightarrow> HttpRequest \<Rightarrow> bytes \<Rightarrow> bool" where
  "upstream_silent e sites req body =
     (\<exists>site \<in> set sites. \<exists>upstream rs. site_reverse_proxy site = Some upstream \<and>
        se_upstream e upstream (proxy_request (se_client_ip e)
          (case req_method req of None \<Rightarrow> ascii ''GET'' | Some m \<Rightarrow> m)
          (case req_path req of None \<Rightarrow> ascii ''/'' | Some p \<Rightarrow> p) (req_headers req) body) = Connected (rs, Silent))"

lemma serve_range_not_blocked: "snd (serve_range content val ct etag conn is_head) \<noteq> Blocked"
  by (simp add: serve_range_def Let_def split: option.split)

lemma serve_file_not_blocked: "snd (serve_file e target content mtime headers conn is_head gz) \<noteq> Blocked"
  by (simp add: serve_file_def serve_range_not_blocked Let_def split: option.split)

lemma serve_dir_not_blocked: "snd (serve_dir e target path conn is_head gz) \<noteq> Blocked"
  by (simp add: serve_dir_def Let_def split: option.split)

lemma file_server_not_blocked: "snd (file_server e method path headers ka dir gz) \<noteq> Blocked"
  by (simp add: file_server_def serve_dir_not_blocked serve_file_not_blocked Let_def split: option.split node.split)

lemma reverse_proxy_blocked:
  assumes "snd (reverse_proxy e method path headers body addr) = Blocked"
  shows "\<exists>rs. se_upstream e addr (proxy_request (se_client_ip e) method path headers body) = Connected (rs, Silent)"
  using assms
  by (auto simp: reverse_proxy_def read_end_def split: upstream.splits list.splits stream_end.splits parse_status.splits)

lemma choose_site_in: "choose_site sites host = Some site \<Longrightarrow> site \<in> set sites"
  by (auto simp: choose_site_def find_Some_iff dest: nth_mem split: option.splits)

lemma handle_request_blocked:
  assumes "handle_request e sites now limiter req buf inp ka = (w, l, Blocked)"
  shows "read_body inp buf (req_headers req) = Blocked \<or>
    (\<exists>body left inp'. read_body inp buf (req_headers req) = Done (body, left, inp') \<and> upstream_silent e sites req body)"
proof (cases "read_body inp buf (req_headers req)")
  case (Done x)
  obtain body left inp' where x: "x = (body, left, inp')" by (metis prod_cases3)
  from assms obtain site where site: "site \<in> set sites" "snd (site_answer e site req body ka) = Blocked"
    by (auto simp: handle_request_def Done x Let_def case_prod_beta bind_outcome_def dest!: choose_site_in
        split: if_splits option.splits outcome.splits)
  have "upstream_silent e sites req body"
  proof (cases "site_reverse_proxy site")
    case None
    then show ?thesis using site(2) file_server_not_blocked by (auto simp: site_answer_def Let_def split: if_splits)
  next
    case (Some upstream)
    then show ?thesis
      using site reverse_proxy_blocked unfolding upstream_silent_def site_answer_def Let_def by fastforce
  qed
  then show ?thesis by (auto simp: Done x)
qed (use assms in \<open>auto simp: handle_request_def\<close>)

lemma handle_request_left:
  assumes "handle_request e sites now limiter req buf (ps, en) keep_alive = (w, limiter', Done (left, ps', en'))"
  shows "left_of left ps' buf ps \<and> en' = en \<and>
    (\<exists>body. read_body (ps, en) buf (req_headers req) = Done (body, left, ps', en))"
proof -
  obtain body l p en'' where b: "read_body (ps, en) buf (req_headers req) = Done (body, l, p, en'')"
    using assms by (cases "read_body (ps, en) buf (req_headers req)") (auto simp: handle_request_def)
  have "l = left \<and> p = ps' \<and> en'' = en'"
    using assms
    by (auto simp: handle_request_def b Let_def case_prod_beta bind_outcome_def split: if_splits option.splits outcome.splits)
  then show ?thesis using read_body_left [OF b] b by simp
qed

section \<open>A connection is served to its end\<close>

text \<open>
  What the server relies on of \<^verbatim>\<open>httparse\<close>: a complete head has at least one byte and lies in the buffer.
\<close>

definition parser_ok :: "(bytes \<Rightarrow> 'a parse_status) \<Rightarrow> bool" where
  "parser_ok parse = (\<forall>buf n r. parse buf = Complete n r \<longrightarrow> 0 < n \<and> n \<le> length buf)"

text \<open>
  Where the server is in the stream \<open>inp\<close> of a client: the buffer and the pieces not read when it looks for a request, after
  whole requests.
\<close>

inductive reached :: "server_env \<Rightarrow> input \<Rightarrow> bytes \<Rightarrow> bytes list \<Rightarrow> bool" for e inp where
  start: "reached e inp [] (fst inp)"
| read_piece: "reached e inp buf (p # ps) \<Longrightarrow> se_parse_request e buf = Partial \<Longrightarrow> reached e inp (buf @ p) ps"
| whole_request: "reached e inp buf ps \<Longrightarrow> se_parse_request e buf = Complete n req \<Longrightarrow>
    read_body (ps, snd inp) (drop n buf) (req_headers req) = Done (body, left, ps', snd inp) \<Longrightarrow> reached e inp left ps'"

lemma reached_left: "reached e inp buf ps \<Longrightarrow> left_of buf ps [] (fst inp)"
proof (induction rule: reached.induct)
  case (read_piece buf p ps)
  then show ?case using left_of_trans [OF left_of_read] by blast
next
  case (whole_request buf ps n req body left ps')
  then show ?case using left_of_trans [OF left_of_trans [OF conjunct1 [OF read_body_left] left_of_drop]] by blast
qed simp

text \<open>
  A request at which the server waits: for the rest of its body, of which less has come than was announced, from a
  client that has fallen silent, or for an upstream server.
\<close>

definition waits_at :: "server_env \<Rightarrow> SiteConfig list \<Rightarrow> input \<Rightarrow> HttpRequest \<Rightarrow> bool" where
  "waits_at e sites inp req =
     (\<exists>n buf ps. reached e inp buf ps \<and> se_parse_request e buf = Complete n req \<and>
        (snd inp = Silent \<and> read_body (ps, Silent) (drop n buf) (req_headers req) = Blocked \<and>
           (chunked (req_headers req) \<or> length (drop n buf @ concat ps) < announced_length (req_headers req)) \<or>
         (\<exists>body left inp'. read_body (ps, snd inp) (drop n buf) (req_headers req) = Done (body, left, inp') \<and>
           upstream_silent e sites req body)))"

lemma serve_loop_ends:
  assumes "parser_ok (se_parse_request e)"
  shows "reached e inp buf ps \<Longrightarrow> remaining buf ps < fuel \<Longrightarrow>
    \<exists>w l r. serve_loop e sites fuel k limiter buf (ps, snd inp) = Some (w, l, r) \<and>
      (r = Blocked \<longrightarrow> (\<exists>req. waits_at e sites inp req))"
proof (induction fuel arbitrary: k limiter buf ps)
  case (Suc fuel)
  let ?en = "snd inp"
  show ?case
  proof (cases "se_parse_request e buf")
    case (Complete n req)
    have n: "0 < n" "n \<le> length buf" using assms Complete by (auto simp: parser_ok_def)
    let ?h = "handle_request e sites (se_clock e k) (limiter_at e k limiter) req (drop n buf) (ps, ?en) (wants_keep_alive (req_headers req))"
    obtain w l r where h: "?h = (w, l, r)" by (metis prod_cases3)
    show ?thesis
    proof (cases r)
      case (Done x)
      obtain left ps' en' where x: "x = (left, ps', en')" by (metis prod_cases3)
      from handle_request_left [OF h [unfolded Done x]] obtain body where
        left: "left_of left ps' (drop n buf) ps" "en' = ?en"
          "read_body (ps, ?en) (drop n buf) (req_headers req) = Done (body, left, ps', ?en)" by blast
      have "remaining (drop n buf) ps < fuel" using Suc.prems(2) n by (simp add: remaining_def)
      then have "remaining left ps' < fuel" using left_of_remaining [OF left(1)] by simp
      from Suc.IH [OF reached.whole_request [OF Suc.prems(1) Complete left(3)] this, of "k + 1" l] show ?thesis
        using Complete h Done x left(2) by auto
    next
      case Blocked
      have "waits_at e sites inp req"
        using handle_request_blocked [OF h [unfolded Blocked]] read_body_blocked [of ps ?en "drop n buf" "req_headers req"]
          Suc.prems(1) Complete
        unfolding waits_at_def by metis
      then show ?thesis using Complete h Blocked by auto
    qed (use Complete h in auto)
  next
    case Partial
    show ?thesis
    proof (cases ps)
      case Nil
      then show ?thesis using Partial by (cases ?en) auto
    next
      case (Cons p ps')
      have "remaining (buf @ p) ps' < fuel" using Suc.prems(2) Cons by (simp add: remaining_def)
      from Suc.IH [OF reached.read_piece [OF Suc.prems(1) [unfolded Cons] Partial] this, of k limiter] show ?thesis
        using Partial Cons by simp
    qed
  qed simp
qed simp

section \<open>Properties\<close>


text \<open>A parser that takes everything up to the first blank line for a request without headers.\<close>

definition line_parser :: "bytes \<Rightarrow> HttpRequest parse_status" where
  "line_parser buf =
     (case find_sub (CRLF @ CRLF) buf of
        None \<Rightarrow> Partial
      | Some i \<Rightarrow> Complete (i + 4) \<lparr>req_method = None, req_path = None, req_headers = []\<rparr>)"

lemma line_parser_ok: "parser_ok line_parser"
  by (auto simp: parser_ok_def line_parser_def CRLF_def dest!: find_sub_bound split: option.splits)

definition small_server :: server_env where
  "small_server = \<lparr>se_web = small_env, se_base64 = Some, se_parse_request = line_parser, se_parse_response = (\<lambda>_. Partial),
     se_upstream = (\<lambda>_ _. Refused []), se_clock = (\<lambda>_. 0), se_client_ip = ascii ''127.0.0.1'',
     se_others = (\<lambda>_ b. b)\<rparr>"


text \<open>
  (C30) Nothing behind a password is reached without it.  A request that the limiter lets pass and that is for a
  site with \<^verbatim>\<open>basic_auth\<close> is answered by \<^verbatim>\<open>401\<close> and nothing else, whatever files and
  upstream servers there are, unless its \<^verbatim>\<open>Authorization\<close> header decodes to the expected user and
  password; and a request the limiter stops is answered by \<^verbatim>\<open>429\<close>, whatever the site.
\<close>

theorem request_guards:
  assumes "read_body inp buf (req_headers req) = Done (body, leftover, inp')"
    and "host = (case get_header (req_headers req) (ascii ''Host'') of None \<Rightarrow> ascii ''localhost'' | Some h \<Rightarrow> h)"
  shows "(\<not> fst (limiter_allows now limiter) \<longrightarrow>
      handle_request e sites now limiter req buf inp ka = (write_429, snd (limiter_allows now limiter), Done (leftover, inp'))) \<and>
    (fst (limiter_allows now limiter) \<and> choose_site sites host = Some site \<and> site_basic_auth site = Some (expected, realm) \<and>
       \<not> (\<exists>encoded. get_header (req_headers req) (ascii ''Authorization'') = Some (ascii ''Basic '' @ encoded) \<and>
            se_base64 e encoded = Some expected) \<longrightarrow>
      handle_request e sites now limiter req buf inp ka = (write_401, snd (limiter_allows now limiter), Done (leftover, inp')))"
  using assms(1) by (auto simp: handle_request_def case_prod_beta Let_def assms(2) check_auth_iff)

definition guarded_site :: SiteConfig where
  "guarded_site = sample_site\<lparr>site_host := None\<rparr>"

theorem request_guards_witness:
  "fst (handle_request small_server [guarded_site] 0 None \<lparr>req_method = None, req_path = None, req_headers = []\<rparr> [] ([], Silent) True) =
     write_401"
proof -
  have "read_body ([], Silent) [] [] = Done ([], [], [], Silent)" by (simp add: read_body_def get_header_def)
  then show ?thesis
    using request_guards [of "([], Silent)" "[]" "\<lparr>req_method = None, req_path = None, req_headers = []\<rparr>" "[]" "[]" "([], Silent)"
        "ascii ''localhost''" 0 None small_server "[guarded_site]" True guarded_site "ascii ''admin:secret''" "ascii ''Staging''"]
    by (simp add: get_header_def limiter_allows_def choose_site_def guarded_site_def sample_site_def)
qed

text \<open>
  A virtual host on a port of its own is not found.  Clients name the port in the \<^verbatim>\<open>Host\<close> header when it is
  not the default one; the parser keeps the host without its port.  When no configured host contains a colon, a request
  whose \<^verbatim>\<open>Host\<close> header does is answered by the first site without a host, and when there is none, the
  handler panics.
\<close>

theorem host_with_port:
  assumes "\<And>s h. s \<in> set sites \<Longrightarrow> site_host s = Some h \<Longrightarrow> 58 \<notin> set h"
    and "get_header (req_headers req) (ascii ''Host'') = Some host" "58 \<in> set host"
    and "read_body inp buf (req_headers req) = Done (body, leftover, inp')" "fst (limiter_allows now limiter)"
  shows "choose_site sites host = find (\<lambda>s. site_host s = None) sites \<and>
    ((\<forall>s \<in> set sites. site_host s \<noteq> None) \<longrightarrow>
      snd (snd (handle_request e sites now limiter req buf inp ka)) = Panicked)"
proof -
  have "find (\<lambda>s. site_host s = Some host) sites = None"
    using assms(1,3) by (auto simp: find_None_iff)
  then have choice: "choose_site sites host = find (\<lambda>s. site_host s = None) sites" by (simp add: choose_site_def)
  moreover have "snd (snd (handle_request e sites now limiter req buf inp ka)) = Panicked"
    if "\<forall>s \<in> set sites. site_host s \<noteq> None"
  proof -
    have "choose_site sites host = None" using choice that by (auto simp: find_None_iff)
    then show ?thesis using assms(2,4,5) by (simp add: handle_request_def case_prod_beta Let_def)
  qed
  ultimately show ?thesis by blast
qed

definition vhost_request :: HttpRequest where
  "vhost_request = \<lparr>req_method = None, req_path = None,
     req_headers = [\<lparr>h_name = ascii ''Host'', h_value = ascii ''vh.localhost:8080''\<rparr>]\<rparr>"

theorem host_with_port_witness:
  "snd (snd (handle_request small_server [sample_site] 0 None vhost_request [] ([], Silent) True)) = Panicked"
proof -
  have hdr: "get_header (req_headers vhost_request) (ascii ''Host'') = Some (ascii ''vh.localhost:8080'')"
      "get_header (req_headers vhost_request) (ascii ''Transfer-Encoding'') = None"
      "get_header (req_headers vhost_request) (ascii ''Content-Length'') = None"
    by (simp_all add: vhost_request_def get_header_def eq_ignore_ascii_case_def ascii_def to_ascii_lowercase_def in_range_def)
  have body: "read_body ([], Silent) [] (req_headers vhost_request) = Done ([], [], [], Silent)"
    by (simp add: read_body_def hdr)
  have plain: "58 \<notin> set h" if "s \<in> set [sample_site]" "site_host s = Some h" for s h
    using that by (auto simp: sample_site_def ascii_def)
  show ?thesis
    using host_with_port [where sites = "[sample_site]" and now = 0 and limiter = None and e = small_server and ka = True,
        OF plain hdr(1) _ body]
    by (simp add: limiter_allows_def) (simp add: ascii_def sample_site_def)
qed

lemma hop_by_hop_te: "eq_ignore_ascii_case name (ascii ''Transfer-Encoding'') \<Longrightarrow> is_hop_by_hop name"
  by (simp add: is_hop_by_hop_def HOP_BY_HOP_def eq_ignore_ascii_case_def)
    (simp add: ascii_def to_ascii_lowercase_def in_range_def)

text \<open>
  A chunked request reaches the upstream server without its framing.  The proxy forwards no
  \<^verbatim>\<open>Transfer-Encoding\<close> header and adds no \<^verbatim>\<open>Content-Length\<close>, but appends the decoded body, so that the
  upstream server takes the body for the next request.
\<close>

theorem chunked_forwarded_unframed:
  assumes "find (\<lambda>h. eq_ignore_ascii_case (h_name h) (ascii ''Content-Length'')) headers = None"
  shows "\<exists>forwarded. proxy_request client_ip method path headers body =
      method @ ascii '' '' @ upstream_path path @ ascii '' HTTP/1.1'' @ CRLF @ concat (map copy_header forwarded) @
      ascii ''X-Forwarded-For: '' @ client_ip @ CRLF @ ascii ''X-Forwarded-Proto: http'' @ CRLF @ CRLF @ body \<and>
    (\<forall>h \<in> set forwarded. \<not> eq_ignore_ascii_case (h_name h) (ascii ''Content-Length'') \<and>
       \<not> eq_ignore_ascii_case (h_name h) (ascii ''Transfer-Encoding''))"
  using assms hop_by_hop_te
  by (intro exI [of _ "filter (\<lambda>h. \<not> is_hop_by_hop (h_name h)) headers"])
    (auto simp: proxy_request_def copy_headers_def find_None_iff)

theorem chunked_forwarded_unframed_witness:
  "\<exists>forwarded. proxy_request [] (ascii ''POST'') (ascii ''/'') [\<lparr>h_name = ascii ''transfer-encoding'', h_value = ascii ''chunked''\<rparr>] (ascii ''hi'') =
      ascii ''POST'' @ ascii '' '' @ upstream_path (ascii ''/'') @ ascii '' HTTP/1.1'' @ CRLF @ concat (map copy_header forwarded) @
      ascii ''X-Forwarded-For: '' @ [] @ CRLF @ ascii ''X-Forwarded-Proto: http'' @ CRLF @ CRLF @ ascii ''hi'' \<and>
    (\<forall>h \<in> set forwarded. \<not> eq_ignore_ascii_case (h_name h) (ascii ''Content-Length'') \<and>
       \<not> eq_ignore_ascii_case (h_name h) (ascii ''Transfer-Encoding''))"
  by (rule chunked_forwarded_unframed) (simp add: eq_ignore_ascii_case_def ascii_def to_ascii_lowercase_def in_range_def)

lemma group_sites_get:
  "hm_get (group_sites sites m) a =
     (let served = (case hm_get m a of None \<Rightarrow> [] | Some ss \<Rightarrow> ss) @ filter (\<lambda>s. listen_addr s = a) sites
      in if hm_get m a = None \<and> filter (\<lambda>s. listen_addr s = a) sites = [] then None else Some served)"
  by (induction sites arbitrary: m) (auto simp: hm_simps Let_def split: option.split)

text \<open>
  Each listener serves exactly the sites of its address, in the order of the configuration file, and no listener
  is empty; its limiter is that of the first of them that has one, and holds for all.
\<close>

theorem sites_grouped:
  "hm_get (group_sites sites hm_new) a =
     (if filter (\<lambda>s. listen_addr s = a) sites = [] then None else Some (filter (\<lambda>s. listen_addr s = a) sites)) \<and>
   listener_limiter now served =
     (case filter (\<lambda>s. site_rate_limit s \<noteq> None) served of
        [] \<Rightarrow> None
      | s # _ \<Rightarrow> Some (token_bucket_new now (fst (the (site_rate_limit s))) (snd (the (site_rate_limit s)))))"
proof -
  have "listener_limiter now served =
     (case filter (\<lambda>s. site_rate_limit s \<noteq> None) served of
        [] \<Rightarrow> None
      | s # _ \<Rightarrow> Some (token_bucket_new now (fst (the (site_rate_limit s))) (snd (the (site_rate_limit s)))))"
    unfolding listener_limiter_def by (induction served) (auto split: option.split)
  then show ?thesis by (simp add: group_sites_get hm.get_empty)
qed

end
