(* ===== verification/Traceroute.thy ===== *)
theory Traceroute
  imports Icmp_Tools Seconds
begin

text \<open>
  \<^verbatim>\<open>toolkit/traceroute/src/main.rs\<close>: probes are sent with growing time to live, the answers are matched
  to them, and the hops are reported in order.

  Arguments of the model are the readings of the clock (\<open>clk k\<close> at the \<open>k\<close>-th probe), whether the socket takes a time
  to live, and the turns of the receiving loop: the reading of the clock at its head, what the socket
  returns, and the reading of the clock when an answer is timed.  What is printed for a hop is its time to live, its address
  and, for each probe, the round trip or a star (\<open>None\<close>).
\<close>

section \<open>The code\<close>

definition BASE_PORT :: u16 where [const_defs]: "BASE_PORT = 33434"
definition PROBE_PAYLOAD_SIZE :: nat where [const_defs]: "PROBE_PAYLOAD_SIZE = 32"

record Probe =
  ttl :: u8
  marker :: u16
  sent_at :: instant
  received :: bool
  rtt_ms :: rat

record TraceConfig =
  max_hops :: u8
  nqueries :: u8
  timeout :: duration
  first_ttl :: u8

text \<open>The local variables of \<^verbatim>\<open>run_udp\<close> and \<^verbatim>\<open>run_icmp\<close>.\<close>

record trace =
  probes :: "Probe list"
  hop_addrs :: "ip4 option list"
  target_reached_at :: "u8 option"
  unreceived :: nat

text \<open>\<^verbatim>\<open>first_ttl..=max_hops\<close>\<close>

definition hop_range :: "TraceConfig \<Rightarrow> u8 list" where
  "hop_range config = map of_nat [unat (first_ttl config) ..< unat (max_hops config) + 1]"

definition new_probe :: "u8 \<Rightarrow> u16 \<Rightarrow> instant \<Rightarrow> Probe" where
  "new_probe t m now = \<lparr>ttl = t, marker = m, sent_at = now, received = False, rtt_ms = 0\<rparr>"

fun send_queries :: "(nat \<Rightarrow> instant) \<Rightarrow> u8 \<Rightarrow> nat \<Rightarrow> u16 \<Rightarrow> Probe list \<Rightarrow> u16 \<times> Probe list" where
  "send_queries clk t 0 m ps = (m, ps)"
| "send_queries clk t (Suc n) m ps = send_queries clk t n (m + 1) (ps @ [new_probe t m (clk (length ps))])"

text \<open>\<open>None\<close>: the socket refuses a time to live, and the error ends the program.\<close>

fun send_hops :: "(u8 \<Rightarrow> bool) \<Rightarrow> (nat \<Rightarrow> instant) \<Rightarrow> nat \<Rightarrow> u8 list \<Rightarrow> u16 \<Rightarrow> Probe list \<Rightarrow> Probe list option" where
  "send_hops set_ttl clk n [] m ps = Some ps"
| "send_hops set_ttl clk n (t # ts) m ps =
     (if \<not> set_ttl t then None
      else let (m, ps) = send_queries clk t n m ps in send_hops set_ttl clk n ts m ps)"

text \<open>What the two modes send for a probe: a destination port, or a packet.\<close>

definition icmp_probe :: "u16 \<Rightarrow> Probe \<Rightarrow> bytes" where
  "icmp_probe ident p = traceroute_build_echo_request ident (marker p) (replicate PROBE_PAYLOAD_SIZE 0)"

definition total_probes :: "TraceConfig \<Rightarrow> nat" where
  "total_probes config =
     (let num_hops = unat (max_hops config - first_ttl config + 1) in num_hops * unat (nqueries config))"

definition trace_start :: "TraceConfig \<Rightarrow> Probe list \<Rightarrow> trace" where
  "trace_start config ps =
     \<lparr>probes = ps, hop_addrs = replicate (unat (max_hops config + 1)) None, target_reached_at = None,
      unreceived = total_probes config\<rparr>"

fun match_probe :: "u16 \<Rightarrow> instant \<Rightarrow> Probe list \<Rightarrow> (u8 \<times> Probe list) option" where
  "match_probe m now [] = None"
| "match_probe m now (p # ps) =
     (if marker p = m \<and> \<not> received p
      then Some (ttl p, p\<lparr>rtt_ms := as_secs (now - sent_at p) * 1000, received := True\<rparr> # ps)
      else map_option (apsnd ((#) p)) (match_probe m now ps))"

text \<open>An answer from \<open>ip\<close> to the probe with the marker; \<open>reached\<close>: it comes from the target.  \<open>None\<close> is a panic.\<close>

definition record_answer :: "instant \<Rightarrow> ip4 \<Rightarrow> u16 \<Rightarrow> bool \<Rightarrow> trace \<Rightarrow> trace option" where
  "record_answer now ip m reached t =
     (case match_probe m now (probes t) of
        None \<Rightarrow> Some t
      | Some (h, ps) \<Rightarrow>
          if length (hop_addrs t) \<le> unat h then None
          else Some \<lparr>probes = ps,
            hop_addrs = (if hop_addrs t ! unat h = None then (hop_addrs t)[unat h := Some ip] else hop_addrs t),
            target_reached_at =
              (if reached \<and> (target_reached_at t = None \<or> h < the (target_reached_at t)) then Some h else target_reached_at t),
            unreceived = unreceived t - 1\<rparr>)"

text \<open>\<^verbatim>\<open>&data[ip_hdr_len..]\<close>; \<open>None\<close> is a panic.\<close>

definition icmp_body :: "bytes \<Rightarrow> bytes option" where
  "icmp_body data =
     (if data = [] then None
      else let ip_hdr_len = unat (data ! 0 AND 0x0F) * 4
           in if length data < ip_hdr_len then None else Some (drop ip_hdr_len data))"

definition udp_datagram :: "instant \<Rightarrow> ip4 \<Rightarrow> bytes \<Rightarrow> trace \<Rightarrow> trace option" where
  "udp_datagram now from data t =
     (case icmp_body data of
        None \<Rightarrow> None
      | Some body \<Rightarrow>
          (case parse_icmp_error body of
             Some (icmp_type, icmp_code, proto, transport) \<Rightarrow>
               if proto = 17
               then record_answer now from (u16_at 2 transport) (icmp_type = ICMP_DEST_UNREACH \<and> icmp_code = 3) t
               else Some t
           | None \<Rightarrow> Some t))"

definition icmp_datagram :: "u16 \<Rightarrow> instant \<Rightarrow> ip4 \<Rightarrow> bytes \<Rightarrow> trace \<Rightarrow> trace option" where
  "icmp_datagram ident now from data t =
     (case icmp_body data of
        None \<Rightarrow> None
      | Some body \<Rightarrow>
          (case traceroute_parse_echo_reply body of
             Some (rid, rseq, _) \<Rightarrow> if rid = ident then record_answer now from rseq True t else Some t
           | None \<Rightarrow>
               (case parse_icmp_error body of
                  Some (icmp_type, icmp_code, proto, transport) \<Rightarrow>
                    if icmp_type = ICMP_TIME_EXCEEDED \<and> icmp_code = 0 \<and> proto = 1 \<and> u16_at 4 transport = ident
                    then record_answer now from (u16_at 6 transport) False t
                    else Some t
                | None \<Rightarrow> Some t)))"

datatype recv_result = Datagram bytes ip4 | WouldBlock | RecvError

datatype loop_end = Finished trace | Waiting trace | Panicking

fun recv_loop ::
  "(instant \<Rightarrow> ip4 \<Rightarrow> bytes \<Rightarrow> trace \<Rightarrow> trace option) \<Rightarrow> instant \<Rightarrow> (instant \<times> recv_result \<times> instant) list \<Rightarrow>
     trace \<Rightarrow> loop_end" where
  "recv_loop handle deadline [] t = (if unreceived t = 0 then Finished t else Waiting t)"
| "recv_loop handle deadline ((head, ev, now) # turns) t =
     (if \<not> (unreceived t > 0 \<and> head < deadline) then Finished t
      else case ev of
             Datagram data from \<Rightarrow>
               (case handle now from data t of None \<Rightarrow> Panicking | Some t \<Rightarrow> recv_loop handle deadline turns t)
           | WouldBlock \<Rightarrow> recv_loop handle deadline turns t
           | RecvError \<Rightarrow> Finished t)"

type_synonym hop_line = "u8 \<times> ip4 option \<times> rat option list"

definition print_hop :: "u8 \<Rightarrow> ip4 option \<Rightarrow> Probe list \<Rightarrow> hop_line" where
  "print_hop h hop_addr ps =
     (h, hop_addr,
      case hop_addr of
        None \<Rightarrow> map (\<lambda>_. None) ps
      | Some ip \<Rightarrow> map (\<lambda>p. if received p then Some (rtt_ms p) else None) ps)"

fun report_hops :: "u8 list \<Rightarrow> trace \<Rightarrow> hop_line list option" where
  "report_hops [] t = Some []"
| "report_hops (h # hs) t =
     (if length (hop_addrs t) \<le> unat h then None
      else let line = print_hop h (hop_addrs t ! unat h) (filter (\<lambda>p. ttl p = h) (probes t))
           in if target_reached_at t = Some h then Some [line] else map_option ((#) line) (report_hops hs t))"

datatype trace_result = TtlRefused | StillWaiting trace | TracePanic | Reported "hop_line list"

definition report :: "TraceConfig \<Rightarrow> loop_end \<Rightarrow> trace_result" where
  "report config r =
     (case r of
        Panicking \<Rightarrow> TracePanic
      | Waiting t \<Rightarrow> StillWaiting t
      | Finished t \<Rightarrow> (case report_hops (hop_range config) t of None \<Rightarrow> TracePanic | Some ls \<Rightarrow> Reported ls))"

definition run_udp ::
  "(u8 \<Rightarrow> bool) \<Rightarrow> (nat \<Rightarrow> instant) \<Rightarrow> (instant \<times> recv_result \<times> instant) list \<Rightarrow> TraceConfig \<Rightarrow> trace_result" where
  "run_udp set_ttl clk turns config =
     (case send_hops set_ttl clk (unat (nqueries config)) (hop_range config) BASE_PORT [] of
        None \<Rightarrow> TtlRefused
      | Some ps \<Rightarrow>
          report config (recv_loop udp_datagram (clk (length ps) + timeout config) turns (trace_start config ps)))"

definition run_icmp ::
  "u16 \<Rightarrow> (u8 \<Rightarrow> bool) \<Rightarrow> (nat \<Rightarrow> instant) \<Rightarrow> (instant \<times> recv_result \<times> instant) list \<Rightarrow> TraceConfig \<Rightarrow> trace_result" where
  "run_icmp ident set_ttl clk turns config =
     (case send_hops set_ttl clk (unat (nqueries config)) (hop_range config) 0 [] of
        None \<Rightarrow> TtlRefused
      | Some ps \<Rightarrow>
          report config (recv_loop (icmp_datagram ident) (clk (length ps) + timeout config) turns (trace_start config ps)))"

end
