(* ===== verification/Traceroute_Correct.thy ===== *)
theory Traceroute_Correct
  imports Traceroute
begin

text \<open>
  What traceroute reports: the state after any answers to the probes, in any order and repeated, depends on the set of
  probes that were answered only, and once all are answered the report is the path.
\<close>

section \<open>The probes\<close>

lemma send_queries_eq:
  "send_queries clk t n m ps =
     (m + of_nat n, ps @ map (\<lambda>j. new_probe t (m + of_nat j) (clk (length ps + j))) [0..<n])"
proof (induction n arbitrary: m ps)
  case (Suc n)
  have "map (\<lambda>j. new_probe t (m + of_nat j) (clk (length ps + j))) [0..<Suc n] =
      new_probe t m (clk (length ps)) # map (\<lambda>j. new_probe t (m + 1 + of_nat j) (clk (Suc (length ps) + j))) [0..<n]"
    by (subst upt_rec) (simp add: map_Suc_upt [symmetric] add.assoc del: upt_Suc)
  then show ?case by (simp add: Suc.IH del: upt_Suc)
qed simp

text \<open>Probe \<open>k\<close> of a run: \<open>q\<close> probes per hop, markers counted from \<open>m\<close>.\<close>

definition nth_probe :: "(nat \<Rightarrow> instant) \<Rightarrow> nat \<Rightarrow> u8 list \<Rightarrow> u16 \<Rightarrow> nat \<Rightarrow> Probe" where
  "nth_probe clk q ts m k = new_probe (ts ! (k div q)) (m + of_nat k) (clk k)"

lemma send_hops_eq:
  assumes "\<And>t. t \<in> set ts \<Longrightarrow> set_ttl t" "0 < q"
  shows "send_hops set_ttl clk q ts m ps =
    Some (ps @ map (\<lambda>k. nth_probe (\<lambda>i. clk (length ps + i)) q ts m k) [0..<length ts * q])"
  using assms(1)
proof (induction ts arbitrary: m ps)
  case (Cons t ts)
  let ?f = "\<lambda>k. nth_probe (\<lambda>i. clk (length ps + i)) q (t # ts) m k"
  have "[0..<length (t # ts) * q] = [0..<q] @ map (\<lambda>k. k + q) [0..<length ts * q]"
    using upt_add_eq_append [of 0 q "length ts * q"] map_add_upt [of q "length ts * q"] by (simp add: add.commute)
  moreover have "?f j = new_probe t (m + of_nat j) (clk (length ps + j))" if "j < q" for j
    using that by (simp add: nth_probe_def)
  moreover have "?f (k + q) = nth_probe (\<lambda>i. clk (length ps + q + i)) q ts (m + of_nat q) k" for k
    using assms(2) by (simp add: nth_probe_def ac_simps)
  ultimately have "map ?f [0..<length (t # ts) * q] =
      map (\<lambda>j. new_probe t (m + of_nat j) (clk (length ps + j))) [0..<q] @
      map (nth_probe (\<lambda>i. clk (length ps + q + i)) q ts (m + of_nat q)) [0..<length ts * q]"
    by (simp add: comp_def)
  then show ?case using Cons by (simp add: send_queries_eq)
qed simp

section \<open>Matching answers\<close>

text \<open>What an answer does not change.\<close>

definition identity :: "Probe \<Rightarrow> u8 \<times> u16 \<times> instant" where
  "identity p = (ttl p, marker p, sent_at p)"

lemma match_probe_hit:
  assumes "distinct (map marker ps)" "k < length ps" "\<not> received (ps ! k)"
  shows "match_probe (marker (ps ! k)) now ps =
    Some (ttl (ps ! k), ps[k := (ps ! k)\<lparr>rtt_ms := as_secs (now - sent_at (ps ! k)) * 1000, received := True\<rparr>])"
  using assms
proof (induction ps arbitrary: k)
  case (Cons p ps)
  show ?case
  proof (cases k)
    case (Suc i)
    have "marker p \<noteq> marker (ps ! i)" using Cons.prems Suc by (metis distinct.simps(2) image_eqI length_Cons list.set_map list.simps(9) nth_mem Suc_less_eq)
    then show ?thesis using Cons Suc by simp
  qed (use Cons in simp)
qed simp

lemma match_probe_miss:
  "(\<And>p. p \<in> set ps \<Longrightarrow> marker p = m \<Longrightarrow> received p) \<Longrightarrow> match_probe m now ps = None"
  by (induction ps) auto

text \<open>
  The state once the probes \<open>S\<close> of \<open>T\<close> have been answered, when the answers to probes with time to live \<open>h\<close> come from
  \<open>route h\<close>, and the target is \<open>d\<close> hops away.
\<close>

definition reached_hops :: "Probe list \<Rightarrow> u8 \<Rightarrow> nat set \<Rightarrow> u8 set" where
  "reached_hops T d S = {h. d \<le> h \<and> (\<exists>k \<in> S. ttl (T ! k) = h)}"

definition answered :: "Probe list \<Rightarrow> (u8 \<Rightarrow> ip4) \<Rightarrow> u8 \<Rightarrow> nat \<Rightarrow> nat set \<Rightarrow> trace \<Rightarrow> bool" where
  "answered T route d n S t \<longleftrightarrow>
     S \<subseteq> {..<length T} \<and> map identity (probes t) = map identity T \<and>
     (\<forall>k < length T. received (probes t ! k) \<longleftrightarrow> k \<in> S) \<and>
     unreceived t = length T - card S \<and>
     length (hop_addrs t) = n \<and>
     (\<forall>h. unat h < n \<longrightarrow> hop_addrs t ! unat h = (if \<exists>k \<in> S. ttl (T ! k) = h then Some (route h) else None)) \<and>
     target_reached_at t = (if reached_hops T d S = {} then None else Some (Min (reached_hops T d S)))"

lemma identity_nth:
  assumes "map identity ps = map identity T" "k < length T"
  shows "ttl (ps ! k) = ttl (T ! k)" "marker (ps ! k) = marker (T ! k)" "sent_at (ps ! k) = sent_at (T ! k)"
  using assms by (metis identity_def length_map nth_map prod.inject)+

lemma identity_maps:
  assumes "map identity ps = map identity T"
  shows "map marker ps = map marker T" "map ttl ps = map ttl T"
proof -
  have "marker = (fst \<circ> snd) \<circ> identity" "ttl = fst \<circ> identity" by (auto simp: identity_def)
  then show "map marker ps = map marker T" "map ttl ps = map ttl T" using assms by (metis map_map)+
qed

lemma record_again:
  assumes "answered T route d n S t" "distinct (map marker T)" "k \<in> S"
  shows "record_answer now ip (marker (T ! k)) reached t = Some t"
proof -
  have k: "k < length T" and ids: "map identity (probes t) = map identity T"
    using assms(1,3) by (auto simp: answered_def)
  have len: "length (probes t) = length T" using ids by (metis length_map)
  have "received p" if p: "p \<in> set (probes t)" "marker p = marker (T ! k)" for p
  proof -
    obtain i where i: "i < length T" "p = probes t ! i" using p(1) len by (metis in_set_conv_nth)
    then have "marker (T ! i) = marker (T ! k)" using p(2) identity_nth(2) [OF ids] by simp
    then have "i = k" using assms(2) i k by (metis length_map nth_eq_iff_index_eq nth_map)
    then show ?thesis using assms(1,3) i by (simp add: answered_def)
  qed
  then show ?thesis using match_probe_miss [of "probes t"] by (simp add: record_answer_def)
qed

lemma reached_hops_insert:
  "reached_hops T d (insert k S) = (if d \<le> ttl (T ! k) then insert (ttl (T ! k)) (reached_hops T d S) else reached_hops T d S)"
  by (auto simp: reached_hops_def)

lemma min_less_if: "min a b = (if a < b then a else b :: 'a :: linorder)"
  by (auto simp: min_def)

lemma record_new:
  assumes "answered T route d n S t" "distinct (map marker T)" "k < length T" "k \<notin> S" "unat (ttl (T ! k)) < n"
  shows "\<exists>t'. record_answer now (route (ttl (T ! k))) (marker (T ! k)) (d \<le> ttl (T ! k)) t = Some t' \<and>
    answered T route d n (insert k S) t'"
proof -
  let ?h = "ttl (T ! k)"
  have ids: "map identity (probes t) = map identity T" and rcv: "\<And>j. j < length T \<Longrightarrow> received (probes t ! j) \<longleftrightarrow> j \<in> S"
    and S: "S \<subseteq> {..<length T}" and n: "length (hop_addrs t) = n"
    and hops: "\<And>h. unat h < n \<Longrightarrow> hop_addrs t ! unat h = (if \<exists>k \<in> S. ttl (T ! k) = h then Some (route h) else None)"
    and goal: "target_reached_at t = (if reached_hops T d S = {} then None else Some (Min (reached_hops T d S)))"
    and un: "unreceived t = length T - card S"
    using assms(1) by (auto simp: answered_def)
  have len: "length (probes t) = length T" using ids by (metis length_map)
  define p where "p = (probes t ! k)\<lparr>rtt_ms := as_secs (now - sent_at (probes t ! k)) * 1000, received := True\<rparr>"
  have hit: "match_probe (marker (T ! k)) now (probes t) = Some (?h, (probes t)[k := p])"
    using match_probe_hit [of "probes t" k now] assms(2-4) identity_maps(1) [OF ids] identity_nth [OF ids] rcv len
    by (simp add: p_def)
  define t' where "t' = the (record_answer now (route ?h) (marker (T ! k)) (d \<le> ?h) t)"
  have t': "record_answer now (route ?h) (marker (T ! k)) (d \<le> ?h) t = Some t'"
    and fields: "probes t' = (probes t)[k := p]"
      "hop_addrs t' = (if hop_addrs t ! unat ?h = None then (hop_addrs t)[unat ?h := Some (route ?h)] else hop_addrs t)"
      "target_reached_at t' = (if d \<le> ?h \<and> (target_reached_at t = None \<or> ?h < the (target_reached_at t)) then Some ?h
         else target_reached_at t)"
      "unreceived t' = unreceived t - 1"
    using assms(5) n by (simp_all add: t'_def record_answer_def hit)
  have "identity p = identity (T ! k)" using identity_nth [OF ids assms(3)] by (simp add: p_def identity_def)
  then have "map identity (probes t') = map identity T"
    using ids by (simp add: fields map_update) (metis list_update_id map_update)
  moreover have "\<forall>j < length T. received (probes t' ! j) \<longleftrightarrow> j \<in> insert k S"
    using rcv len assms(3) by (auto simp: fields nth_list_update p_def)
  moreover have "finite S" using S finite_subset by blast
  then have "unreceived t' = length T - card (insert k S)" using assms(4) un by (simp add: fields)
  moreover have "\<forall>h. unat h < n \<longrightarrow> hop_addrs t' ! unat h = (if \<exists>k \<in> insert k S. ttl (T ! k) = h then Some (route h) else None)"
    using hops n assms(5) by (auto simp: fields nth_list_update word_unat_eq_iff [symmetric])
  moreover have "target_reached_at t' =
      (if reached_hops T d (insert k S) = {} then None else Some (Min (reached_hops T d (insert k S))))"
  proof (cases "reached_hops T d S = {}")
    case False
    then have "Min (insert ?h (reached_hops T d S)) = (if ?h < Min (reached_hops T d S) then ?h else Min (reached_hops T d S))"
      using Min_insert [OF _ False, of ?h] min_less_if by (metis finite)
    then show ?thesis using goal False by (simp add: fields reached_hops_insert del: Min_gr_iff Min_insert)
  qed (use goal in \<open>simp add: fields reached_hops_insert\<close>)
  moreover have "length (hop_addrs t') = n" using n by (simp add: fields)
  ultimately show ?thesis using t' S assms(3) by (auto simp: answered_def)
qed

section \<open>The report\<close>

lemma report_hops_path:
  assumes "target_reached_at t = Some d" "d \<in> set hs" "\<And>h. h \<in> set hs \<Longrightarrow> unat h < length (hop_addrs t)"
  shows "report_hops hs t =
    Some (map (\<lambda>h. print_hop h (hop_addrs t ! unat h) (filter (\<lambda>p. ttl p = h) (probes t))) (takeWhile (\<lambda>h. h \<noteq> d) hs @ [d]))"
  using assms(2,3)
proof (induction hs)
  case (Cons h hs)
  then show ?case using assms(1) by (cases "h = d") (auto simp: not_le)
qed simp

lemma takeWhile_upt: "a \<le> d \<Longrightarrow> d < b \<Longrightarrow> takeWhile (\<lambda>x. x \<noteq> d) [a..<b] = [a..<d]"
proof -
  assume "a \<le> d" "d < b"
  then have "[a..<b] = [a..<d] @ d # [Suc d..<b]" using upt_add_eq_append [of a d "b - d"] by (simp add: upt_conv_Cons)
  moreover have "takeWhile (\<lambda>x. x \<noteq> d) ([a..<d] @ d # [Suc d..<b]) = [a..<d]" by (subst takeWhile_append2) auto
  ultimately show ?thesis by simp
qed

lemma u8_of_nat_inj: "a < 256 \<Longrightarrow> b < 256 \<Longrightarrow> (of_nat a :: u8) = of_nat b \<longleftrightarrow> a = b"
  by (metis (no_types) unat_of_length_u8)

lemma hop_range_takeWhile:
  assumes "first_ttl config \<le> d" "d \<le> max_hops config"
  shows "takeWhile (\<lambda>h. h \<noteq> d) (hop_range config) @ [d] = map of_nat [unat (first_ttl config)..<unat d + 1]"
proof -
  have le: "unat (first_ttl config) \<le> unat d" "unat d < unat (max_hops config) + 1"
    using assms by (simp_all add: word_le_nat_alt)
  have "takeWhile (\<lambda>h. h \<noteq> d) (hop_range config) =
      map of_nat (takeWhile (\<lambda>n. (of_nat n :: u8) \<noteq> d) [unat (first_ttl config)..<unat (max_hops config) + 1])"
    by (simp add: hop_range_def takeWhile_map comp_def)
  also have "takeWhile (\<lambda>n. (of_nat n :: u8) \<noteq> d) [unat (first_ttl config)..<unat (max_hops config) + 1] =
      takeWhile (\<lambda>n. n \<noteq> unat d) [unat (first_ttl config)..<unat (max_hops config) + 1]"
  proof (rule takeWhile_cong [OF refl])
    fix n assume "n \<in> set [unat (first_ttl config)..<unat (max_hops config) + 1]"
    then have "n < 256" using unat_u8_less [of "max_hops config"] by auto
    then show "((of_nat n :: u8) \<noteq> d) = (n \<noteq> unat d)" using u8_of_nat_inj [of n "unat d"] unat_u8_less by simp
  qed
  finally show ?thesis using takeWhile_upt [OF le] le(1) by simp
qed

lemma sent_ttls: "send_hops set_ttl clk q ts m ps = Some T \<Longrightarrow> map ttl T = map ttl ps @ concat (map (replicate q) ts)"
  by (induction ts arbitrary: m ps) (auto simp: send_queries_eq new_probe_def comp_def map_replicate_const split: if_splits)

lemma sent_probes:
  assumes "send_hops set_ttl clk q ts m [] = Some T" "0 < q"
  shows "T = map (nth_probe clk q ts m) [0..<length ts * q]"
proof -
  have "t \<in> set ts \<Longrightarrow> set_ttl t" if "send_hops set_ttl clk q ts m ps = Some T" for t ps
    using that by (induction ts arbitrary: m ps) (auto simp: send_queries_eq split: if_splits)
  then show ?thesis using assms send_hops_eq [of ts set_ttl q clk m "[]"] by simp
qed

lemma sent_distinct:
  assumes "send_hops set_ttl clk q ts m [] = Some T" "0 < q" "length ts * q < 65536"
  shows "distinct (map marker T)"
proof -
  have "map marker T = map (\<lambda>k. m + of_nat k) [0..<length ts * q]"
    using sent_probes [OF assms(1,2)] by (simp add: nth_probe_def new_probe_def comp_def)
  moreover have "inj_on (\<lambda>k. m + (of_nat k :: u16)) {0..<length ts * q}"
  proof (rule inj_onI)
    fix a b assume "a \<in> {0..<length ts * q}" "b \<in> {0..<length ts * q}" "m + (of_nat a :: u16) = m + of_nat b"
    then have "unat (of_nat a :: u16) = unat (of_nat b :: u16)" "a < 65536" "b < 65536" using assms(3) by auto
    then show "a = b" by (simp add: unat_of_nat take_bit_nat_eq_self)
  qed
  ultimately show ?thesis by (simp add: distinct_map)
qed

lemma length_filter_blocks:
  "distinct ts \<Longrightarrow> length (filter (\<lambda>x. x = h) (concat (map (replicate q) ts))) = (if h \<in> set ts then q else 0)"
  by (induction ts) (auto simp: filter_empty_conv)

lemma hop_range_facts:
  assumes "first_ttl config \<le> max_hops config" "max_hops config < 255" "0 < nqueries config"
  shows "distinct (hop_range config)"
    "set (hop_range config) = {h. first_ttl config \<le> h \<and> h \<le> max_hops config}"
    "length (hop_range config) * unat (nqueries config) = total_probes config"
    "total_probes config < 65536" "unat (max_hops config + 1) = unat (max_hops config) + 1"
proof -
  have le: "unat (first_ttl config) \<le> unat (max_hops config)" "unat (max_hops config) < 255"
    using assms(1,2) by (simp_all add: word_le_nat_alt word_less_nat_alt)
  have small: "n < 256" if "n \<in> set [unat (first_ttl config)..<unat (max_hops config) + 1]" for n using that le by auto
  show "distinct (hop_range config)"
    unfolding hop_range_def distinct_map using small u8_of_nat_inj by (metis distinct_upt inj_onI)
  show "set (hop_range config) = {h. first_ttl config \<le> h \<and> h \<le> max_hops config}"
  proof (intro equalityI subsetI)
    fix h assume "h \<in> set (hop_range config)"
    then show "h \<in> {h. first_ttl config \<le> h \<and> h \<le> max_hops config}"
      using small by (auto simp: hop_range_def word_le_nat_alt unat_of_length_u8)
  next
    fix h assume "h \<in> {h. first_ttl config \<le> h \<and> h \<le> max_hops config}"
    then have "unat h \<in> set [unat (first_ttl config)..<unat (max_hops config) + 1]" by (auto simp: word_le_nat_alt)
    moreover have "h = of_nat (unat h)" by simp
    ultimately show "h \<in> set (hop_range config)" by (metis hop_range_def image_eqI list.set_map)
  qed
  have diff: "unat (max_hops config - first_ttl config) = unat (max_hops config) - unat (first_ttl config)"
    by (rule unat_sub [OF assms(1)])
  have hops: "unat (max_hops config - first_ttl config + 1) = unat (max_hops config) - unat (first_ttl config) + 1"
    using le by (simp add: unat_word_ariths diff)
  then show eq: "length (hop_range config) * unat (nqueries config) = total_probes config"
    using le by (simp add: total_probes_def hop_range_def Suc_diff_le)
  have "unat (max_hops config - first_ttl config + 1) \<le> 255" "unat (nqueries config) \<le> 255"
    using hops le unat_u8_less [of "nqueries config"] by linarith+
  then have "total_probes config \<le> 255 * 255" unfolding total_probes_def Let_def by (rule mult_le_mono)
  then show "total_probes config < 65536" by simp
  show "unat (max_hops config + 1) = unat (max_hops config) + 1" using le by (simp add: unat_word_ariths)
qed

lemma sent_facts:
  assumes config: "first_ttl config \<le> max_hops config" "max_hops config < 255" "0 < nqueries config"
    and sent: "send_hops set_ttl clk (unat (nqueries config)) (hop_range config) m [] = Some T"
  shows "ttl ` set T = set (hop_range config)" "\<And>p. p \<in> set T \<Longrightarrow> unat (ttl p) < unat (max_hops config) + 1"
    "distinct (map marker T)" "answered T route d (unat (max_hops config) + 1) {} (trace_start config T)"
proof -
  have q: "0 < unat (nqueries config)" using config(3) by (simp add: word_less_nat_alt)
  note range = hop_range_facts [OF config]
  note T = sent_probes [OF sent q]
  show ttls: "ttl ` set T = set (hop_range config)" using arg_cong [OF sent_ttls [OF sent], of set] q by simp
  show "unat (ttl p) < unat (max_hops config) + 1" if "p \<in> set T" for p
    using that ttls range(2) by (auto simp: word_le_nat_alt less_Suc_eq_le)
  show "distinct (map marker T)" using sent_distinct [OF sent q] range(3,4) by simp
  show "answered T route d (unat (max_hops config) + 1) {} (trace_start config T)"
    using T range(3,5)
    by (auto simp: answered_def trace_start_def reached_hops_def nth_probe_def new_probe_def simp del: replicate_Suc)
qed

text \<open>Once every probe has been answered, the lines of the report are the route.\<close>

lemma route_lines:
  assumes config: "first_ttl config \<le> d" "d \<le> max_hops config" "max_hops config < 255" "0 < nqueries config"
    and sent: "send_hops set_ttl clk (unat (nqueries config)) (hop_range config) m [] = Some T"
    and all: "answered T route d (unat (max_hops config) + 1) {..<length T} t"
  shows "\<exists>marks. report_hops (hop_range config) t =
      Some (map (\<lambda>h. (of_nat h, Some (route (of_nat h)), marks h)) [unat (first_ttl config)..<unat d + 1]) \<and>
    (\<forall>h \<in> {unat (first_ttl config)..unat d}. length (marks h) = unat (nqueries config) \<and> None \<notin> set (marks h))"
proof -
  note range = hop_range_facts [OF order_trans [OF config(1,2)] config(3,4)]
  have hops: "(\<exists>k \<in> {..<length T}. ttl (T ! k) = h) \<longleftrightarrow> h \<in> set (hop_range config)" for h
    unfolding sent_facts(1) [OF order_trans [OF config(1,2)] config(3,4) sent, symmetric] by (auto simp: set_conv_nth)
  have "reached_hops T d {..<length T} = {h. d \<le> h \<and> h \<le> max_hops config}"
    unfolding reached_hops_def hops range(2) using config(1) by auto
  moreover have "Min {h. d \<le> h \<and> h \<le> max_hops config} = d" using config(2) by (intro Min_eqI) auto
  ultimately have reached: "target_reached_at t = Some d" using all config(2) by (auto simp: answered_def)
  have addrs: "hop_addrs t ! unat h = Some (route h)" "unat h < length (hop_addrs t)" if "h \<in> set (hop_range config)" for h
    using all that hops range(2) by (auto simp: answered_def word_le_nat_alt less_Suc_eq_le)
  have received: "received p" if "p \<in> set (probes t)" for p
    using all that by (auto simp: answered_def in_set_conv_nth) (metis length_map)
  have "map ttl (probes t) = concat (map (replicate (unat (nqueries config))) (hop_range config))"
    using identity_maps(2) [of "probes t" T] all sent_ttls [OF sent] by (simp add: answered_def)
  then have "length (filter (\<lambda>x. x = h) (map ttl (probes t))) = unat (nqueries config)" if "h \<in> set (hop_range config)" for h
    using length_filter_blocks [OF range(1)] that by simp
  then have count: "length (filter (\<lambda>p. ttl p = h) (probes t)) = unat (nqueries config)" if "h \<in> set (hop_range config)" for h
    using that by (simp add: comp_def)
  have in_range: "(of_nat h :: u8) \<in> set (hop_range config)" if "h \<in> {unat (first_ttl config)..unat d}" for h
    using that config(2) unat_u8_less [of d] by (simp add: range(2) word_le_nat_alt unat_of_length_u8)
  define marks where "marks h = map (\<lambda>p. if received p then Some (rtt_ms p) else None) (filter (\<lambda>p. ttl p = of_nat h) (probes t))" for h
  have "d \<in> set (hop_range config)" using range(2) config(1,2) by simp
  then have "report_hops (hop_range config) t =
      Some (map (\<lambda>h. print_hop h (hop_addrs t ! unat h) (filter (\<lambda>p. ttl p = h) (probes t)))
        (map of_nat [unat (first_ttl config)..<unat d + 1]))"
    using report_hops_path [OF reached _ addrs(2), of "hop_range config"] hop_range_takeWhile [OF config(1,2)] by metis
  also have "map (\<lambda>h. print_hop h (hop_addrs t ! unat h) (filter (\<lambda>p. ttl p = h) (probes t))) (map of_nat [unat (first_ttl config)..<unat d + 1]) =
      map (\<lambda>h. (of_nat h, Some (route (of_nat h)), marks h)) [unat (first_ttl config)..<unat d + 1]"
    unfolding map_map
  proof (rule map_cong [OF refl])
    fix h assume "h \<in> set [unat (first_ttl config)..<unat d + 1]"
    then have "h \<in> {unat (first_ttl config)..unat d}" by (auto split: if_splits)
    from addrs(1) [OF in_range [OF this]]
    show "((\<lambda>h. print_hop h (hop_addrs t ! unat h) (filter (\<lambda>p. ttl p = h) (probes t))) \<circ> of_nat) h =
        (of_nat h, Some (route (of_nat h)), marks h)"
      by (simp only: comp_def print_hop_def marks_def option.case)
  qed
  finally show ?thesis using count in_range received by (intro exI [of _ marks]) (auto simp: marks_def)
qed

section \<open>The loop\<close>

text \<open>A turn of the loop before the deadline, in which probe \<open>k\<close> is answered (\<open>Some k\<close>) or nothing arrives.\<close>

definition turn_for :: "(u8 \<Rightarrow> Probe \<Rightarrow> bytes \<Rightarrow> bool) \<Rightarrow> Probe list \<Rightarrow> (u8 \<Rightarrow> ip4) \<Rightarrow> u8 \<Rightarrow> instant \<Rightarrow> nat option \<Rightarrow> instant \<times> recv_result \<times> instant \<Rightarrow> bool" where
  "turn_for answer T route d deadline ko turn =
     (fst turn < deadline \<and>
      (case ko of
         None \<Rightarrow> fst (snd turn) = WouldBlock
       | Some k \<Rightarrow> k < length T \<and> (\<exists>data. fst (snd turn) = Datagram data (route (ttl (T ! k))) \<and> answer d (T ! k) data)))"

text \<open>
  The contract of the two modes: a datagram that answers a probe is recorded for the marker of the probe, and as coming from the
  target when the time to live was enough.
\<close>

locale answer_handler =
  fixes handle :: "instant \<Rightarrow> ip4 \<Rightarrow> bytes \<Rightarrow> trace \<Rightarrow> trace option"
    and answer :: "u8 \<Rightarrow> Probe \<Rightarrow> bytes \<Rightarrow> bool"
  assumes handle_answer:
    "answer d p data \<Longrightarrow> handle now from data t = record_answer now from (marker p) (d \<le> ttl p) t"
begin

lemma all_answered:
  assumes "answered T route d n S t" "distinct (map marker T)" "\<And>p. p \<in> set T \<Longrightarrow> unat (ttl p) < n"
    and "list_all2 (turn_for answer T route d deadline) kos turns" "S \<union> {k. Some k \<in> set kos} = {..<length T}"
  shows "\<exists>t'. recv_loop handle deadline turns t = Finished t' \<and> answered T route d n {..<length T} t'"
  using assms(4,1,5)
proof (induction kos turns arbitrary: S t rule: list_all2_induct)
  case Nil
  then show ?case by (auto simp: answered_def)
next
  case (Cons ko kos turn turns)
  obtain head ev now where turn: "turn = (head, ev, now)" using prod_cases3 by blast
  show ?case
  proof (cases "unreceived t = 0")
    case True
    have "S \<subseteq> {..<length T}" "length T - card S = 0" using Cons.prems True by (auto simp: answered_def)
    then have "S = {..<length T}" by (intro card_subset_eq) (auto dest: card_mono [rotated])
    then show ?thesis using True Cons.prems by (auto simp: turn)
  next
    case False
    have head: "head < deadline" using Cons.hyps(1) by (simp add: turn_for_def turn)
    show ?thesis
    proof (cases ko)
      case None
      then have "ev = WouldBlock" using Cons.hyps(1) by (simp add: turn_for_def turn)
      then show ?thesis using Cons.IH [OF Cons.prems(1)] Cons.prems(2) False head None by (simp add: turn)
    next
      case (Some k)
      obtain data where k: "k < length T" and ev: "ev = Datagram data (route (ttl (T ! k)))" "answer d (T ! k) data"
        using Cons.hyps(1) Some by (auto simp: turn_for_def turn)
      have "\<exists>t'. handle now (route (ttl (T ! k))) data t = Some t' \<and> answered T route d n (insert k S) t'"
      proof (cases "k \<in> S")
        case True
        then show ?thesis
          using record_again [OF Cons.prems(1) assms(2) True] Cons.prems(1) handle_answer [OF ev(2)] by (simp add: insert_absorb)
      next
        case False
        then show ?thesis
          using record_new [OF Cons.prems(1) assms(2) k False] assms(3) k handle_answer [OF ev(2)] by simp
      qed
      then obtain t' where t': "handle now (route (ttl (T ! k))) data t = Some t'" "answered T route d n (insert k S) t'"
        by blast
      have "insert k S \<union> {k. Some k \<in> set kos} = {..<length T}" using Cons.prems(2) Some by auto
      then show ?thesis using Cons.IH [OF t'(2)] t'(1) False head by (simp add: turn ev)
    qed
  qed
qed

lemma path_reported:
  assumes config: "first_ttl config \<le> d" "d \<le> max_hops config" "max_hops config < 255" "0 < nqueries config"
    and sent: "send_hops set_ttl clk (unat (nqueries config)) (hop_range config) m [] = Some T"
    and turns: "list_all2 (turn_for answer T route d deadline) kos turns" "{k. Some k \<in> set kos} = {..<length T}"
  shows "\<exists>marks. report config (recv_loop handle deadline turns (trace_start config T)) =
      Reported (map (\<lambda>h. (of_nat h, Some (route (of_nat h)), marks h)) [unat (first_ttl config)..<unat d + 1]) \<and>
    (\<forall>h \<in> {unat (first_ttl config)..unat d}. length (marks h) = unat (nqueries config) \<and> None \<notin> set (marks h))"
proof -
  note facts = sent_facts [OF order_trans [OF config(1,2)] config(3,4) sent]
  obtain t where t: "recv_loop handle deadline turns (trace_start config T) = Finished t"
    "answered T route d (unat (max_hops config) + 1) {..<length T} t"
    using all_answered [OF facts(4,3,2) turns(1)] turns(2) by auto
  show ?thesis using route_lines [OF config sent t(2)] t(1) by (elim exE) (simp add: report_def, blast)
qed

end

section \<open>The two modes\<close>

text \<open>An IPv4 packet without options, and an ICMP error that quotes one.\<close>

definition ip_packet :: "bytes \<Rightarrow> bytes \<Rightarrow> bool" where
  "ip_packet body data = (\<exists>hdr. length hdr = 20 \<and> hdr ! 0 = 0x45 \<and> data = hdr @ body)"

definition icmp_error :: "u8 \<Rightarrow> u8 \<Rightarrow> u8 \<Rightarrow> bytes \<Rightarrow> bytes \<Rightarrow> bool" where
  "icmp_error ty code proto transport body =
     (\<exists>rest hdr more. body = [ty, code] @ rest @ hdr @ transport @ more \<and> length rest = 6 \<and> length hdr = 20 \<and>
        hdr ! 0 = 0x45 \<and> hdr ! 9 = proto \<and> length transport = 8)"

definition udp_answer :: "u8 \<Rightarrow> Probe \<Rightarrow> bytes \<Rightarrow> bool" where
  "udp_answer d p data =
     (\<exists>body sport len. ip_packet body data \<and> length sport = 2 \<and> length len = 4 \<and>
        icmp_error (if ttl p < d then ICMP_TIME_EXCEEDED else ICMP_DEST_UNREACH) (if ttl p < d then 0 else 3) 17
          (sport @ u16_to_be (marker p) @ len) body)"

definition icmp_answer :: "u16 \<Rightarrow> u8 \<Rightarrow> Probe \<Rightarrow> bytes \<Rightarrow> bool" where
  "icmp_answer ident d p data =
     (\<exists>body. ip_packet body data \<and>
        (if ttl p < d then icmp_error ICMP_TIME_EXCEEDED 0 1 (take 8 (icmp_probe ident p)) body
         else build_icmp_echo_reply (icmp_probe ident p) = Some body))"

lemma nibble_0x45: "unat ((0x45 :: u8) AND 0x0F) = 5"
  by code_simp

lemma icmp_body_packet: "ip_packet body data \<Longrightarrow> icmp_body data = Some body"
  by (auto simp: ip_packet_def icmp_body_def nth_append nibble_0x45)

lemma parse_icmp_error_quote:
  assumes "icmp_error ty code proto transport body" "ty = ICMP_TIME_EXCEEDED \<or> ty = ICMP_DEST_UNREACH"
  shows "parse_icmp_error body = Some (ty, code, proto, transport)"
proof -
  obtain rest hdr more where b: "body = ty # code # rest @ hdr @ transport @ more" "length rest = 6" "length hdr = 20"
    "hdr ! 0 = 0x45" "hdr ! 9 = proto" "length transport = 8"
    using assms(1) by (auto simp: icmp_error_def)
  have inner: "drop 8 body = hdr @ transport @ more" using b by simp
  have "(hdr @ transport @ more) ! 0 = 0x45" "(hdr @ transport @ more) ! 9 = proto"
    "slice 20 28 (hdr @ transport @ more) = transport"
    using b by (simp_all add: nth_append slice_def)
  moreover have "body ! 0 = ty" "body ! 1 = code" "36 \<le> length body" using b by simp_all
  ultimately show ?thesis
    using assms(2) b(3,6) by (auto simp: parse_icmp_error_def inner nibble_0x45 Let_def)
qed

interpretation udp_mode: answer_handler udp_datagram udp_answer
proof
  fix d p data now "from" t
  assume "udp_answer d p data"
  then obtain body sport len where a: "ip_packet body data" "length sport = 2" "length len = 4"
    "icmp_error (if ttl p < d then ICMP_TIME_EXCEEDED else ICMP_DEST_UNREACH) (if ttl p < d then 0 else 3) 17
       (sport @ u16_to_be (marker p) @ len) body"
    by (auto simp: udp_answer_def)
  have "u16_at 2 (sport @ u16_to_be (marker p) @ len) = marker p" using a(2) by (simp add: u16_at_skip wire_simps)
  moreover have "(d \<le> ttl p) = (\<not> ttl p < d)" by (simp add: not_less)
  ultimately show "udp_datagram now from data t = record_answer now from (marker p) (d \<le> ttl p) t"
    using icmp_body_packet [OF a(1)] parse_icmp_error_quote [OF a(4)]
    by (cases "ttl p < d") (simp_all add: udp_datagram_def const_defs)
qed

interpretation icmp_mode: answer_handler "icmp_datagram ident" "icmp_answer ident" for ident
proof
  fix d p data now "from" t
  assume "icmp_answer ident d p data"
  then obtain body where a: "ip_packet body data"
    "if ttl p < d then icmp_error ICMP_TIME_EXCEEDED 0 1 (take 8 (icmp_probe ident p)) body
     else build_icmp_echo_reply (icmp_probe ident p) = Some body"
    by (auto simp: icmp_answer_def)
  let ?probe = "icmp_probe ident p"
  have le: "(d \<le> ttl p) = (\<not> ttl p < d)" by (simp add: not_less)
  show "icmp_datagram ident now from data t = record_answer now from (marker p) (d \<le> ttl p) t"
  proof (cases "ttl p < d")
    case True
    then have err: "icmp_error ICMP_TIME_EXCEEDED 0 1 (take 8 ?probe) body" using a(2) by simp
    have "u16_at 4 (take 8 ?probe) = ident" "u16_at 6 (take 8 ?probe) = marker p"
      by (simp_all add: icmp_probe_def request_eq take_Cons' field_at_skip wire_simps)
    moreover have "traceroute_parse_echo_reply body = None"
      using err by (auto simp: traceroute_parse_echo_reply_def icmp_error_def const_defs)
    ultimately show ?thesis
      using icmp_body_packet [OF a(1)] parse_icmp_error_quote [OF err] True
      by (simp add: icmp_datagram_def le)
  next
    case False
    then have r: "build_icmp_echo_reply ?probe = Some body" using a(2) by simp
    have "traceroute_parse_echo_reply body = Some (ident, marker p, replicate 32 0)"
      using reply_fields [OF _ r [unfolded icmp_probe_def request_eq]]
      by (simp add: traceroute_parse_echo_reply_def const_defs)
    then show ?thesis using icmp_body_packet [OF a(1)] False by (simp add: icmp_datagram_def le)
  qed
qed

section \<open>Properties\<close>

text \<open>
  (C16) Traceroute with ICMP probes reports the route.  Let the target be \<open>d\<close> hops away, and let the answers to the probes of
  time to live \<open>h\<close> come from \<open>route h\<close>: a \<^verbatim>\<open>Time Exceeded\<close> message that quotes the probe before the target, an echo
  reply from the target on.  When every probe is answered before the deadline, in any order, with repetitions and with empty
  reads in between, the program finishes and prints one line per hop from the first to the target and no further, each with
  the address of the hop and a round-trip time for every probe.
\<close>

theorem icmp_route_reported:
  assumes "first_ttl config \<le> d" "d \<le> max_hops config" "max_hops config < 255" "0 < nqueries config"
    and "send_hops set_ttl clk (unat (nqueries config)) (hop_range config) 0 [] = Some T"
    and "list_all2 (turn_for (icmp_answer ident) T route d (clk (length T) + timeout config)) kos turns"
    and "{k. Some k \<in> set kos} = {..<length T}"
  shows "\<exists>marks. run_icmp ident set_ttl clk turns config =
      Reported (map (\<lambda>h. (of_nat h, Some (route (of_nat h)), marks h)) [unat (first_ttl config)..<unat d + 1]) \<and>
    (\<forall>h \<in> {unat (first_ttl config)..unat d}. length (marks h) = unat (nqueries config) \<and> None \<notin> set (marks h))"
  using icmp_mode.path_reported [OF assms] assms(5) by (simp add: run_icmp_def)

text \<open>
  Traceroute with UDP probes reports the route, in the same sense: before the target the answers are
  \<^verbatim>\<open>Time Exceeded\<close> messages, from the target on they say that the port is unreachable, and each quotes the port of
  its probe.
\<close>

theorem udp_route_reported:
  assumes "first_ttl config \<le> d" "d \<le> max_hops config" "max_hops config < 255" "0 < nqueries config"
    and "send_hops set_ttl clk (unat (nqueries config)) (hop_range config) BASE_PORT [] = Some T"
    and "list_all2 (turn_for udp_answer T route d (clk (length T) + timeout config)) kos turns"
    and "{k. Some k \<in> set kos} = {..<length T}"
  shows "\<exists>marks. run_udp set_ttl clk turns config =
      Reported (map (\<lambda>h. (of_nat h, Some (route (of_nat h)), marks h)) [unat (first_ttl config)..<unat d + 1]) \<and>
    (\<forall>h \<in> {unat (first_ttl config)..unat d}. length (marks h) = unat (nqueries config) \<and> None \<notin> set (marks h))"
  using udp_mode.path_reported [OF assms] assms(5) by (simp add: run_udp_def)

definition two_hops :: TraceConfig where
  "two_hops = \<lparr>max_hops = 2, nqueries = 1, timeout = 10, first_ttl = 1\<rparr>"

definition sample_route :: "u8 \<Rightarrow> ip4" where
  "sample_route h = (10, 0, 0, h)"

definition sample_header :: "u8 \<Rightarrow> bytes" where
  "sample_header proto = [0x45, 0, 0, 0, 0, 0, 0, 0, 64, proto, 0, 0, 10, 0, 0, 1, 10, 0, 0, 2]"

lemma two_hops_range: "hop_range two_hops = [1, 2]"
  by (simp add: hop_range_def two_hops_def upt_rec)

lemma sample_headers: "length (sample_header proto) = 20" "sample_header proto ! 0 = 0x45" "sample_header proto ! 9 = proto"
  by (simp_all add: sample_header_def)

lemma two_probes:
  "send_hops (\<lambda>_. True) (\<lambda>_. 0) (unat (nqueries two_hops)) (hop_range two_hops) m [] =
     Some [new_probe 1 m 0, new_probe 2 (m + 1) 0]"
  unfolding two_hops_range by (simp add: two_hops_def)

lemma two_hops_turns:
  assumes "answer 2 (new_probe 1 m 0) data1" "answer 2 (new_probe 2 (m + 1) 0) data2"
  shows "list_all2 (turn_for answer [new_probe 1 m 0, new_probe 2 (m + 1) 0] sample_route 2 10) [Some 1, None, Some 0]
    [(0, Datagram data2 (10, 0, 0, 2), 3), (4, WouldBlock, 0), (5, Datagram data1 (10, 0, 0, 1), 6)]"
  using assms by (simp add: turn_for_def new_probe_def sample_route_def)

definition sample_error :: "u8 \<Rightarrow> u8 \<Rightarrow> u8 \<Rightarrow> bytes \<Rightarrow> bytes" where
  "sample_error ty code proto transport = [ty, code] @ [0, 0, 0, 0, 0, 0] @ sample_header proto @ transport @ []"

lemma sample_packet: "ip_packet body (sample_header 1 @ body)"
  unfolding ip_packet_def using sample_headers by blast

lemma sample_icmp_error: "length transport = 8 \<Longrightarrow> icmp_error ty code proto transport (sample_error ty code proto transport)"
  unfolding icmp_error_def sample_error_def
  by (intro exI conjI, rule refl) (simp_all add: sample_headers)

lemma sample_udp_answer:
  assumes "ty = (if ttl p < d then ICMP_TIME_EXCEEDED else ICMP_DEST_UNREACH)" "code = (if ttl p < d then 0 else 3)"
  shows "udp_answer d p (sample_header 1 @ sample_error ty code 17 ([0, 9] @ u16_to_be (marker p) @ [0, 40, 0, 0]))"
proof -
  have "icmp_error ty code 17 ([0, 9] @ u16_to_be (marker p) @ [0, 40, 0, 0])
      (sample_error ty code 17 ([0, 9] @ u16_to_be (marker p) @ [0, 40, 0, 0]))"
    by (rule sample_icmp_error) simp
  moreover have "length [0, 9 :: u8] = 2" "length [0, 40, 0, 0 :: u8] = 4" by simp_all
  ultimately show ?thesis unfolding udp_answer_def assms using sample_packet by blast
qed

theorem udp_route_reported_witness:
  "\<exists>data1 data2 marks. run_udp (\<lambda>_. True) (\<lambda>_. 0)
      [(0, Datagram data2 (10, 0, 0, 2), 3), (4, WouldBlock, 0), (5, Datagram data1 (10, 0, 0, 1), 6)] two_hops =
    Reported [(1, Some (10, 0, 0, 1), marks (1 :: nat)), (2, Some (10, 0, 0, 2), marks 2)]"
proof -
  have a: "udp_answer 2 (new_probe 1 BASE_PORT 0)
      (sample_header 1 @ sample_error 11 0 17 ([0, 9] @ u16_to_be (marker (new_probe 1 BASE_PORT 0)) @ [0, 40, 0, 0]))"
    by (rule sample_udp_answer) (simp_all add: new_probe_def const_defs)
  have b: "udp_answer 2 (new_probe 2 (BASE_PORT + 1) 0)
      (sample_header 1 @ sample_error 3 3 17 ([0, 9] @ u16_to_be (marker (new_probe 2 (BASE_PORT + 1) 0)) @ [0, 40, 0, 0]))"
    by (rule sample_udp_answer) (simp_all add: new_probe_def const_defs)
  have ks: "{k. Some k \<in> set [Some 1, None, Some (0 :: nat)]} = {..<length [new_probe 1 BASE_PORT 0, new_probe 2 (BASE_PORT + 1) 0]}" by auto
  have limit: "(\<lambda>_. 0) (length [new_probe 1 BASE_PORT 0, new_probe 2 (BASE_PORT + 1) 0]) + timeout two_hops = 10"
    by (simp add: two_hops_def)
  have range: "[unat (first_ttl two_hops)..<unat (2 :: u8) + 1] = [1, 2]" by (simp add: two_hops_def upt_rec)
  have hops: "first_ttl two_hops \<le> 2" "2 \<le> max_hops two_hops" "max_hops two_hops < 255" "0 < nqueries two_hops"
    by (simp_all add: two_hops_def)
  show ?thesis
    using udp_route_reported [OF hops two_probes two_hops_turns [where answer = udp_answer and m = BASE_PORT, OF a b, folded limit] ks, unfolded range]
    by (auto simp: sample_route_def)
qed

theorem icmp_route_reported_witness:
  "\<exists>data1 data2 marks. run_icmp 7 (\<lambda>_. True) (\<lambda>_. 0)
      [(0, Datagram data2 (10, 0, 0, 2), 3), (4, WouldBlock, 0), (5, Datagram data1 (10, 0, 0, 1), 6)] two_hops =
    Reported [(1, Some (10, 0, 0, 1), marks (1 :: nat)), (2, Some (10, 0, 0, 2), marks 2)]"
proof -
  let ?p1 = "new_probe 1 0 0" and ?p2 = "new_probe 2 (0 + 1) 0"
  have "length (take 8 (icmp_probe 7 ?p1)) = 8" by (simp add: icmp_probe_def request_eq)
  from sample_icmp_error [OF this, of 11 0 1]
  have a: "icmp_answer 7 2 ?p1 (sample_header 1 @ sample_error 11 0 1 (take 8 (icmp_probe 7 ?p1)))"
    unfolding icmp_answer_def using sample_packet by (auto simp: new_probe_def const_defs)
  obtain reply where "build_icmp_echo_reply (icmp_probe 7 ?p2) = Some reply"
    by (auto simp: build_icmp_echo_reply_def const_defs Let_def icmp_probe_def request_eq)
  then have b: "icmp_answer 7 2 ?p2 (sample_header 1 @ reply)"
    unfolding icmp_answer_def using sample_packet by (auto simp: new_probe_def)
  have ks: "{k. Some k \<in> set [Some 1, None, Some (0 :: nat)]} = {..<length [?p1, ?p2]}" by auto
  have limit: "(\<lambda>_. 0) (length [?p1, ?p2]) + timeout two_hops = 10" by (simp add: two_hops_def)
  have range: "[unat (first_ttl two_hops)..<unat (2 :: u8) + 1] = [1, 2]" by (simp add: two_hops_def upt_rec)
  have hops: "first_ttl two_hops \<le> 2" "2 \<le> max_hops two_hops" "max_hops two_hops < 255" "0 < nqueries two_hops"
    by (simp_all add: two_hops_def)
  show ?thesis
    using icmp_route_reported [OF hops two_probes two_hops_turns [where answer = "icmp_answer 7" and m = 0, OF a b, folded limit] ks, unfolded range]
    by (auto simp: sample_route_def)
qed

text \<open>
  With \<^verbatim>\<open>-m 255\<close> nothing is ever reported: \<^verbatim>\<open>config.max_hops + 1\<close> is a sum of bytes and is zero (in a
  debug build the addition itself panics), so the table of addresses is empty.
\<close>

lemma record_answer_no_table: "hop_addrs t = [] \<Longrightarrow> record_answer now ip m reached t = Some t' \<Longrightarrow> hop_addrs t' = []"
  by (auto simp: record_answer_def split: option.splits)

lemma recv_loop_no_table:
  assumes "\<And>now from data t t'. hop_addrs t = [] \<Longrightarrow> handle now from data t = Some t' \<Longrightarrow> hop_addrs t' = []"
  shows "hop_addrs t = [] \<Longrightarrow> recv_loop handle deadline turns t = Finished t' \<Longrightarrow> hop_addrs t' = []"
proof (induction turns arbitrary: t)
  case (Cons turn turns)
  then show ?case by (cases turn) (auto dest: assms split: if_splits recv_result.splits option.splits)
qed (simp split: if_splits)

lemma max_hops_255_reports_nothing:
  assumes "max_hops config = 255"
  shows "run_udp set_ttl clk turns config \<noteq> Reported ls" "run_icmp ident set_ttl clk turns config \<noteq> Reported ls"
proof -
  have "unat (first_ttl config) < Suc 255" using unat_u8_less [of "first_ttl config"] by simp
  then obtain h hs where range: "hop_range config = h # hs"
    using assms by (cases "hop_range config") (auto simp: hop_range_def)
  have start: "hop_addrs (trace_start config T) = []" for T by (simp add: trace_start_def assms)
  have handlers: "hop_addrs t = [] \<Longrightarrow> udp_datagram now from data t = Some t' \<Longrightarrow> hop_addrs t' = []"
    "hop_addrs t = [] \<Longrightarrow> icmp_datagram ident now from data t = Some t' \<Longrightarrow> hop_addrs t' = []" for now "from" data t t'
    by (auto simp: udp_datagram_def icmp_datagram_def split: option.splits if_splits dest: record_answer_no_table)
  have none: "report config r \<noteq> Reported ls" if "\<And>t. r = Finished t \<Longrightarrow> hop_addrs t = []" for r
    using that by (cases r) (simp_all add: report_def range)
  have udp: "report config (recv_loop udp_datagram deadline turns (trace_start config T)) \<noteq> Reported ls" for deadline T
    by (rule none) (rule recv_loop_no_table [OF handlers(1) start])
  have icmp: "report config (recv_loop (icmp_datagram ident) deadline turns (trace_start config T)) \<noteq> Reported ls" for deadline T
    by (rule none) (rule recv_loop_no_table [OF handlers(2) start])
  show "run_udp set_ttl clk turns config \<noteq> Reported ls" "run_icmp ident set_ttl clk turns config \<noteq> Reported ls"
    using udp icmp by (simp_all add: run_udp_def run_icmp_def split: option.split)
qed

end
