(* ===== verification/Ping_Stats.thy ===== *)
theory Ping_Stats
  imports Seconds
begin

text \<open>
  \<^verbatim>\<open>toolkit/ping/src/stats.rs\<close>: the statistics of the round-trip times.  \<^verbatim>\<open>f64\<close> numbers are exact
  reals here.
\<close>

section \<open>The code\<close>

definition F64_MAX :: real where "F64_MAX = (2 - 1 / 2 ^ 52) * 2 ^ 1023"

record RttStats =
  sent :: u32
  received :: u32
  rtt_min :: real
  rtt_max :: real
  rtt_sum :: real
  rtt_sum_sq :: real

definition rtt_stats_new :: RttStats where
  "rtt_stats_new = \<lparr>sent = 0, received = 0, rtt_min = F64_MAX, rtt_max = 0, rtt_sum = 0, rtt_sum_sq = 0\<rparr>"

definition record_rtt :: "real \<Rightarrow> RttStats \<Rightarrow> RttStats" where
  "record_rtt rtt_ms s = s\<lparr>received := received s + 1, rtt_min := min (rtt_min s) rtt_ms, rtt_max := max (rtt_max s) rtt_ms,
     rtt_sum := rtt_sum s + rtt_ms, rtt_sum_sq := rtt_sum_sq s + rtt_ms * rtt_ms\<rparr>"

definition u32_as_f64 :: "u32 \<Rightarrow> real" where
  "u32_as_f64 n = of_nat (unat n)"

definition avg :: "RttStats \<Rightarrow> real" where
  "avg s = (if received s = 0 then 0 else rtt_sum s / u32_as_f64 (received s))"

definition stddev :: "RttStats \<Rightarrow> real" where
  "stddev s =
     (if received s = 0 then 0
      else let mean = avg s;
               mean_sq = rtt_sum_sq s / u32_as_f64 (received s);
               variance = mean_sq - mean * mean
           in if variance < 0 then 0 else sqrt variance)"

definition saturating_sub :: "u32 \<Rightarrow> u32 \<Rightarrow> u32" where
  "saturating_sub a b = (if a < b then 0 else a - b)"

definition loss_pct :: "RttStats \<Rightarrow> real" where
  "loss_pct s =
     (if sent s = 0 then 0
      else let lost = saturating_sub (sent s) (received s) in u32_as_f64 lost / u32_as_f64 (sent s) * 100)"

section \<open>Properties\<close>

lemma record_all:
  "received (fold record_rtt xs s) = received s + of_nat (length xs)"
  "sent (fold record_rtt xs s) = sent s"
  "rtt_sum (fold record_rtt xs s) = rtt_sum s + sum_list xs"
  "rtt_sum_sq (fold record_rtt xs s) = rtt_sum_sq s + (\<Sum>x\<leftarrow>xs. x * x)"
  "rtt_min (fold record_rtt xs s) = fold min xs (rtt_min s)"
  "rtt_max (fold record_rtt xs s) = fold max xs (rtt_max s)"
  by (induction xs arbitrary: s) (simp_all add: record_rtt_def min.commute max.commute)

lemma fold_min_max:
  fixes xs :: "real list"
  assumes "xs \<noteq> []"
  shows "(\<And>x. x \<in> set xs \<Longrightarrow> x \<le> m) \<Longrightarrow> fold min xs m = Min (set xs)"
    "(\<And>x. x \<in> set xs \<Longrightarrow> m \<le> x) \<Longrightarrow> fold max xs m = Max (set xs)"
proof -
  have "fold min xs m = Min (insert m (set xs))" "fold max xs m = Max (insert m (set xs))"
    using Min.set_eq_fold [of m xs] Max.set_eq_fold [of m xs] by simp_all
  then show "(\<And>x. x \<in> set xs \<Longrightarrow> x \<le> m) \<Longrightarrow> fold min xs m = Min (set xs)"
    "(\<And>x. x \<in> set xs \<Longrightarrow> m \<le> x) \<Longrightarrow> fold max xs m = Max (set xs)"
    using assms by (simp_all add: min_absorb2 max_absorb2)
qed

text \<open>The variance as the mean of the squares less the square of the mean.\<close>

lemma variance_sums:
  fixes xs :: "real list"
  assumes "xs \<noteq> []" "mean = sum_list xs / of_nat (length xs)"
  shows "(\<Sum>x\<leftarrow>xs. (x - mean) * (x - mean)) / of_nat (length xs) = (\<Sum>x\<leftarrow>xs. x * x) / of_nat (length xs) - mean * mean"
proof -
  have "(\<Sum>x\<leftarrow>xs. (x - c) * (x - c)) = (\<Sum>x\<leftarrow>xs. x * x) - 2 * c * sum_list xs + of_nat (length xs) * (c * c)" for c
    by (induction xs) (simp_all add: algebra_simps)
  moreover have "sum_list xs = of_nat (length xs) * mean" using assms by simp
  ultimately have "(\<Sum>x\<leftarrow>xs. (x - mean) * (x - mean)) = (\<Sum>x\<leftarrow>xs. x * x) - of_nat (length xs) * (mean * mean)"
    by simp
  then show ?thesis using assms(1) by (simp add: diff_divide_distrib)
qed

text \<open>
  (C23) The summary is that of the round trips.  Of the times recorded, which are not negative and fit into an
  \<^verbatim>\<open>f64\<close>, the program prints their number, least, greatest and mean, and the standard deviation of the
  population (the root of the mean squared distance from the mean), which it computes from the sum of squares.
\<close>

theorem summary_of_rtts:
  assumes "xs \<noteq> []" "length xs < 2 ^ 32" "\<And>x. x \<in> set xs \<Longrightarrow> 0 \<le> x \<and> x \<le> F64_MAX" "s = fold record_rtt xs rtt_stats_new"
  shows "unat (received s) = length xs \<and> rtt_min s = Min (set xs) \<and> rtt_max s = Max (set xs) \<and>
    avg s = sum_list xs / of_nat (length xs) \<and>
    stddev s = sqrt ((\<Sum>x\<leftarrow>xs. (x - avg s) * (x - avg s)) / of_nat (length xs))"
proof -
  have n: "unat (of_nat (length xs) :: u32) = length xs" using assms(2) by (simp add: unat_of_nat take_bit_nat_eq_self)
  then have nz: "(of_nat (length xs) :: u32) \<noteq> 0" using assms(1) by (metis length_0_conv unat_0)
  have rcv: "received s = of_nat (length xs)" by (simp add: assms(4) record_all rtt_stats_new_def)
  have avg: "avg s = sum_list xs / of_nat (length xs)"
    using n nz rcv by (simp add: avg_def u32_as_f64_def) (simp add: assms(4) record_all rtt_stats_new_def)
  have "rtt_sum_sq s / of_nat (length xs) - avg s * avg s = (\<Sum>x\<leftarrow>xs. (x - avg s) * (x - avg s)) / of_nat (length xs)"
    using variance_sums [OF assms(1) avg] by (simp add: assms(4) record_all rtt_stats_new_def)
  moreover have "0 \<le> (\<Sum>x\<leftarrow>xs. (x - avg s) * (x - avg s)) / of_nat (length xs)"
    by (intro divide_nonneg_nonneg sum_list_nonneg) auto
  ultimately have "stddev s = sqrt ((\<Sum>x\<leftarrow>xs. (x - avg s) * (x - avg s)) / of_nat (length xs))"
    using n nz rcv by (simp add: stddev_def u32_as_f64_def Let_def)
  moreover have "rtt_min s = Min (set xs)" "rtt_max s = Max (set xs)"
    using fold_min_max [OF assms(1)] assms(3) by (simp_all add: assms(4) record_all rtt_stats_new_def)
  ultimately show ?thesis using rcv n avg by simp
qed

theorem summary_of_rtts_witness:
  "stddev (fold record_rtt [1, 3] rtt_stats_new) = 1"
proof -
  have "0 \<le> x \<and> x \<le> F64_MAX" if "x \<in> set [1, 3]" for x
    using that by (auto simp: F64_MAX_def)
  from summary_of_rtts [of "[1, 3]", OF _ _ this refl]
  have "avg (fold record_rtt [1, 3] rtt_stats_new) = 2" "stddev (fold record_rtt [1, 3] rtt_stats_new) =
      sqrt ((\<Sum>x\<leftarrow>[1, 3]. (x - avg (fold record_rtt [1, 3] rtt_stats_new)) * (x - avg (fold record_rtt [1, 3] rtt_stats_new))) / of_nat (length [1, 3 :: real]))"
    by simp_all
  then show ?thesis by simp
qed

lemma loss_pct_bounds: "0 \<le> loss_pct s \<and> loss_pct s \<le> 100"
proof -
  have "unat (saturating_sub (sent s) (received s)) \<le> unat (sent s)"
    by (auto simp: saturating_sub_def word_le_nat_alt not_less unat_sub)
  then have "u32_as_f64 (saturating_sub (sent s) (received s)) \<le> u32_as_f64 (sent s)"
    unfolding u32_as_f64_def by (rule of_nat_mono)
  moreover have nonneg: "0 \<le> u32_as_f64 n" for n unfolding u32_as_f64_def by (rule of_nat_0_le_iff)
  moreover have "\<not> u32_as_f64 n < 0" for n using nonneg by (simp add: not_less)
  ultimately show ?thesis
    by (auto simp: loss_pct_def Let_def divide_le_eq)
qed

end
