(* ===== verification/Ping_Run.thy ===== *)
theory Ping_Run
  imports Ping_Stats Icmp_Tools Hash_Map Transition "HOL-Library.Multiset"
begin

text \<open>
  \<^verbatim>\<open>toolkit/ping/src/main.rs\<close>: the main thread sends probes, a second thread receives the replies and reports
  probes that got none; they share the times of the probes, the statistics and a flag.

  A run is an interleaving of turns of the threads.  A turn ends where another thread may see the difference: at the lock of
  the times, at a lock of the statistics or at a read of the flag.  The result of \<^verbatim>\<open>send_to\<close> or
  \<^verbatim>\<open>recv_from\<close> and a reading of the clock come with the turn.  The sleeping times are not modelled, as every
  interleaving is considered.
\<close>

section \<open>The code\<close>

record PingConfig =
  count :: "u32 option"
  interval :: duration
  ping_timeout :: duration

datatype sender_pc = AtHead | ToInsert | ToCount | LoopDone | Joining | Ended | InsertPanicked | JoinPanicked

datatype receiver_pc = AtCheck | AtRecv | AtClock | AtSweep instant | RecvDone | RecvPanicked

text \<open>The lines of a reply (bytes, source, sequence number, time to live, milliseconds) and of a timeout.\<close>

datatype ping_line = Reply nat ip4 u16 u8 real | TimeoutLine u16

fun line_seq :: "ping_line \<Rightarrow> u16" where
  "line_seq (Reply n from rseq t rtt) = rseq"
| "line_seq (TimeoutLine rseq) = rseq"

record ping_state =
  running :: bool
  sent_times :: "(u16, instant) hash_map"
  stats :: RttStats
  sender :: sender_pc
  seq :: u16
  next_send :: instant
  receiver :: receiver_pc
  poisoned :: bool
  wire :: "bytes list"
  screen :: "ping_line list"
  last_lines :: "u16 list"

definition ping_start :: "instant \<Rightarrow> ping_state" where
  "ping_start now = \<lparr>running = True, sent_times = hm_new, stats = rtt_stats_new, sender = AtHead, seq = 0,
     next_send = now, receiver = AtCheck, poisoned = False, wire = [], screen = [], last_lines = []\<rparr>"

definition next_send_time :: "duration \<Rightarrow> instant \<Rightarrow> instant \<Rightarrow> instant" where
  "next_send_time d now next = (let next = next + d in if next > now then next else now)"

text \<open>A turn of the main thread: \<open>ok\<close> is the result of \<^verbatim>\<open>send_to\<close>.\<close>

definition sender_turn :: "PingConfig \<Rightarrow> u16 \<Rightarrow> bytes \<Rightarrow> bool \<Rightarrow> instant \<Rightarrow> ping_state \<Rightarrow> ping_state" where
  "sender_turn config ident payload ok now s =
     (case sender s of
        AtHead \<Rightarrow>
          if \<not> running s then s\<lparr>sender := LoopDone\<rparr>
          else if (case count config of Some c \<Rightarrow> sent (stats s) \<ge> c | None \<Rightarrow> False) then s\<lparr>sender := LoopDone\<rparr>
          else if \<not> ok then s\<lparr>sender := LoopDone\<rparr>
          else s\<lparr>wire := wire s @ [ping_build_echo_request ident (seq s) payload], sender := ToInsert\<rparr>
      | ToInsert \<Rightarrow>
          if poisoned s then s\<lparr>sender := InsertPanicked\<rparr>
          else s\<lparr>sent_times := hm_insert (seq s) now (sent_times s), sender := ToCount\<rparr>
      | ToCount \<Rightarrow>
          s\<lparr>stats := (stats s)\<lparr>sent := sent (stats s) + 1\<rparr>, seq := seq s + 1,
            next_send := next_send_time (interval config) now (next_send s), sender := AtHead\<rparr>
      | LoopDone \<Rightarrow> s\<lparr>running := False, sender := Joining\<rparr>
      | Joining \<Rightarrow>
          (case receiver s of
             RecvDone \<Rightarrow> s\<lparr>last_lines := sort (map fst (sent_times s)), sender := Ended\<rparr>
           | RecvPanicked \<Rightarrow> s\<lparr>sender := JoinPanicked\<rparr>
           | _ \<Rightarrow> s)
      | Ended \<Rightarrow> s
      | InsertPanicked \<Rightarrow> s
      | JoinPanicked \<Rightarrow> s)"

datatype ping_recv = Received bytes ip4 | NothingYet | ReadError

text \<open>A datagram, from \<^verbatim>\<open>recv_from\<close> to the record of its round trip.\<close>

definition take_reply :: "u16 \<Rightarrow> instant \<Rightarrow> bytes \<Rightarrow> ip4 \<Rightarrow> ping_state \<Rightarrow> ping_state" where
  "take_reply ident now data from s =
     (let ip_hdr_len = unat (data ! 0 AND 0x0F) * 4
      in if data = [] \<or> length data < ip_hdr_len then s\<lparr>receiver := RecvPanicked\<rparr>
         else case ping_parse_echo_reply (drop ip_hdr_len data) of
                None \<Rightarrow> s\<lparr>receiver := AtClock\<rparr>
              | Some (rid, rseq, _) \<Rightarrow>
                  if rid \<noteq> ident then s\<lparr>receiver := AtClock\<rparr>
                  else case hm_get (sent_times s) rseq of
                         None \<Rightarrow> s\<lparr>receiver := AtClock\<rparr>
                       | Some sent_at \<Rightarrow>
                           let s = s\<lparr>sent_times := hm_remove rseq (sent_times s)\<rparr>; rtt = as_secs (now - sent_at) * 1000
                           in if length data \<le> 8 then s\<lparr>receiver := RecvPanicked, poisoned := True\<rparr>
                              else s\<lparr>screen := screen s @ [Reply (length data - ip_hdr_len) from rseq (data ! 8) rtt],
                                stats := record_rtt rtt (stats s), receiver := AtClock\<rparr>)"

definition timed_out :: "duration \<Rightarrow> instant \<Rightarrow> (u16, instant) hash_map \<Rightarrow> u16 list" where
  "timed_out d now tab = map fst (filter (\<lambda>(_, sent_at). now - sent_at > d) tab)"

definition receiver_turn :: "PingConfig \<Rightarrow> u16 \<Rightarrow> ping_recv \<Rightarrow> instant \<Rightarrow> ping_state \<Rightarrow> ping_state" where
  "receiver_turn config ident ev now s =
     (case receiver s of
        AtCheck \<Rightarrow> s\<lparr>receiver := (if running s then AtRecv else RecvDone)\<rparr>
      | AtRecv \<Rightarrow>
          (case ev of
             Received data from \<Rightarrow> take_reply ident now data from s
           | NothingYet \<Rightarrow> s\<lparr>receiver := AtClock\<rparr>
           | ReadError \<Rightarrow> s\<lparr>receiver := RecvDone\<rparr>)
      | AtClock \<Rightarrow> s\<lparr>receiver := AtSweep now\<rparr>
      | AtSweep now \<Rightarrow>
          let out = timed_out (ping_timeout config) now (sent_times s)
          in s\<lparr>sent_times := fold hm_remove out (sent_times s), screen := screen s @ map TimeoutLine out, receiver := AtCheck\<rparr>
      | RecvDone \<Rightarrow> s
      | RecvPanicked \<Rightarrow> s)"

datatype ping_event = SenderTurn bool instant | ReceiverTurn ping_recv instant | Interrupt

fun ping_step :: "PingConfig \<Rightarrow> u16 \<Rightarrow> bytes \<Rightarrow> ping_event \<Rightarrow> ping_state \<Rightarrow> ping_state" where
  "ping_step config ident payload (SenderTurn ok now) s = sender_turn config ident payload ok now s"
| "ping_step config ident payload (ReceiverTurn ev now) s = receiver_turn config ident ev now s"
| "ping_step config ident payload Interrupt s = s\<lparr>running := False\<rparr>"

section \<open>Removing from the times\<close>

lemma fold_hm_remove: "fold hm_remove ks m = filter (\<lambda>(k, _). k \<notin> set ks) m"
  by (induction ks arbitrary: m) (auto simp: hm_remove_def intro!: filter_cong)

lemma mset_filter_split: "mset (map f (filter P xs)) + mset (map f (filter (\<lambda>x. \<not> P x) xs)) = mset (map f xs)"
  by (induction xs) auto

lemma filter_key:
  "hm_ok m \<Longrightarrow> hm_get m k = Some v \<Longrightarrow> filter (\<lambda>x. fst x = k) m = [(k, v)]"
proof (induction m)
  case (Cons p m)
  have "filter (\<lambda>x. fst x = k) m = []" if "fst p = k"
    using Cons.prems(1) that unfolding filter_empty_conv hm_ok_def
    by (metis distinct.simps(2) image_eqI list.set_map list.simps(9))
  then show ?case using Cons by (cases p) (auto simp: hm_ok_def hm_get_def split: if_splits)
qed (simp add: hm_get_def)

lemma mset_hm_remove:
  assumes "hm_ok m" "hm_get m k = Some v"
  shows "mset (map fst m) = add_mset k (mset (map fst (hm_remove k m)))"
proof -
  have "hm_remove k m = filter (\<lambda>x. \<not> fst x = k) m" by (simp add: hm_remove_def case_prod_beta')
  then have "mset (map fst [(k, v)]) + mset (map fst (hm_remove k m)) = mset (map fst m)"
    using mset_filter_split [of fst "\<lambda>x. fst x = k" m] filter_key [OF assms] by (simp only:)
  then show ?thesis by simp
qed

lemma mset_timed_out:
  assumes "hm_ok m"
  shows "mset (timed_out d now m) + mset (map fst (fold hm_remove (timed_out d now m) m)) = mset (map fst m)"
proof -
  have "filter (\<lambda>(k, _). k \<notin> set (timed_out d now m)) m = filter (\<lambda>x. \<not> (case x of (_, sent_at) \<Rightarrow> now - sent_at > d)) m"
  proof (rule filter_cong [OF refl])
    fix x assume "x \<in> set m"
    then have "fst x \<in> set (timed_out d now m) \<longleftrightarrow> now - snd x > d"
      using hm_keys_filter [OF assms, of "fst x" "\<lambda>_ sent_at. now - sent_at > d"] hm_in_set_get [OF assms, of "fst x" "snd x"]
      by (simp add: timed_out_def)
    then show "(case x of (k, _) \<Rightarrow> k \<notin> set (timed_out d now m)) = (\<not> (case x of (_, sent_at) \<Rightarrow> now - sent_at > d))"
      by (cases x) simp
  qed
  then show ?thesis
    using mset_filter_split [of fst "\<lambda>(_, sent_at). now - sent_at > d" m]
    by (simp add: fold_hm_remove, simp add: timed_out_def)
qed

lemma hm_insert_fresh: "k \<notin> set (map fst m) \<Longrightarrow> map fst (hm_insert k v m) = map fst m @ [k]"
  unfolding hm_insert_def by (induction m) auto

section \<open>The invariant\<close>

text \<open>How many probes have their time in the table, or had it there, and how many are counted as sent.\<close>

definition inserted :: "ping_state \<Rightarrow> nat" where
  "inserted s = (if sender s = ToInsert then length (wire s) - 1 else length (wire s))"

definition counted :: "ping_state \<Rightarrow> nat" where
  "counted s = (if sender s \<in> {ToInsert, ToCount} then length (wire s) - 1 else length (wire s))"

definition line_rtts :: "ping_line list \<Rightarrow> real list" where
  "line_rtts ls = concat (map (\<lambda>l. case l of Reply n from rseq t rtt \<Rightarrow> [rtt] | TimeoutLine rseq \<Rightarrow> []) ls)"

lemma line_rtts_simps [simp]:
  "line_rtts (ls @ [Reply n from rseq t rtt]) = line_rtts ls @ [rtt]"
  "line_rtts (ls @ map TimeoutLine ks) = line_rtts ls"
  by (simp_all add: line_rtts_def comp_def)

definition ping_ok :: "PingConfig \<Rightarrow> u16 \<Rightarrow> bytes \<Rightarrow> ping_state \<Rightarrow> bool" where
  "ping_ok config ident payload s \<longleftrightarrow>
     hm_ok (sent_times s) \<and> \<not> poisoned s \<and> receiver s \<noteq> RecvPanicked \<and> sender s \<notin> {InsertPanicked, JoinPanicked} \<and>
     (sender s \<in> {ToInsert, ToCount} \<longrightarrow> wire s \<noteq> []) \<and>
     wire s = map (\<lambda>k. ping_build_echo_request ident (of_nat k) payload) [0..<length (wire s)] \<and>
     seq s = of_nat (counted s) \<and>
     mset (map line_seq (screen s)) + mset (map fst (sent_times s)) = mset (map of_nat [0..<inserted s]) \<and>
     stats s = (fold record_rtt (line_rtts (screen s)) rtt_stats_new)\<lparr>sent := of_nat (counted s)\<rparr> \<and>
     (\<forall>c. count config = Some c \<longrightarrow> length (wire s) \<le> unat c) \<and>
     (sender s = Ended \<longrightarrow> receiver s = RecvDone \<and> last_lines s = sort (map fst (sent_times s)))"

text \<open>The kernel hands over datagrams with a whole IPv4 header.\<close>

fun whole_datagram :: "ping_event \<Rightarrow> bool" where
  "whole_datagram (ReceiverTurn (Received data from) now) =
     (20 \<le> length data \<and> unat (data ! 0 AND 0x0F) * 4 \<le> length data)"
| "whole_datagram _ = True"

lemma u16_of_nat_inj: "a < 65536 \<Longrightarrow> b < 65536 \<Longrightarrow> (of_nat a :: u16) = of_nat b \<longleftrightarrow> a = b"
proof -
  assume "a < 65536" "b < 65536"
  then have "unat (of_nat a :: u16) = a" "unat (of_nat b :: u16) = b" by (simp_all add: unat_of_nat take_bit_nat_eq_self)
  then show ?thesis by metis
qed

lemma of_nat_pred: "0 < n \<Longrightarrow> (of_nat (n - Suc 0) :: 'a :: len word) + 1 = of_nat n"
  by (cases n) simp_all

text \<open>Putting the time of the probe just sent into the table: its number is not in the books yet.\<close>

lemma insert_accounts:
  assumes ok: "ping_ok config ident payload s" and at: "sender s = ToInsert" and few: "length (wire s) < 65536" "wire s \<noteq> []"
  shows "mset (map line_seq (screen s)) + mset (map fst (hm_insert (seq s) now (sent_times s))) =
    mset (map of_nat [0..<length (wire s)])"
proof -
  have seq: "seq s = of_nat (length (wire s) - 1)" using ok at by (simp add: ping_ok_def counted_def)
  have ms: "mset (map line_seq (screen s)) + mset (map fst (sent_times s)) = mset (map of_nat [0..<length (wire s) - 1])"
    using ok at by (simp add: ping_ok_def inserted_def)
  have "seq s \<notin> set (map fst (sent_times s))"
  proof
    assume "seq s \<in> set (map fst (sent_times s))"
    then have "seq s \<in># mset (map of_nat [0..<length (wire s) - 1])" unfolding ms [symmetric] by simp
    then obtain k where k: "k < length (wire s) - 1" "(of_nat (length (wire s) - 1) :: u16) = of_nat k" by (auto simp: seq)
    have "length (wire s) - 1 = k" using k few by (intro u16_of_nat_inj [THEN iffD1] k(2)) auto
    then show False using k(1) by simp
  qed
  note fresh = hm_insert_fresh [OF this, of now]
  have "[0..<length (wire s)] = [0..<length (wire s) - 1] @ [length (wire s) - 1]"
    using few(2) by (metis Suc_pred' length_greater_0_conv upt_Suc_append zero_le)
  then show ?thesis
    unfolding fresh using ms by (simp add: seq add.assoc [symmetric])
qed

lemma sender_ok:
  assumes ok: "ping_ok config ident payload s" and few: "length (wire (sender_turn config ident payload r now s)) < 65536"
  shows "ping_ok config ident payload (sender_turn config ident payload r now s)"
proof (cases "sender s")
  case AtHead
  show ?thesis
  proof (cases "length (wire (sender_turn config ident payload r now s)) = length (wire s)")
    case True
    then show ?thesis using ok AtHead by (auto simp: ping_ok_def sender_turn_def inserted_def counted_def split: if_splits)
  next
    case False
    have "length (wire s) < unat c" if "count config = Some c" for c
    proof -
      have "sent (stats s) < c" using False that AtHead by (auto simp: sender_turn_def split: if_splits)
      moreover have "unat (sent (stats s)) = length (wire s)"
        using ok few AtHead False by (simp add: ping_ok_def counted_def sender_turn_def unat_of_nat take_bit_nat_eq_self split: if_splits)
      ultimately show ?thesis by (simp add: word_less_nat_alt)
    qed
    then show ?thesis
      using ok AtHead False by (auto simp: ping_ok_def sender_turn_def inserted_def counted_def Suc_le_eq split: if_splits)
  qed
next
  case ToInsert
  have few: "length (wire s) < 65536" "wire s \<noteq> []"
    using few ok ToInsert by (simp_all add: sender_turn_def ping_ok_def split: if_splits)
  have acc: "mset (map line_seq (screen s)) + mset (map fst (hm_insert (seq s) now (sent_times s))) =
      mset (map of_nat [0..<length (wire s)])"
    by (rule insert_accounts [OF ok ToInsert few])
  then show ?thesis
    using ok ToInsert acc by (simp add: ping_ok_def sender_turn_def hm.ok_insert inserted_def counted_def)
next
  case ToCount
  then show ?thesis
    using ok by (auto simp: ping_ok_def sender_turn_def inserted_def counted_def of_nat_pred)
next
  case Joining
  then show ?thesis
    using ok by (auto simp: ping_ok_def sender_turn_def inserted_def counted_def split: receiver_pc.splits)
qed (use ok in \<open>auto simp: ping_ok_def sender_turn_def inserted_def counted_def\<close>)

lemma take_reply_ok:
  assumes ok: "ping_ok config ident payload s" and data: "20 \<le> length data" "unat (data ! 0 AND 0x0F) * 4 \<le> length data"
    and at: "receiver s = AtRecv"
  shows "ping_ok config ident payload (take_reply ident now data from s)"
proof -
  have "mset (map fst (sent_times s)) = add_mset k (mset (map fst (hm_remove k (sent_times s))))"
    if "hm_get (sent_times s) k = Some v" for k v
    using mset_hm_remove [OF _ that] ok by (simp add: ping_ok_def)
  then show ?thesis
    using ok data at
    by (auto simp: take_reply_def Let_def ping_ok_def inserted_def counted_def hm.ok_remove record_rtt_def split: option.split)
qed

lemma receiver_ok:
  assumes ok: "ping_ok config ident payload s" and "whole_datagram (ReceiverTurn ev now)"
  shows "ping_ok config ident payload (receiver_turn config ident ev now s)"
proof (cases "receiver s")
  case AtRecv
  then show ?thesis
    using take_reply_ok [OF ok] assms
    by (cases ev) (auto simp: receiver_turn_def ping_ok_def inserted_def counted_def)
next
  case (AtSweep now)
  then show ?thesis
    using ok mset_timed_out [of "sent_times s" "ping_timeout config" now]
    by (auto simp: receiver_turn_def ping_ok_def inserted_def counted_def Let_def hm.ok_remove_all comp_def add.assoc)
qed (use ok in \<open>auto simp: ping_ok_def receiver_turn_def inserted_def counted_def\<close>)

lemma wire_grows: "length (wire s) \<le> length (wire (ping_step config ident payload e s))"
  by (cases e) (auto simp: sender_turn_def receiver_turn_def take_reply_def Let_def
      split: sender_pc.split receiver_pc.split ping_recv.split option.split)

interpretation ping_threads: invariant_system "ping_step config ident payload" whole_datagram
  "\<lambda>s. length (wire s) < 65536 \<longrightarrow> ping_ok config ident payload s"
  for config ident payload
proof
  fix s e
  assume ok: "length (wire s) < 65536 \<longrightarrow> ping_ok config ident payload s" and e: "whole_datagram e"
  show "length (wire (ping_step config ident payload e s)) < 65536 \<longrightarrow> ping_ok config ident payload (ping_step config ident payload e s)"
  proof
    assume few: "length (wire (ping_step config ident payload e s)) < 65536"
    then have old: "ping_ok config ident payload s" using ok wire_grows le_less_trans by blast
    show "ping_ok config ident payload (ping_step config ident payload e s)"
    proof (cases e)
      case (SenderTurn r now)
      then show ?thesis using sender_ok [OF old] few by simp
    next
      case (ReceiverTurn ev now)
      then show ?thesis using receiver_ok [OF old] e by simp
    next
      case Interrupt
      then show ?thesis using old by (simp add: ping_ok_def inserted_def counted_def)
    qed
  qed
qed

section \<open>Properties\<close>

text \<open>
  (C15) Ping accounts for every probe.  Take any interleaving of the two threads and of an interrupt, in which fewer than
  65536 probes are sent (the sequence numbers do not repeat) and the kernel delivers any IPv4 datagrams: the probes are those with
  sequence numbers from 0 on, at most \<^verbatim>\<open>count\<close> of them; each of them that has a time is on the screen exactly once, with
  its reply or its timeout, or else in the table; the statistics are those of the replies on the screen.  No thread
  panics, and when the program ends, the screen with the last lines shows each probe exactly once and the number sent is right.
\<close>

theorem ping_accounts:
  assumes "reaches (ping_step config ident payload) whole_datagram (ping_start now) s" "length (wire s) < 65536"
  shows "wire s = map (\<lambda>k. ping_build_echo_request ident (of_nat k) payload) [0..<length (wire s)] \<and>
    (\<forall>c. count config = Some c \<longrightarrow> length (wire s) \<le> unat c) \<and>
    mset (map line_seq (screen s)) + mset (map fst (sent_times s)) = mset (map of_nat [0..<inserted s]) \<and>
    stats s = (fold record_rtt (line_rtts (screen s)) rtt_stats_new)\<lparr>sent := of_nat (counted s)\<rparr> \<and>
    sender s \<notin> {InsertPanicked, JoinPanicked} \<and> receiver s \<noteq> RecvPanicked \<and>
    (sender s = Ended \<longrightarrow>
       mset (map line_seq (screen s) @ last_lines s) = mset (map of_nat [0..<length (wire s)]) \<and>
       unat (sent (stats s)) = length (wire s))"
proof -
  have "ping_ok config ident payload (ping_start now)"
    by (simp add: ping_ok_def ping_start_def hm.ok_empty counted_def inserted_def line_rtts_def rtt_stats_new_def) (simp add: hm_new_def)
  then have ok: "ping_ok config ident payload s" using ping_threads.inv_reaches [OF assms(1)] assms(2) by blast
  have "inserted s = length (wire s)" "counted s = length (wire s)" if "sender s = Ended"
    using that by (simp_all add: inserted_def counted_def)
  then have "sender s = Ended \<longrightarrow>
       mset (map line_seq (screen s) @ last_lines s) = mset (map of_nat [0..<length (wire s)]) \<and>
       unat (sent (stats s)) = length (wire s)"
    using ok assms(2) unfolding ping_ok_def by (simp add: unat_of_nat take_bit_nat_eq_self)
  then show ?thesis using ok unfolding ping_ok_def by blast
qed

text \<open>One probe, its reply, and the end: \<open>Some 1\<close> is the \<^verbatim>\<open>-c 1\<close> of the command line.\<close>

definition one_ping :: PingConfig where
  "one_ping = \<lparr>count = Some 1, interval = 10, ping_timeout = 20\<rparr>"

definition one_ping_events :: "bytes \<Rightarrow> ping_event list" where
  "one_ping_events reply =
     [SenderTurn True 1, SenderTurn True 2, ReceiverTurn NothingYet 3, ReceiverTurn (Received reply (10, 0, 0, 2)) 4,
      SenderTurn True 5, SenderTurn True 6, ReceiverTurn NothingYet 7, ReceiverTurn NothingYet 8, SenderTurn True 9,
      ReceiverTurn NothingYet 10, SenderTurn True 11]"

definition sample_reply :: bytes where
  "sample_reply = [0x45, 0, 0, 0, 0, 0, 0, 0, 64, 1, 0, 0, 10, 0, 0, 2, 10, 0, 0, 1, 0, 0, 0, 0, 0, 7, 0, 0]"

lemma sample_reply_facts:
  "length sample_reply = 28" "sample_reply ! 0 = 0x45" "sample_reply ! 8 = 64" "sample_reply \<noteq> []"
  "unat ((0x45 :: u8) AND 0x0F) = 5" "ping_parse_echo_reply (drop 20 sample_reply) = Some (7, 0, [])"
  by code_simp+

theorem ping_accounts_witness:
  "let s = fold (ping_step one_ping 7 []) (one_ping_events sample_reply) (ping_start 0) in
     sender s = Ended \<and> mset (map line_seq (screen s) @ last_lines s) = {#0#}"
proof -
  define s where "s = fold (ping_step one_ping 7 []) (one_ping_events sample_reply) (ping_start 0)"
  have whole: "list_all whole_datagram (one_ping_events sample_reply)"
    by (simp add: one_ping_events_def sample_reply_facts)
  have run: "sender s = Ended \<and> length (wire s) = 1"
    by (simp add: s_def one_ping_events_def ping_start_def sender_turn_def receiver_turn_def take_reply_def sample_reply_facts
        one_ping_def rtt_stats_new_def record_rtt_def hm_new_def hm_insert_def hm_get_def timed_out_def Let_def)
  have "reaches (ping_step one_ping 7 []) whole_datagram (ping_start 0) s"
    unfolding s_def by (rule reaches_fold [OF whole reaches.start])
  from ping_accounts [OF this] run show ?thesis by (simp add: s_def [symmetric])
qed

text \<open>
  A reply that is faster than the main thread is lost.  The time of a probe is put into the table after the probe was
  sent; when the receiver takes the reply in between, nothing is found for it, the statistics and the screen stay as they are,
  and the probe is in the table afterwards, without a reply to come.
\<close>

theorem early_reply_lost:
  assumes "sender s = AtHead" "running s" "receiver s = AtRecv" "\<not> poisoned s" "hm_get (sent_times s) (seq s) = None"
    and "count config = None" "length hdr = 20" "hdr ! 0 = 0x45" "length payload \<le> 131066"
    and "build_icmp_echo_reply (ping_build_echo_request ident (seq s) payload) = Some reply"
    and "s' = fold (ping_step config ident payload)
        [SenderTurn True t0, ReceiverTurn (Received (hdr @ reply) from) t1, SenderTurn True t2] s"
  shows "wire s' = wire s @ [ping_build_echo_request ident (seq s) payload] \<and> stats s' = stats s \<and> screen s' = screen s \<and>
    hm_get (sent_times s') (seq s) = Some t2"
proof -
  note reply = reply_fields [OF assms(9) assms(10) [unfolded request_eq]]
  have "ping_parse_echo_reply (drop 20 (hdr @ reply)) = Some (ident, seq s, payload)"
    using reply assms(7) by (simp add: ping_parse_echo_reply_def const_defs)
  moreover have "(hdr @ reply) ! 0 = 0x45" using assms(7,8) by (simp add: nth_append)
  ultimately show ?thesis
    using assms(1-8) sample_reply_facts(5) by (auto simp: assms(11) sender_turn_def receiver_turn_def take_reply_def Let_def hm_simps)
qed

theorem early_reply_lost_witness:
  "\<exists>reply s'. s' = fold (ping_step (one_ping\<lparr>count := None\<rparr>) 7 [])
        [SenderTurn True 1, ReceiverTurn (Received (take 20 sample_reply @ reply) (10, 0, 0, 2)) 2, SenderTurn True 3]
        ((ping_start 0)\<lparr>receiver := AtRecv\<rparr>) \<and>
     screen s' = [] \<and> received (stats s') = 0 \<and> hm_get (sent_times s') 0 = Some 3"
proof -
  obtain reply where reply: "build_icmp_echo_reply (ping_build_echo_request 7 0 []) = Some reply"
    by (auto simp: build_icmp_echo_reply_def const_defs Let_def request_eq)
  have hdr: "length (take 20 sample_reply) = 20" "take 20 sample_reply ! 0 = 0x45" by (simp_all add: sample_reply_facts)
  show ?thesis
    using early_reply_lost [of "(ping_start 0)\<lparr>receiver := AtRecv\<rparr>" "one_ping\<lparr>count := None\<rparr>" "take 20 sample_reply" "[]" 7 reply
        _ 1 "(10, 0, 0, 2)" 2 3, OF _ _ _ _ _ _ hdr _ _ refl] reply
    by (auto simp: ping_start_def hm_new_def hm_get_def rtt_stats_new_def)
qed

end
