(* ===== verification/Socks5_Server.thy ===== *)
theory Socks5_Server
  imports Udp_Relay
begin

text \<open>
  \<^verbatim>\<open>my-proxy/src/inbounds/socks5.rs\<close>, \<^verbatim>\<open>inbounds/tproxy.rs\<close> and \<^verbatim>\<open>relay/tcp.rs\<close>: what
  the two servers do with a connection.

  What comes from outside is the record \<open>proxy_env\<close>: the resolver, the results of \<^verbatim>\<open>TcpStream::connect\<close>, of the UDP
  socket and of \<^verbatim>\<open>local_addr\<close>, and tokio's \<^verbatim>\<open>copy_bidirectional\<close>, which gets the client's stream
  as it is then and the address of the server.  The race of \<^verbatim>\<open>tokio::select!\<close> is the number of datagrams the relay has
  handled when the TCP connection is readable; that a \<^verbatim>\<open>send_to\<close> may be cancelled in the middle is left out.
\<close>

section \<open>The code\<close>

record proxy_env =
  lookup_host :: resolver
  tcp_connect :: "SocketAddr \<Rightarrow> io_kind option"
  copy_bidirectional :: "SocketAddr \<Rightarrow> tcp_stream \<Rightarrow> io_kind option \<times> tcp_stream"
  udp_bind :: "io_kind + u16"
  local_addr :: "io_kind + SocketAddr"
  udp_received :: "udp_recv list"
  tcp_readable_after :: nat
  udp_idle_timeout :: duration

definition ZERO_ADDR :: Address where [const_defs]: "ZERO_ADDR = Ipv4 (0, 0, 0, 0) 0"

text \<open>What a connection came to: copying to a server, or a UDP association and its relay at the end.\<close>

datatype session = TcpSession SocketAddr | UdpSession UdpRelay

definition tcp_relay :: "proxy_env \<Rightarrow> SocketAddr \<Rightarrow> tcp_stream \<Rightarrow> session result \<times> tcp_stream" where
  "tcp_relay env server s =
     (case copy_bidirectional env server s of
        (Some e, s) \<Rightarrow> (Inl (Io e), s)
      | (None, s) \<Rightarrow> (Inr (TcpSession server), s))"

text \<open>The loop over the candidates: the connected server and the last error.\<close>

fun connect_loop :: "(SocketAddr \<Rightarrow> io_kind option) \<Rightarrow> SocketAddr list \<Rightarrow> io_kind option \<Rightarrow> SocketAddr option \<times> io_kind option" where
  "connect_loop connect [] last_err = (None, last_err)"
| "connect_loop connect (candidate # addrs) last_err =
     (case connect candidate of
        None \<Rightarrow> (Some candidate, last_err)
      | Some e \<Rightarrow> connect_loop connect addrs (Some e))"

definition handle_connect :: "proxy_env \<Rightarrow> Address \<Rightarrow> tcp_stream \<Rightarrow> session result \<times> tcp_stream" where
  "handle_connect env a s =
     (case resolve_all (lookup_host env) a of
        Inl e \<Rightarrow> (Inl e, snd (write_reply HostUnreachable ZERO_ADDR s))
      | Inr addrs \<Rightarrow>
          (case connect_loop (tcp_connect env) addrs None of
             (None, last_err) \<Rightarrow>
               let io_err = (case last_err of Some e \<Rightarrow> e | None \<Rightarrow> Refused)
               in (Inl (Io io_err), snd (write_reply ConnectionRefused ZERO_ADDR s))
           | (Some server, _) \<Rightarrow> tcp_relay env server (snd (write_reply Success ZERO_ADDR s))))"

definition reply_ip :: "SocketAddr \<Rightarrow> ip4" where
  "reply_ip a = (case a of V4 ip _ \<Rightarrow> ip | V6 _ _ \<Rightarrow> (127, 0, 0, 1))"

definition handle_associate :: "proxy_env \<Rightarrow> tcp_stream \<Rightarrow> session result \<times> tcp_stream" where
  "handle_associate env s =
     (case udp_bind env of
        Inl e \<Rightarrow> (Inl (Io e), s)
      | Inr port \<Rightarrow>
          (case local_addr env of
             Inl e \<Rightarrow> (Inl (Io e), s)
           | Inr a \<Rightarrow>
               let bind_addr = Ipv4 (reply_ip a) port;
                   s = snd (write_reply Success bind_addr s);
                   relay = relay_new (udp_idle_timeout env);
                   (result, relay) = run (lookup_host env) (take (tcp_readable_after env) (udp_received env)) relay
               in (Inr (UdpSession relay), s)))"

definition handle_client :: "proxy_env \<Rightarrow> tcp_stream \<Rightarrow> session result \<times> tcp_stream" where
  "handle_client env =
     try_then handshake (\<lambda>_.
     try_then read_request (\<lambda>request.
       case cmd request of
         TcpConnect \<Rightarrow> handle_connect env (addr request)
       | UdpAssociate \<Rightarrow> handle_associate env))"

text \<open>The transparent proxy connects to the address the client meant, which is the local address of the socket.\<close>

definition handle_tproxy_connection :: "proxy_env \<Rightarrow> tcp_stream \<Rightarrow> session result \<times> tcp_stream" where
  "handle_tproxy_connection env s =
     (case local_addr env of
        Inl e \<Rightarrow> (Inl (Io e), s)
      | Inr original_addr \<Rightarrow>
          (case tcp_connect env original_addr of
             Some e \<Rightarrow> (Inl (Io e), s)
           | None \<Rightarrow> tcp_relay env original_addr s))"

section \<open>The candidates\<close>

lemma connect_loop_first:
  "connect_loop connect addrs e =
     (find (\<lambda>a. connect a = None) addrs,
      case map connect (takeWhile (\<lambda>a. connect a \<noteq> None) addrs) of [] \<Rightarrow> e | es \<Rightarrow> last es)"
proof (induction addrs arbitrary: e)
  case (Cons a addrs)
  then show ?case by (cases "connect a") (auto split: list.split)
qed simp

lemma resolved_not_empty: "resolve_all host a = Inr addrs \<Longrightarrow> addrs \<noteq> []"
  by (auto simp: resolve_all_def split: Address.splits sum.splits if_splits) (metis length_0_conv length_sort)

text \<open>The candidates are those of the resolver, the IPv4 addresses before the IPv6 addresses, each kind in the resolver's order.\<close>

lemma resolved_order:
  assumes "resolve_all host (Domain d port) = Inr addrs" "host d port = Inr found"
  shows "addrs = filter (\<lambda>a. \<not> is_ipv6 a) found @ filter is_ipv6 found"
proof -
  have "sort_key is_ipv6 xs = filter (\<lambda>a. \<not> is_ipv6 a) xs @ filter is_ipv6 xs" for xs
  proof (induction xs)
    case (Cons x xs)
    have "insort_key is_ipv6 x (ys @ zs) = (if is_ipv6 x then ys @ x # zs else x # ys @ zs)"
      if "\<forall>y \<in> set ys. \<not> is_ipv6 y" "\<forall>z \<in> set zs. is_ipv6 z" for ys zs
      using that by (induction ys) (cases zs, auto)
    then show ?case using Cons by simp
  qed simp
  then show ?thesis using assms by (simp add: resolve_all_def split: if_splits)
qed

section \<open>Properties\<close>

text \<open>
  (C22) A CONNECT session is served truthfully.  Of a client that offers the method without authentication and asks
  for any address, exactly the greeting and the request are read.  When the name cannot be resolved or no candidate can
  be connected, it is told so, with the code for that, and the connection ends; otherwise the first candidate that can be
  connected, IPv4 before IPv6, gets the connection, the client is told that it succeeded, and the bytes after its request are left for
  the copying in both directions.
\<close>

theorem connect_session:
  assumes "length methods < 256" "0 \<in> set methods" "address_wf a"
    and "s = \<lparr>inp = [0x05, of_nat (length methods)] @ methods @ [0x05, 0x01, rsv] @ to_socks5_bytes a @ rest, outp = out\<rparr>"
    and "answer = (\<lambda>code. \<lparr>inp = rest, outp = out @ [0x05, 0x00] @ [0x05, reply_code code, 0x00] @ to_socks5_bytes ZERO_ADDR\<rparr>)"
  shows "handle_client env s =
    (case resolve_all (lookup_host env) a of
       Inl e \<Rightarrow> (Inl e, answer HostUnreachable)
     | Inr addrs \<Rightarrow>
         (case find (\<lambda>c. tcp_connect env c = None) addrs of
            None \<Rightarrow> (Inl (Io (the (tcp_connect env (last addrs)))), answer ConnectionRefused)
          | Some server \<Rightarrow> tcp_relay env server (answer Success)))"
proof -
  note hs = handshake_read [OF assms(1), of "[0x05, 0x01, rsv] @ to_socks5_bytes a @ rest" out]
  have cmd: "command_from_u8 1 = Some TcpConnect" by (simp add: command_from_u8_def)
  note req = request_read [OF assms(3) cmd, of rsv rest "out @ [0x05, 0x00]"]
  have reply: "snd (write_reply code ZERO_ADDR \<lparr>inp = rest, outp = out @ [0x05, 0x00]\<rparr>) = answer code" for code
    by (simp add: write_reply_def write_all_def assms(5) Let_def)
  have client: "handle_client env s = handle_connect env a \<lparr>inp = rest, outp = out @ [0x05, 0x00]\<rparr>"
    using hs req assms(2) by (simp add: handle_client_def try_then_def assms(4))
  show ?thesis
  proof (cases "resolve_all (lookup_host env) a")
    case (Inr addrs)
    have last: "(case map (tcp_connect env) (takeWhile (\<lambda>c. tcp_connect env c \<noteq> None) addrs) of [] \<Rightarrow> None | es \<Rightarrow> last es) =
        tcp_connect env (last addrs)" if "find (\<lambda>c. tcp_connect env c = None) addrs = None"
    proof -
      have "takeWhile (\<lambda>c. tcp_connect env c \<noteq> None) addrs = addrs" using that by (auto simp: find_None_iff takeWhile_eq_all_conv)
      then show ?thesis using resolved_not_empty [OF Inr] by (cases addrs) (auto simp: last_map)
    qed
    have "tcp_connect env (last addrs) \<noteq> None" if "find (\<lambda>c. tcp_connect env c = None) addrs = None"
      using that resolved_not_empty [OF Inr] by (auto simp: find_None_iff)
    then show ?thesis
      using last by (auto simp: client handle_connect_def Inr connect_loop_first reply Let_def split: option.split)
  qed (simp add: client handle_connect_def reply)
qed

definition sample_env :: proxy_env where
  "sample_env = \<lparr>lookup_host = (\<lambda>d port. Inr [V6 (replicate 16 1) port, V4 (10, 0, 0, 1) port, V4 (10, 0, 0, 2) port]),
     tcp_connect = (\<lambda>a. if a = V4 (10, 0, 0, 1) 443 then Some Refused else None),
     copy_bidirectional = (\<lambda>_ s. (None, s)), udp_bind = Inr 4000, local_addr = Inr (V4 (10, 0, 0, 9) 1080),
     udp_received = [], tcp_readable_after = 0, udp_idle_timeout = 30\<rparr>"

theorem connect_session_witness:
  "fst (handle_client sample_env
      \<lparr>inp = [0x05, of_nat (length [0 :: u8])] @ [0] @ [0x05, 0x01, 0] @ to_socks5_bytes (Domain [97, 46, 99] 443) @ [9, 9], outp = []\<rparr>) =
    Inr (TcpSession (V4 (10, 0, 0, 2) 443))"
proof -
  have wf: "address_wf (Domain [97, 46, 99] 443)" by simp
  have "resolve_all (lookup_host sample_env) (Domain [97, 46, 99] 443) =
      Inr [V4 (10, 0, 0, 1) 443, V4 (10, 0, 0, 2) 443, V6 (replicate 16 1) 443]"
    by (simp add: sample_env_def resolve_all_def is_ipv6_def)
  then show ?thesis
    using connect_session [OF _ _ wf refl refl, of "[0]" sample_env 0 "[9, 9]" "[]"]
    by (simp add: sample_env_def tcp_relay_def)
qed

text \<open>
  A UDP association tells the client the address of its connection with the port of the new socket, as the client's
  parser reads it, and runs the relay on what arrives there until the TCP connection is readable.
\<close>

lemma associate_session:
  assumes "length methods < 256" "0 \<in> set methods" "address_wf a" "udp_bind env = Inr port" "local_addr env = Inr la"
  shows "handle_client env \<lparr>inp = [0x05, of_nat (length methods)] @ methods @ [0x05, 0x03, rsv] @ to_socks5_bytes a @ rest, outp = out\<rparr> =
    (Inr (UdpSession (snd (run (lookup_host env) (take (tcp_readable_after env) (udp_received env)) (relay_new (udp_idle_timeout env))))),
     \<lparr>inp = rest, outp = out @ [0x05, 0x00] @ [0x05, 0x00, 0x00] @ to_socks5_bytes (Ipv4 (reply_ip la) port)\<rparr>)"
proof -
  have cmd: "command_from_u8 3 = Some UdpAssociate" by (simp add: command_from_u8_def)
  show ?thesis
    using handshake_read [OF assms(1), of "[0x05, 0x03, rsv] @ to_socks5_bytes a @ rest" out]
      request_read [OF assms(3) cmd, of rsv rest "out @ [0x05, 0x00]"] assms(2,4,5)
    by (simp add: handle_client_def try_then_def handle_associate_def write_reply_def write_all_def Let_def case_prod_beta)
qed

end
