(* ===== verification/Stack_Client.thy ===== *)
theory Stack_Client
  imports Stack_Correct Text_Scan
begin

text \<open>
  \<^verbatim>\<open>TCP-stack/src/main.rs\<close> and \<^verbatim>\<open>config.rs\<close>: the addresses on the command line and the client
  that the program runs on the stack: it connects, waits, sends a request and prints the response until the connection is
  closed.

  Each turn of a loop is given what \<^verbatim>\<open>read_frame\<close> returns in its \<open>poll\<close>; where this list ends, the
  loop is still running (\<open>Unfinished\<close>).  The text that is printed is the value of the second loop.
\<close>

section \<open>The code\<close>

definition parse_ip :: "bytes \<Rightarrow> ip4" where
  "parse_ip s =
     (let parts = map (\<lambda>p. case parse_uint U8_MAX p of Some n \<Rightarrow> of_nat n | None \<Rightarrow> 0) (split_on 46 s) :: u8 list;
          ip = copy_at 0 (take 4 parts) [0, 0, 0, 0]
      in (ip ! 0, ip ! 1, ip ! 2, ip ! 3))"

definition parse_addr :: "bytes \<Rightarrow> (ip4 \<times> u16) option" where
  "parse_addr s =
     (case rsplit_once 58 s of
        None \<Rightarrow> None
      | Some (ip_str, port_str) \<Rightarrow>
          let ip = parse_ip ip_str
          in (case parse_uint U16_MAX port_str of None \<Rightarrow> None | Some port \<Rightarrow> Some (ip, of_nat port)))"

fun ip_str :: "ip4 \<Rightarrow> bytes" where
  "ip_str (a, b, c, d) =
     show_nat (unat a) @ [46] @ show_nat (unat b) @ [46] @ show_nat (unat c) @ [46] @ show_nat (unat d)"

datatype 'a client_run = Finished 'a | Unfinished TcpStack | Panicked

fun wait_established ::
  "TcpSocket \<Rightarrow> read_result list list \<Rightarrow> TcpStack \<Rightarrow> (TcpStack \<times> read_result list list) client_run" where
  "wait_established sock turns s =
     (if is_established sock s then Finished (s, turns)
      else case turns of
             [] \<Rightarrow> Unfinished s
           | frames # turns \<Rightarrow>
               (case poll frames s of
                  (Inl e, s) \<Rightarrow> Panicked
                | (Inr _, s) \<Rightarrow> wait_established sock turns s))"

definition client_request :: "ip4 \<Rightarrow> bytes option \<Rightarrow> bytes" where
  "client_request rip extra_data =
     (case extra_data of
        Some data \<Rightarrow> data
      | None \<Rightarrow> ascii ''GET / HTTP/1.0'' @ CRLF @ ascii ''Host: '' @ ip_str rip @ CRLF @ ascii ''Connection: close'' @ CRLF @ CRLF)"

text \<open>The body of the loop that reads the response, after \<open>poll\<close>.\<close>

definition print_received :: "TcpSocket \<Rightarrow> bytes \<Rightarrow> TcpStack \<Rightarrow> bytes \<times> TcpStack" where
  "print_received sock printed s =
     (let (data, s) = stack_recv sock s;
          printed = (if data \<noteq> [] \<and> utf8_valid data then printed @ data else printed);
          s = (if stack_state sock s = Some CloseWait then stack_close sock s else s)
      in (printed, s))"

fun read_response :: "TcpSocket \<Rightarrow> read_result list list \<Rightarrow> bytes \<Rightarrow> TcpStack \<Rightarrow> bytes \<times> TcpStack client_run" where
  "read_response sock turns printed s =
     (if is_closed sock s then (printed, Finished s)
      else case turns of
             [] \<Rightarrow> (printed, Unfinished s)
           | frames # turns \<Rightarrow>
               (case poll frames s of
                  (Inl e, s) \<Rightarrow> (printed, Panicked)
                | (Inr _, s) \<Rightarrow>
                    let (printed, s) = print_received sock printed s in read_response sock turns printed s))"

definition run_client ::
  "nat \<Rightarrow> read_result list list \<Rightarrow> ip4 \<Rightarrow> u16 \<Rightarrow> bytes option \<Rightarrow> TcpStack \<Rightarrow> bytes \<times> TcpStack client_run" where
  "run_client nanos turns rip rport extra_data s =
     (case stack_connect nanos rip rport s of
        (None, s) \<Rightarrow> ([], Panicked)
      | (Some sock, s) \<Rightarrow>
          (case wait_established sock turns s of
             Panicked \<Rightarrow> ([], Panicked)
           | Unfinished s \<Rightarrow> ([], Unfinished s)
           | Finished (s, turns) \<Rightarrow>
               let (_, s) = stack_send sock (client_request rip extra_data) s
               in read_response sock turns [] s))"

declare wait_established.simps [simp del] read_response.simps [simp del]

section \<open>Tables of connections under the stack\<close>

text \<open>
  A predicate of the table that is kept by segments of a kind, by the timers and by sending is kept by whatever
  the stack does with frames that carry only segments of this kind.
\<close>

locale stack_table =
  fixes keeps :: "TcpManager \<Rightarrow> bool"
    and segment_ok :: "ip4 \<Rightarrow> ip4 \<Rightarrow> TcpHeader \<Rightarrow> bytes \<Rightarrow> bool"
  assumes keeps_process: "keeps m \<Longrightarrow> segment_ok lip rip h p \<Longrightarrow> keeps (snd (process lip rip h p now m))"
    and keeps_retransmit: "keeps m \<Longrightarrow> keeps (snd (poll_retransmit now m))"
    and keeps_record_sent: "keeps m \<Longrightarrow> keeps (record_sent key now m)"
    and keeps_send: "keeps m \<Longrightarrow> keeps (snd (socket_send sock data m))"
    and keeps_close: "keeps m \<Longrightarrow> keeps (snd (socket_close sock now m))"
begin

definition frame_ok :: "ip4 \<Rightarrow> bytes \<Rightarrow> bool" where
  "frame_ok lip data =
     (case parse_frame data of
        None \<Rightarrow> True
      | Some (_, payload) \<Rightarrow>
          (case parse_ipv4 payload of
             None \<Rightarrow> True
           | Some (ip_hdr, ip_payload) \<Rightarrow>
               (case parse_tcp ip_payload of
                  None \<Rightarrow> True
                | Some (h, p) \<Rightarrow> segment_ok lip (ip_src ip_hdr) h p)))"

definition frames_ok :: "ip4 \<Rightarrow> read_result list \<Rightarrow> bool" where
  "frames_ok lip results = (\<forall>data. Frame data \<in> set results \<longrightarrow> frame_ok lip data)"

lemma keeps_send_frame: "keeps (tcp s) \<Longrightarrow> keeps (tcp (send_frame ip pkt key s))"
  by (simp add: tcp_send_frame keeps_record_sent split: option.split)

lemma keeps_send_segments: "keeps (tcp s) \<Longrightarrow> keeps (tcp (send_segments_with_key segs key ip s))"
  by (simp add: tcp_send_segments keeps_record_sent split: option.split)

lemma keeps_fold: "(\<And>x s. keeps (tcp s) \<Longrightarrow> keeps (tcp (f x s))) \<Longrightarrow> keeps (tcp s) \<Longrightarrow> keeps (tcp (fold f xs s))"
  by (induction xs arbitrary: s) auto

lemma keeps_handle_arp: "keeps (tcp s) \<Longrightarrow> keeps (tcp (handle_arp hdr payload s))"
  by (simp add: handle_arp_def Let_def case_prod_beta keeps_fold split: option.split)

lemma keeps_dispatch: "keeps (tcp s) \<Longrightarrow> frame_ok (our_ip s) data \<Longrightarrow> keeps (tcp (dispatch data s))"
  by (auto simp: dispatch_def handle_ipv4_def handle_icmp_def handle_tcp_def frame_ok_def Let_def case_prod_beta
      keeps_handle_arp keeps_send_frame keeps_process intro!: keeps_send_segments split: option.splits)

lemma keeps_arp_tick: "keeps (tcp s) \<Longrightarrow> keeps (tcp (stack_arp_tick s))"
  by (simp add: stack_arp_tick_def Let_def case_prod_beta arp_retry_def keeps_fold)

lemma keeps_tcp_retransmit: "keeps (tcp s) \<Longrightarrow> keeps (tcp (tcp_retransmit s))"
  unfolding tcp_retransmit_def Let_def case_prod_beta
  by (rule keeps_fold) (simp_all add: send_retransmit_def case_prod_beta Let_def keeps_send_frame keeps_retransmit)

lemma keeps_stack_send: "keeps (tcp s) \<Longrightarrow> keeps (tcp (snd (stack_send sock data s)))"
  by (simp add: stack_send_def Let_def case_prod_beta keeps_send_segments keeps_send)

lemma keeps_stack_close: "keeps (tcp s) \<Longrightarrow> keeps (tcp (stack_close sock s))"
  by (simp add: stack_close_def Let_def case_prod_beta keeps_send_segments keeps_close)

end

lemma our_ip_fold: "(\<And>x s. our_ip (f x s) = our_ip s) \<Longrightarrow> our_ip (fold f xs s) = our_ip s"
  by (induction xs arbitrary: s) auto

lemma our_ip_segments [simp]: "our_ip (send_segments_with_key segs key ip s) = our_ip s"
  unfolding send_segments_with_key_def by (rule our_ip_fold) simp

lemma our_ip_dispatch [simp]: "our_ip (dispatch data s) = our_ip s"
  by (simp add: dispatch_def handle_arp_def handle_ipv4_def handle_icmp_def handle_tcp_def Let_def case_prod_beta
      our_ip_fold split: option.split)

lemma our_ip_poll_parts [simp]:
  "our_ip (stack_arp_tick s) = our_ip s" "our_ip (tcp_retransmit s) = our_ip s"
  "our_ip (snd (stack_send sock data s)) = our_ip s" "our_ip (stack_close sock s) = our_ip s"
  "our_ip (snd (stack_recv sock s)) = our_ip s"
  by (simp_all add: stack_arp_tick_def tcp_retransmit_def arp_retry_def send_retransmit_def Let_def case_prod_beta our_ip_fold
      stack_send_def stack_close_def stack_recv_def)

lemma our_ip_read_loop: "our_ip (snd (read_loop results s)) = our_ip s"
  by (induction results s rule: read_loop.induct) simp_all

lemma our_ip_poll [simp]: "our_ip (snd (poll results s)) = our_ip s"
  by (simp add: poll_def Let_def case_prod_beta our_ip_read_loop)

context stack_table begin

lemma keeps_read_loop:
  "keeps (tcp s) \<Longrightarrow> frames_ok (our_ip s) results \<Longrightarrow> keeps (tcp (snd (read_loop results s)))"
  by (induction results s rule: read_loop.induct) (auto simp: frames_ok_def keeps_dispatch)

lemma keeps_stack_poll: "keeps (tcp s) \<Longrightarrow> frames_ok (our_ip s) results \<Longrightarrow> keeps (tcp (snd (poll results s)))"
  by (simp add: poll_def Let_def case_prod_beta keeps_read_loop keeps_tcp_retransmit keeps_arp_tick)

end

end
