(* ===== verification/Stack_Client_Correct.thy ===== *)
theory Stack_Client_Correct
  imports Stack_Client
begin

text \<open>
  What the client shows of the server's stream, and when it never gets that far.  The interface \<open>stack_table\<close> is
  interpreted on the two predicates of the connection table these need.
\<close>

section \<open>The addresses of the command line\<close>

lemma ip_parts: "split_on 46 (ip_str (a, b, c, d)) = [show_nat (unat a), show_nat (unat b), show_nat (unat c), show_nat (unat d)]"
proof -
  have dot: "46 \<notin> set (show_nat n)" for n using show_nat_chars [of 46 n] by (auto simp: in_range_def)
  show ?thesis by (simp add: split_on_sep split_on_no_sep dot)
qed

lemma parse_u8: "parse_uint U8_MAX (show_nat (unat (a :: u8))) = Some (unat a)"
  using unat_u8_less [of a] by (intro parse_show_nat) simp

text \<open>
  The addresses of the command line are read as they are written: the four numbers of an address, a colon and the
  port give this address and port.
\<close>

theorem parse_addr_printed:
  "parse_ip (ip_str ip) = ip \<and> parse_addr (ip_str ip @ [58] @ show_nat (unat port)) = Some (ip, port)"
proof -
  have ip: "parse_ip (ip_str ip) = ip" by (cases ip) (simp only: parse_ip_def ip_parts, simp add: parse_u8 copy_at_def)
  have "58 \<notin> set (show_nat n)" for n using show_nat_chars [of 58 n] by (auto simp: in_range_def)
  then have "rsplit_once 58 (ip_str ip @ 58 # show_nat (unat port)) = Some (ip_str ip, show_nat (unat port))"
    by (rule rsplit_once_sep)
  moreover have "parse_uint U16_MAX (show_nat (unat port)) = Some (unat port)"
    using unat_u16_less [of port] by (intro parse_show_nat) simp
  ultimately show ?thesis using ip by (simp add: parse_addr_def)
qed

text \<open>What is not a number between 0 and 255 is read as 0, and missing numbers are 0.\<close>

lemma parse_ip_lenient: "parse_ip (ascii ''10.0.0.x'') = (10, 0, 0, 0) \<and> parse_ip (ascii ''tap0'') = (0, 0, 0, 0)"
  by code_simp

section \<open>A connection that is gone\<close>

definition conn_gone :: "ConnKey \<Rightarrow> TcpManager \<Rightarrow> bool" where
  "conn_gone key m =
     (hm_ok (connections m) \<and> (case hm_get (connections m) key of None \<Rightarrow> True | Some t \<Rightarrow> tcb_state t = Closed))"

lemma conn_gone_insert:
  "conn_gone key m \<Longrightarrow> (key' = key \<Longrightarrow> tcb_state t = Closed) \<Longrightarrow>
     conn_gone key (m\<lparr>connections := hm_insert key' t (connections m)\<rparr>)"
  by (auto simp: conn_gone_def hm.ok_insert hm_simps)

lemma conn_goneD: "conn_gone key m \<Longrightarrow> hm_get (connections m) key = Some t \<Longrightarrow> tcb_state t = Closed"
  by (simp add: conn_gone_def)

interpretation gone: stack_table "conn_gone key" "\<lambda>_ _ _ _. True" for key
proof unfold_locales
  fix m lip rip h p now
  assume gone: "conn_gone key m"
  show "conn_gone key (snd (process lip rip h p now m))"
  proof (cases "hm_get (connections m) (lip, dst_port h, rip, src_port h)")
    case (Some t)
    have "tcb_state (snd (process_existing_tcb t h p now)) = Closed" if "(lip, dst_port h, rip, src_port h) = key"
      using conn_goneD [OF gone] Some that by (simp add: process_existing_tcb_def)
    then show ?thesis using gone by (simp add: process_def Let_def Some case_prod_beta conn_gone_insert)
  qed (simp add: process_def Let_def gone)
next
  fix m now
  assume gone: "conn_gone key m"
  have "tcb_state t = Closed \<Longrightarrow> tcb_state (snd (retransmit_one now t)) = Closed" for t
    by (simp add: retransmit_one_def Let_def split: option.split)
  then show "conn_gone key (snd (poll_retransmit now m))"
    using gone by (auto simp: conn_gone_def poll_retransmit_def hm_get_retain split: option.splits)
next
  fix m k now
  assume "conn_gone key m"
  then show "conn_gone key (record_sent k now m)"
    by (auto simp: record_sent_def split: option.split intro!: conn_gone_insert dest: conn_goneD)
next
  fix m sock data
  assume "conn_gone key m"
  then show "conn_gone key (snd (socket_send sock data m))"
    by (auto simp: socket_send_def Let_def split: option.split intro!: conn_gone_insert dest: conn_goneD)
next
  fix m sock now
  assume gone: "conn_gone key m"
  show "conn_gone key (snd (socket_close sock now m))"
  proof (cases "hm_get (connections m) (sock_key sock)")
    case (Some t)
    have "tcb_state (snd (close_tcb now t)) = Closed" if "sock_key sock = key"
      using conn_goneD [OF gone] Some that by (simp add: close_tcb_def)
    then show ?thesis using gone by (simp add: socket_close_def close_conn_def close_def Some case_prod_beta conn_gone_insert)
  qed (simp add: socket_close_def close_conn_def close_def gone)
qed

lemma gone_iff_closed: "hm_ok (connections (tcp s)) \<Longrightarrow> conn_gone (sock_key sock) (tcp s) = is_closed sock s"
  by (auto simp: conn_gone_def is_closed_def stack_state_def split: option.splits)

lemma gone_not_established: "conn_gone (sock_key sock) (tcp s) \<Longrightarrow> \<not> is_established sock s"
  by (auto simp: conn_gone_def is_established_def stack_state_def split: option.splits)

lemma wait_gone: "conn_gone (sock_key sock) (tcp s) \<Longrightarrow> wait_established sock turns s \<noteq> Finished r"
proof (induction turns arbitrary: s)
  case Nil
  then show ?case using gone_not_established [OF Nil] by (simp add: wait_established.simps [of _ "[]"])
next
  case (Cons frames turns)
  have "conn_gone (sock_key sock) (tcp (snd (poll frames s)))"
    by (rule gone.keeps_stack_poll [OF Cons.prems]) (simp add: gone.frames_ok_def gone.frame_ok_def split: option.split)
  then show ?case
    using Cons.IH gone_not_established [OF Cons.prems]
    by (auto simp: wait_established.simps [of _ "_ # _"] case_prod_beta split: sum.split)
qed

text \<open>
  (C24) A refused connection hangs the client.  When the server answers the SYN by a RST, the block is closed, and from then
  on the first loop of the client never ends, whatever frames arrive: it waits for \<open>Established\<close> only.
\<close>

theorem refused_client_waits:
  assumes "hm_ok (connections (tcp s))" "sock_key sock = (our_ip s, seg_dst_port seg, src, sport)"
    and "hm_get (connections (tcp s)) (sock_key sock) = Some t" "tcb_state t = SynSent"
    and "seg_flags seg = TCP_RST OR TCP_ACK" "length (seg_payload seg) \<le> 131042"
  shows "is_closed sock (dispatch (segment_frame d src_mac src dst sport seg) s) \<and>
    wait_established sock turns (dispatch (segment_frame d src_mac src dst sport seg) s) \<noteq> Finished r"
proof -
  let ?h = "received_header src dst sport seg"
  let ?s = "dispatch (segment_frame d src_mac src dst sport seg) s"
  have flags: "hdr_flags ?h AND (TCP_SYN OR TCP_ACK) \<noteq> TCP_SYN OR TCP_ACK" "has_flag ?h TCP_RST"
    by (simp_all add: has_flag_def assms(5) const_defs)
  have "process_existing_tcb t ?h (seg_payload seg) (st_now s) = ([], t\<lparr>tcb_state := Closed\<rparr>)"
    using flags assms(4) by (simp add: process_existing_tcb_def on_SynSent_def)
  note hit = process_hit [OF _ this, of _ "our_ip s" src]
  have "tcp ?s = (tcp s)\<lparr>connections := hm_insert (sock_key sock) (t\<lparr>tcb_state := Closed\<rparr>) (connections (tcp s))\<rparr>"
    using hit assms(2,3) by (simp add: dispatch_segment_frame [OF assms(6)] Let_def tcp_send_segments)
  then have "conn_gone (sock_key sock) (tcp ?s)" "hm_ok (connections (tcp ?s))"
    using assms(1) by (simp_all add: conn_gone_def hm.ok_insert hm_simps)
  then show ?thesis using gone_iff_closed wait_gone by blast
qed

lemma first_port: "next_ephemeral manager_new = 40000"
  by (simp add: next_ephemeral_def ephemeral_from.simps [of _ 40000] port_used_def manager_new_def hm_new_def)

definition syn_sent_stack :: TcpStack where
  "syn_sent_stack = (stack_new (2, 0, 0, 0, 0, 1) (10, 0, 0, 2) id)\<lparr>tcp :=
     snd (initiate_connect 7 (10, 0, 0, 2) (10, 0, 0, 1) 80 0 manager_new)\<rparr>"

theorem refused_client_waits_witness:
  "\<exists>s. is_closed \<lparr>sock_key = ((10, 0, 0, 2), 40000, (10, 0, 0, 1), 80)\<rparr> s \<and>
    (\<forall>r. wait_established \<lparr>sock_key = ((10, 0, 0, 2), 40000, (10, 0, 0, 1), 80)\<rparr> [[WouldBlock], [Frame [1, 2, 3]]] s
      \<noteq> Finished r)"
proof -
  let ?key = "((10, 0, 0, 2), 40000, (10, 0, 0, 1), 80) :: ConnKey"
  let ?rst = "segment_frame (2, 0, 0, 0, 0, 1) (2, 0, 0, 0, 0, 9) (10, 0, 0, 1) (10, 0, 0, 2) 80
    \<lparr>seg_flags = TCP_RST OR TCP_ACK, seg_seq = 0, seg_ack = 8, seg_payload = [], seg_dst_port = 40000\<rparr>"
  have "hm_ok (connections (tcp syn_sent_stack))" "our_ip syn_sent_stack = (10, 0, 0, 2)"
    "map_option tcb_state (hm_get (connections (tcp syn_sent_stack)) ?key) = Some SynSent"
    by (simp_all add: syn_sent_stack_def stack_new_def initiate_connect_def first_port Let_def new_server_def)
       (simp_all add: manager_new_def hm.ok_insert hm.ok_empty hm_simps)
  then obtain t where "hm_ok (connections (tcp syn_sent_stack))" "our_ip syn_sent_stack = (10, 0, 0, 2)"
    "hm_get (connections (tcp syn_sent_stack)) ?key = Some t" "tcb_state t = SynSent" by auto
  then have "\<forall>r. is_closed \<lparr>sock_key = ?key\<rparr> (dispatch ?rst syn_sent_stack) \<and>
      wait_established \<lparr>sock_key = ?key\<rparr> [[WouldBlock], [Frame [1, 2, 3]]] (dispatch ?rst syn_sent_stack) \<noteq> Finished r"
    by (intro allI refused_client_waits [where t = t]) simp_all
  then show ?thesis by blast
qed

section \<open>The response\<close>

text \<open>
  What the server sends: its SYN+ACK with number \<open>isn\<close>, and pieces of its stream \<open>S\<close>.  The connection is handshaking, or it is
  one that receives the stream.
\<close>

definition server_segment :: "u32 \<Rightarrow> bytes \<Rightarrow> TcpHeader \<Rightarrow> bytes \<Rightarrow> bool" where
  "server_segment isn S h p =
     (stream_segment isn S h p \<or>
      hdr_flags h AND (TCP_SYN OR TCP_ACK) = TCP_SYN OR TCP_ACK \<and> hdr_seq h = isn \<and> p = [] \<and> \<not> has_flag h TCP_FIN)"

definition handshaking :: "ConnKey \<Rightarrow> bytes \<Rightarrow> TcpManager \<Rightarrow> bool" where
  "handshaking key out m =
     (out = [] \<and> hm_ok (connections m) \<and>
      (case hm_get (connections m) key of None \<Rightarrow> False | Some t \<Rightarrow> tcb_state t = SynSent \<and> recv_buffer t = []))"

definition client_ok :: "ConnKey \<Rightarrow> u32 \<Rightarrow> bytes \<Rightarrow> bytes \<Rightarrow> TcpManager \<Rightarrow> bool" where
  "client_ok key isn S out m = (short_stream S \<and> (stream_ok key isn S out m \<or> handshaking key out m))"

lemma client_ok_prefix: "client_ok key isn S out m \<Longrightarrow> prefix out S"
  by (auto simp: client_ok_def handshaking_def dest: stream_ok_prefix)

lemma handshakingE:
  assumes "handshaking key out m"
  obtains t where "out = []" "hm_ok (connections m)" "hm_get (connections m) key = Some t" "tcb_state t = SynSent" "recv_buffer t = []"
  using assms by (auto simp: handshaking_def split: option.splits)

text \<open>A block under the key of a connection that is handshaking still or may receive.\<close>

lemma handshaking_insert:
  assumes "handshaking key out m" "short_stream S"
    and "key' = key \<Longrightarrow> tcb_state t = SynSent \<and> recv_buffer t = [] \<or> recv_ok isn S [] t"
  shows "client_ok key isn S out (m\<lparr>connections := hm_insert key' t (connections m)\<rparr>)"
  using assms by (auto simp: client_ok_def handshaking_def stream_ok_def hm.ok_insert hm_simps)

lemma recv_ok_start:
  "recv_buffer t = [] \<Longrightarrow> tcb_state t = Established \<and> rcv_nxt t = isn + 1 \<or> tcb_state t = Closed \<Longrightarrow> recv_ok isn S [] t"
  by (auto simp: recv_ok_def rcv_at_def intro: exI [of _ 0])

lemma handshaking_process_tcb:
  assumes "tcb_state t = SynSent" "recv_buffer t = []" "server_segment isn S h p"
  shows "let t' = snd (process_existing_tcb t h p now) in
    tcb_state t' = SynSent \<and> recv_buffer t' = [] \<or> recv_ok isn S [] t'"
proof (cases "hdr_flags h AND (TCP_SYN OR TCP_ACK) = TCP_SYN OR TCP_ACK")
  case True
  have "has_flag h TCP_SYN"
  proof -
    have "(TCP_SYN OR TCP_ACK) AND TCP_SYN = TCP_SYN" by (simp add: const_defs)
    then have "hdr_flags h AND TCP_SYN = TCP_SYN" using True by (metis and.assoc and.commute and.left_commute)
    then show ?thesis by (simp add: has_flag_def const_defs)
  qed
  then have "hdr_seq h = isn" using assms(3) by (auto simp: server_segment_def stream_segment_def)
  then show ?thesis
    using True assms(1,2) by (simp add: process_existing_tcb_def on_SynSent_def Let_def recv_ok_start)
next
  case False
  then show ?thesis using assms(1,2) by (simp add: process_existing_tcb_def on_SynSent_def Let_def recv_ok_start)
qed

text \<open>A repeated SYN+ACK does nothing to a connection that receives.\<close>

lemma recv_ok_syn_ack:
  assumes ok: "recv_ok isn S out t" and "short_stream S" "hdr_seq h = isn" "\<not> has_flag h TCP_FIN"
  shows "recv_ok isn S out (snd (process_existing_tcb t h [] now))"
proof -
  have old: "isn \<noteq> isn + 1 + of_nat n" "isn \<noteq> isn + 2 + of_nat n" if "n \<le> length S" for n
  proof -
    have "isn = isn + 1 + of_nat n \<Longrightarrow> (of_nat (Suc n) :: u32) = of_nat 0"
      "isn = isn + 2 + of_nat n \<Longrightarrow> (of_nat (Suc (Suc n)) :: u32) = of_nat 0"
      by (simp_all add: algebra_simps)
    then show "isn \<noteq> isn + 1 + of_nat n" "isn \<noteq> isn + 2 + of_nat n"
      using that assms(2) of_nat_u32_eq [of "Suc n" 0] of_nat_u32_eq [of "Suc (Suc n)" 0] by auto
  qed
  show ?thesis
  proof (cases "tcb_state t")
    case Established
    then obtain n where "n \<le> length S" "rcv_nxt t = isn + 1 + of_nat n" using ok by (auto simp: recv_ok_def rcv_at_def)
    then have "hdr_seq h \<noteq> rcv_nxt t" using old(1) assms(3) by metis
    then have "established_data h [] (established_ack h t) = ([], established_ack h t)"
      by (simp add: established_data_def Let_def established_ack_eq)
    then show ?thesis using ok Established by (simp add: process_existing_tcb_def on_Established_def)
  next
    case CloseWait
    then have "rcv_nxt t = isn + 2 + of_nat (length S)" using ok by (auto simp: recv_ok_def rcv_at_def)
    then have "hdr_seq h \<noteq> rcv_nxt t" using old(2) [of "length S"] assms(3) by simp
    then show ?thesis using ok CloseWait by (simp add: process_existing_tcb_def on_CloseWait_def Let_def)
  next
    case FinWait1
    then show ?thesis
      using ok assms(4) by (simp add: process_existing_tcb_def on_FinWait1_def Let_def recv_ok_final recv_ok_finwait buffer_data_def)
  next
    case FinWait2
    then show ?thesis
      using ok assms(4) by (simp add: process_existing_tcb_def on_FinWait2_def Let_def recv_ok_final buffer_data_def)
  next
    case Closing
    then show ?thesis using ok by (simp add: process_existing_tcb_def on_Closing_def recv_ok_final)
  next
    case LastAck
    then show ?thesis using ok by (simp add: process_existing_tcb_def on_LastAck_def recv_ok_final)
  qed (use ok in \<open>auto simp: process_existing_tcb_def recv_ok_def rcv_at_def\<close>)
qed

lemma client_ok_process:
  assumes ok: "client_ok key isn S out m" and seg: "key = (lip, dst_port h, rip, src_port h) \<longrightarrow> server_segment isn S h p"
  shows "client_ok key isn S out (snd (process lip rip h p now m))"
proof (cases "hm_get (connections m) (lip, dst_port h, rip, src_port h)")
  case (Some t)
  let ?key' = "(lip, dst_port h, rip, src_port h)" and ?t' = "snd (process_existing_tcb t h p now)"
  have short: "short_stream S" using ok by (simp add: client_ok_def)
  have m': "snd (process lip rip h p now m) = m\<lparr>connections := hm_insert ?key' ?t' (connections m)\<rparr>"
    by (simp add: process_def Let_def Some case_prod_beta)
  show ?thesis
  proof (cases "handshaking key out m")
    case True
    have "tcb_state ?t' = SynSent \<and> recv_buffer ?t' = [] \<or> recv_ok isn S [] ?t'" if "?key' = key"
      using handshakingE [OF True] handshaking_process_tcb [of t isn S h p now] seg Some that by (auto simp: Let_def)
    then show ?thesis unfolding m' by (rule handshaking_insert [OF True short])
  next
    case False
    then have stream: "stream_ok key isn S out m" using ok by (simp add: client_ok_def)
    have "recv_ok isn S out ?t'" if k: "?key' = key"
    proof -
      have "recv_ok isn S out t" using stream_okD [OF stream] Some k by simp
      then show ?thesis using recv_ok_process recv_ok_syn_ack short seg k unfolding server_segment_def by blast
    qed
    then show ?thesis unfolding m' client_ok_def using short stream_ok_insert [OF stream] by blast
  qed
qed (simp add: process_def Let_def ok)

lemma client_ok_retransmit:
  assumes "client_ok key isn S out m"
  shows "client_ok key isn S out (snd (poll_retransmit now m))"
proof (cases "handshaking key out m")
  case True
  then obtain t where t: "out = []" "hm_ok (connections m)" "hm_get (connections m) key = Some t" "tcb_state t = SynSent" "recv_buffer t = []"
    by (rule handshakingE)
  let ?t' = "snd (retransmit_one now t)"
  have "tcb_state ?t' = SynSent \<or> tcb_state ?t' = Closed" "recv_buffer ?t' = []"
    using t(4,5) by (simp_all add: retransmit_one_def Let_def split: option.split)
  then show ?thesis
    using t assms by (auto simp: client_ok_def handshaking_def stream_ok_def poll_retransmit_def hm_get_retain keep_connection_def)
next
  case False
  then show ?thesis using assms stream_ok_poll by (simp add: client_ok_def)
qed

interpretation stream: stack_table "client_ok key isn S out"
  "\<lambda>lip rip h p. key = (lip, dst_port h, rip, src_port h) \<longrightarrow> server_segment isn S h p" for key isn S out
proof unfold_locales
  fix m k now
  assume ok: "client_ok key isn S out m"
  have keep: "handshaking key out m \<Longrightarrow> short_stream S \<Longrightarrow> client_ok key isn S out (record_sent k now m)"
    by (auto simp: record_sent_def split: option.split intro!: handshaking_insert elim!: handshakingE) (auto simp: client_ok_def handshaking_def)
  then show "client_ok key isn S out (record_sent k now m)"
    using ok stream_ok_record_sent unfolding client_ok_def by blast
next
  fix m sock data
  assume ok: "client_ok key isn S out m"
  have "handshaking key out m \<Longrightarrow> short_stream S \<Longrightarrow> client_ok key isn S out (snd (socket_send sock data m))"
    by (auto simp: socket_send_def Let_def split: option.split intro!: handshaking_insert elim!: handshakingE) (auto simp: client_ok_def handshaking_def)
  then show "client_ok key isn S out (snd (socket_send sock data m))"
    using ok stream_ok_send unfolding client_ok_def by blast
next
  fix m sock now
  assume ok: "client_ok key isn S out m"
  have "client_ok key isn S out (snd (close key' now m))" if "handshaking key out m" "short_stream S" for key'
  proof (cases "hm_get (connections m) key'")
    case (Some t)
    have closed: "recv_ok isn S [] (snd (close_tcb now t))" if "key' = key"
    proof -
      have "tcb_state t = SynSent" "recv_buffer t = []" using \<open>handshaking key out m\<close> Some that by (auto simp: handshaking_def)
      then show ?thesis by (simp add: close_tcb_def recv_ok_start)
    qed
    have "snd (close key' now m) = m\<lparr>connections := hm_insert key' (snd (close_tcb now t)) (connections m)\<rparr>"
      by (simp add: close_def Some case_prod_beta)
    then show ?thesis using handshaking_insert [OF that disjI2 [OF closed]] by simp
  qed (use that in \<open>simp add: close_def client_ok_def\<close>)
  then show "client_ok key isn S out (snd (socket_close sock now m))"
    using ok stream_ok_close unfolding client_ok_def socket_close_def close_conn_def by blast
qed (rule client_ok_process, assumption+, erule client_ok_retransmit)

lemma client_ok_drain:
  assumes "client_ok key isn S out m"
  shows "client_ok key isn S (out @ fst (drain_data key m)) (snd (drain_data key m))"
proof (cases "handshaking key out m")
  case True
  then obtain t where "out = []" "hm_ok (connections m)" "hm_get (connections m) key = Some t" "tcb_state t = SynSent" "recv_buffer t = []"
    by (rule handshakingE)
  then show ?thesis
    using assms by (auto simp: drain_data_def client_ok_def handshaking_def hm.ok_insert hm_simps)
next
  case False
  then show ?thesis using assms stream_ok_recv(1) by (simp add: client_ok_def)
qed

text \<open>
  What is printed of the bytes read: a read that is not valid UTF-8 is left out, so a stream of ASCII bytes is
  printed as it is read.
\<close>

definition ascii_stream :: "bytes \<Rightarrow> bool" where
  "ascii_stream S = (\<forall>b \<in> set S. b < 0x80)"

definition printed_of :: "bytes \<Rightarrow> bytes \<Rightarrow> bytes \<Rightarrow> bool" where
  "printed_of S printed read = (subseq printed read \<and> (ascii_stream S \<longrightarrow> printed = read))"

lemma printed_of_prefix:
  assumes "printed_of S printed read" "prefix read S"
  shows "subseq printed S \<and> (ascii_stream S \<longrightarrow> prefix printed S)"
proof -
  have "subseq printed S" using assms subseq_order.order_trans [OF _ prefix_imp_subseq] by (auto simp: printed_of_def)
  then show ?thesis using assms by (auto simp: printed_of_def)
qed

lemma print_received_read:
  "\<exists>s'. print_received sock printed s =
      (if fst (drain_data (sock_key sock) (tcp s)) \<noteq> [] \<and> utf8_valid (fst (drain_data (sock_key sock) (tcp s)))
       then printed @ fst (drain_data (sock_key sock) (tcp s)) else printed, s') \<and>
    (s' = snd (stack_recv sock s) \<or> s' = stack_close sock (snd (stack_recv sock s)))"
  by (simp add: print_received_def stack_recv_def socket_recv_def Let_def case_prod_beta)

lemma print_received_stream:
  assumes ok: "client_ok (sock_key sock) isn S read (tcp s)" and printed: "printed_of S printed read"
  shows "case print_received sock printed s of (printed', s') \<Rightarrow>
    (\<exists>read'. client_ok (sock_key sock) isn S read' (tcp s') \<and> printed_of S printed' read') \<and> our_ip s' = our_ip s"
proof -
  let ?data = "fst (drain_data (sock_key sock) (tcp s))"
  have drained: "client_ok (sock_key sock) isn S (read @ ?data) (tcp (snd (stack_recv sock s)))"
    using client_ok_drain [OF ok] by (simp add: stack_recv_def socket_recv_def case_prod_beta)
  have "set ?data \<subseteq> set S" using set_mono_prefix [OF client_ok_prefix [OF drained]] by simp
  then have "utf8_valid ?data" if "ascii_stream S" using that by (auto simp: ascii_stream_def intro: utf8_ascii)
  then have shown: "printed_of S (if ?data \<noteq> [] \<and> utf8_valid ?data then printed @ ?data else printed) (read @ ?data)"
    using printed by (simp add: printed_of_def list_emb_append_mono subseq_rev_drop_many)
  obtain s' where s': "print_received sock printed s =
      (if ?data \<noteq> [] \<and> utf8_valid ?data then printed @ ?data else printed, s')"
      "s' = snd (stack_recv sock s) \<or> s' = stack_close sock (snd (stack_recv sock s))"
    using print_received_read [of sock printed s] by blast
  moreover have "our_ip (snd (stack_recv sock s)) = our_ip s" by (simp add: stack_recv_def case_prod_beta)
  ultimately have "client_ok (sock_key sock) isn S (read @ ?data) (tcp s')" "our_ip s' = our_ip s"
    using drained by (auto simp: stream.keeps_stack_close)
  then show ?thesis using shown by (auto simp: s'(1) simp del: append_assoc)
qed

lemma read_response_stream:
  assumes "client_ok (sock_key sock) isn S read (tcp s)" "printed_of S printed read"
    and "\<forall>frames \<in> set turns. stream.frames_ok (sock_key sock) isn S (our_ip s) frames"
  shows "\<exists>read'. prefix read' S \<and> printed_of S (fst (read_response sock turns printed s)) read'"
  using assms
proof (induction turns arbitrary: printed read s)
  case Nil
  then show ?case using client_ok_prefix [OF Nil(1)] by (auto simp: read_response.simps [of _ "[]"])
next
  case (Cons frames turns)
  obtain printed' s' where p: "print_received sock printed (snd (poll frames s)) = (printed', s')" by force
  have "client_ok (sock_key sock) isn S read (tcp (snd (poll frames s)))"
    using Cons.prems by (intro stream.keeps_stack_poll) simp_all
  from print_received_stream [OF this Cons.prems(2)] p obtain read' where
    r: "client_ok (sock_key sock) isn S read' (tcp s')" "printed_of S printed' read'" "our_ip s' = our_ip s" by auto
  have "\<exists>read'. prefix read' S \<and> printed_of S (fst (read_response sock turns printed' s')) read'"
    using Cons.IH [OF r(1,2)] Cons.prems(3) r(3) by simp
  then show ?case
    using client_ok_prefix [OF Cons.prems(1)] Cons.prems(2) p
    by (auto simp: read_response.simps [of _ "_ # _"] case_prod_beta split: sum.split)
qed

lemma wait_established_stream:
  assumes "client_ok key isn S [] (tcp s)" "\<forall>frames \<in> set turns. stream.frames_ok key isn S (our_ip s) frames"
    and "wait_established sock turns s = Finished (s', turns')"
  shows "client_ok key isn S [] (tcp s') \<and> our_ip s' = our_ip s \<and> set turns' \<subseteq> set turns"
  using assms
proof (induction turns arbitrary: s)
  case Nil
  then show ?case by (simp add: wait_established.simps [of _ "[]"] split: if_splits)
next
  case (Cons frames turns)
  have "client_ok key isn S [] (tcp (snd (poll frames s)))"
    using Cons.prems by (intro stream.keeps_stack_poll) simp_all
  then show ?case
    using Cons.IH [of "snd (poll frames s)"] Cons.prems
    by (auto simp: wait_established.simps [of _ "_ # _"] case_prod_beta split: if_splits sum.splits)
qed

lemma client_ok_connect:
  assumes "hm_ok (connections (tcp s))" "short_stream S" "key = (our_ip s, next_ephemeral (tcp s), rip, rport)"
    and "hm_get (connections (tcp s)) key = None"
  obtains s' where "stack_connect nanos rip rport s = (Some \<lparr>sock_key = key\<rparr>, s')"
    "client_ok key isn S [] (tcp s')" "our_ip s' = our_ip s"
proof -
  let ?m = "snd (socket_connect nanos (our_ip s) rip rport (st_now s) (tcp s))"
  have "client_ok key isn S [] ?m"
    using assms by (simp add: socket_connect_def initiate_connect_def Let_def client_ok_def handshaking_def hm.ok_insert hm_simps new_server_def)
  moreover have "fst (fst (socket_connect nanos (our_ip s) rip rport (st_now s) (tcp s))) = Some \<lparr>sock_key = key\<rparr>"
    using assms by (simp add: socket_connect_def initiate_connect_def Let_def)
  ultimately show thesis
    using that [of "snd (stack_connect nanos rip rport s)"]
    by (simp add: stack_connect_def Let_def case_prod_beta stream.keeps_send_segments)
qed

text \<open>
  What the client prints, from the connect to the last turn: for every schedule of frames in which what arrives for the
  connection is the SYN+ACK of the server or pieces of the stream (in any order, repeated, overlapping), lost or answered by
  whatever the stack sends, the program prints no byte twice, none out of order and none that the server did not send; and
  when the stream is ASCII, it leaves none out.
\<close>

theorem client_run_prints_prefix:
  assumes "hm_ok (connections (tcp s))" "key = (our_ip s, next_ephemeral (tcp s), rip, rport)"
    and "hm_get (connections (tcp s)) key = None" "short_stream S"
    and "\<forall>frames \<in> set turns. stream.frames_ok key isn S (our_ip s) frames"
  shows "subseq (fst (run_client nanos turns rip rport extra_data s)) S \<and>
    (ascii_stream S \<longrightarrow> prefix (fst (run_client nanos turns rip rport extra_data s)) S)"
proof -
  obtain s1 where s1: "stack_connect nanos rip rport s = (Some \<lparr>sock_key = key\<rparr>, s1)"
    "client_ok key isn S [] (tcp s1)" "our_ip s1 = our_ip s"
    using client_ok_connect [OF assms(1,4,2,3)] by blast
  let ?sock = "\<lparr>sock_key = key\<rparr>"
  have nil: "printed_of S [] []" by (simp add: printed_of_def)
  show ?thesis
  proof (cases "wait_established ?sock turns s1")
    case (Finished r)
    obtain s2 turns' where r: "r = (s2, turns')" by force
    let ?s3 = "snd (stack_send ?sock (client_request rip extra_data) s2)"
    have s2: "client_ok key isn S [] (tcp s2)" "our_ip s2 = our_ip s" "set turns' \<subseteq> set turns"
      using wait_established_stream [OF s1(2)] assms(5) s1(3) Finished r by auto
    then have "\<exists>read. prefix read S \<and> printed_of S (fst (read_response ?sock turns' [] ?s3)) read"
      using assms(5) by (intro read_response_stream [OF _ nil]) (auto intro: stream.keeps_stack_send)
    then show ?thesis using printed_of_prefix by (auto simp: run_client_def s1(1) Finished r case_prod_beta)
  qed (simp_all add: run_client_def s1(1))
qed

text \<open>A server that answers the SYN, sends two pieces out of order and closes.\<close>

definition server_frame :: "u8 \<Rightarrow> u32 \<Rightarrow> bytes \<Rightarrow> read_result" where
  "server_frame flags seq p =
     Frame (segment_frame (2, 0, 0, 0, 0, 1) (2, 0, 0, 0, 0, 9) (10, 0, 0, 1) (10, 0, 0, 2) 80
       \<lparr>seg_flags = flags, seg_seq = seq, seg_ack = 8, seg_payload = p, seg_dst_port = 40000\<rparr>)"

definition server_turns :: "read_result list list" where
  "server_turns =
     [[server_frame (TCP_SYN OR TCP_ACK) 99 []],
      [server_frame TCP_ACK 102 (ascii ''!''), server_frame TCP_ACK 100 (ascii ''OK'')],
      [server_frame (TCP_FIN OR TCP_ACK) 102 (ascii ''!'')]]"

definition server_key :: ConnKey where
  "server_key = ((10, 0, 0, 2), 40000, (10, 0, 0, 1), 80)"

lemma server_frame_ok:
  assumes "length p \<le> 131042" "server_segment isn S
    (received_header (10, 0, 0, 1) (10, 0, 0, 2) 80 \<lparr>seg_flags = flags, seg_seq = seq, seg_ack = 8, seg_payload = p, seg_dst_port = 40000\<rparr>) p"
    "stream.frames_ok server_key isn S (10, 0, 0, 2) rs"
  shows "stream.frames_ok server_key isn S (10, 0, 0, 2) (server_frame flags seq p # rs)"
  using assms build_tcp_segment_verifies [OF assms(1)]
  by (simp add: stream.frames_ok_def stream.frame_ok_def server_frame_def segment_frame_def parse_build_frame ETH_TYPE_IPV4_def
      parse_build_ipv4 ipv4_header_of_def parse_build_tcp_segment received_header_def header_of_def const_defs)

theorem client_run_prints_prefix_witness:
  "prefix (fst (run_client 7 server_turns (10, 0, 0, 1) 80 None (stack_new (2, 0, 0, 0, 0, 1) (10, 0, 0, 2) id))) (ascii ''OK!'')"
proof -
  let ?s = "stack_new (2, 0, 0, 0, 0, 1) (10, 0, 0, 2) id"
  have s: "hm_ok (connections (tcp ?s))" "server_key = (our_ip ?s, next_ephemeral (tcp ?s), (10, 0, 0, 1), 80)"
    "hm_get (connections (tcp ?s)) server_key = None" "our_ip ?s = (10, 0, 0, 2)"
    using first_port by (simp_all add: stack_new_def manager_new_def hm.ok_empty hm.get_empty server_key_def)
  have nil: "stream.frames_ok server_key isn S lip []" for isn S lip by (simp add: stream.frames_ok_def)
  have "\<forall>frames \<in> set server_turns. stream.frames_ok server_key 99 (ascii ''OK!'') (our_ip ?s) frames"
    unfolding s(4) server_turns_def list.set ball_simps
    by (intro conjI TrueI server_frame_ok nil)
      (simp_all add: server_segment_def stream_segment_def has_flag_def const_defs ascii_def)
  moreover have "ascii_stream (ascii ''OK!'')" unfolding ascii_stream_def by code_simp
  ultimately show ?thesis
    using client_run_prints_prefix [OF s(1-3), of "ascii ''OK!''" server_turns] by (simp add: ascii_def)
qed

text \<open>
  When a read ends inside a character of more than one byte, the whole read is dropped: it is not valid UTF-8, so it is not
  printed, and it is gone from the buffer.
\<close>

lemma split_character_dropped:
  assumes "hm_get (connections (tcp s)) (sock_key sock) = Some t" "\<not> utf8_valid (recv_buffer t)" "tcb_state t = Established"
  shows "fst (print_received sock printed s) = printed \<and>
    fst (stack_recv sock (snd (print_received sock printed s))) = []"
  using assms
  by (auto simp: print_received_def stack_recv_def socket_recv_def drain_data_def stack_state_def Let_def hm_simps)

end
