(* ===== verification/Stack_Client_Run.thy ===== *)
theory Stack_Client_Run
  imports Stack_Client_Correct
begin

text \<open>
  A session of the client to its end: with a server that answers the SYN, sends its response in order and closes,
  the client prints the whole response and ends.  Time is as short as the first timeout, so no timer of a connection
  runs out; the other connections of the table do what they like.
\<close>

section \<open>Blocks between segments\<close>

definition timely :: "instant \<Rightarrow> TcpStack \<Rightarrow> bool" where
  "timely t0 s =
     (t0 \<le> st_now s \<and> st_now s < t0 + INITIAL_RTO \<and> (\<forall>i. t0 \<le> clock s i \<and> clock s i < t0 + INITIAL_RTO))"

text \<open>The timer of the block runs out after the time considered.\<close>

definition unhurried :: "instant \<Rightarrow> Tcb \<Rightarrow> bool" where
  "unhurried t0 t = (rto t = INITIAL_RTO \<and> (\<forall>d. retransmit_at t = Some d \<longrightarrow> t0 + INITIAL_RTO \<le> d))"

definition block_is :: "ConnKey \<Rightarrow> instant \<Rightarrow> (Tcb \<Rightarrow> bool) \<Rightarrow> TcpManager \<Rightarrow> bool" where
  "block_is key t0 P m =
     (hm_ok (connections m) \<and>
      (case hm_get (connections m) key of None \<Rightarrow> False | Some t \<Rightarrow> P t \<and> unhurried t0 t))"

text \<open>What the timers do not change.\<close>

definition calm :: "(Tcb \<Rightarrow> bool) \<Rightarrow> bool" where
  "calm P = ((\<forall>t r. P (t\<lparr>retransmit_at := r\<rparr>) = P t) \<and> (\<forall>t. P t \<longrightarrow> tcb_state t \<noteq> Closed \<and> tcb_state t \<noteq> TimeWait))"

lemma block_isE:
  assumes "block_is key t0 P m"
  obtains t where "hm_ok (connections m)" "hm_get (connections m) key = Some t" "P t" "unhurried t0 t"
  using assms by (auto simp: block_is_def split: option.splits)

lemma block_is_insert:
  "hm_ok (connections m) \<Longrightarrow> Q t \<Longrightarrow> unhurried t0 t \<Longrightarrow> block_is key t0 Q (m\<lparr>connections := hm_insert key t (connections m)\<rparr>)"
  by (simp add: block_is_def hm.ok_insert hm_simps)

lemma block_is_record_sent:
  assumes "block_is key t0 P m" "calm P" "t0 \<le> now"
  shows "block_is key t0 P (record_sent k now m)"
  using assms by (auto simp: block_is_def record_sent_def calm_def unhurried_def hm.ok_insert hm_simps split: option.splits)

lemma block_is_retransmit:
  assumes "block_is key t0 P m" "calm P" "now < t0 + INITIAL_RTO"
  shows "block_is key t0 P (snd (poll_retransmit now m))"
proof -
  obtain t where t: "hm_ok (connections m)" "hm_get (connections m) key = Some t" "P t" "unhurried t0 t"
    using assms(1) by (rule block_isE)
  have "snd (retransmit_one now t) = t"
    using t(4) assms(3) by (auto simp: retransmit_one_def unhurried_def split: option.split)
  moreover have "keep_connection now t" using t(3) assms(2) by (simp add: calm_def keep_connection_def)
  ultimately show ?thesis using t by (simp add: block_is_def poll_retransmit_def hm_get_retain)
qed

section \<open>The stack around a block\<close>

definition stage :: "ConnKey \<Rightarrow> instant \<Rightarrow> (Tcb \<Rightarrow> bool) \<Rightarrow> TcpStack \<Rightarrow> bool" where
  "stage key t0 P s = (timely t0 s \<and> block_is key t0 P (tcp s))"

lemma stageI: "timely t0 s \<Longrightarrow> block_is key t0 P (tcp s) \<Longrightarrow> stage key t0 P s"
  by (simp add: stage_def)

lemma stage_tcp: "timely t0 s \<Longrightarrow> block_is key t0 P m \<Longrightarrow> stage key t0 P (s\<lparr>tcp := m\<rparr>)"
  by (simp add: stage_def timely_def)

lemma timely_same: "st_now s' = st_now s \<Longrightarrow> clock s' = clock s \<Longrightarrow> timely t0 s' = timely t0 s"
  by (simp add: timely_def)

lemma stage_send_frame: "stage key t0 P s \<Longrightarrow> calm P \<Longrightarrow> stage key t0 P (send_frame ip pkt k s)"
  using timely_same [of "send_frame ip pkt k s" s]
  by (auto simp: stage_def tcp_send_frame timely_def block_is_record_sent split: option.split)

lemma stage_fold: "(\<And>x s. stage key t0 P s \<Longrightarrow> stage key t0 P (f x s)) \<Longrightarrow> stage key t0 P s \<Longrightarrow> stage key t0 P (fold f xs s)"
  by (induction xs arbitrary: s) auto

lemma stage_send_segments: "stage key t0 P s \<Longrightarrow> calm P \<Longrightarrow> stage key t0 P (send_segments_with_key segs k ip s)"
  unfolding send_segments_with_key_def by (rule stage_fold) (simp_all add: send_segment_def Let_def stage_send_frame)

lemma stage_arp_tick: "stage key t0 P s \<Longrightarrow> stage key t0 P (stack_arp_tick s)"
  unfolding stack_arp_tick_def Let_def case_prod_beta
  by (rule stage_fold) (simp_all add: stage_def timely_def arp_retry_def Let_def)

lemma stage_tcp_retransmit: "stage key t0 P s \<Longrightarrow> calm P \<Longrightarrow> stage key t0 P (tcp_retransmit s)"
  unfolding tcp_retransmit_def Let_def case_prod_beta
  by (rule stage_fold) (simp_all add: send_retransmit_def case_prod_beta Let_def stage_send_frame,
    simp add: stage_def timely_def block_is_retransmit)

lemma stage_poll_parts:
  assumes "stage key t0 P s" "calm P"
  obtains s' where "stage key t0 P s'" "our_ip s' = our_ip s" "\<And>results. poll results s = read_loop results s'"
proof
  let ?s = "s\<lparr>reads := reads s + 1, st_now := clock s (reads s)\<rparr>"
  have "stage key t0 P ?s" using assms(1) by (simp add: stage_def timely_def)
  then show "stage key t0 P (tcp_retransmit (stack_arp_tick ?s))"
    using assms(2) by (simp add: stage_arp_tick stage_tcp_retransmit)
  show "our_ip (tcp_retransmit (stack_arp_tick ?s)) = our_ip s" by simp
  show "poll results s = read_loop results (tcp_retransmit (stack_arp_tick ?s))" for results
    by (simp add: poll_def Let_def case_prod_beta)
qed

text \<open>A segment for the block takes it from one stage to the next.\<close>

lemma stage_dispatch:
  assumes "stage key t0 P s" "key = (our_ip s, seg_dst_port seg, src, sport)" "length (seg_payload seg) \<le> 131042" "calm Q"
    and "\<And>t now. P t \<Longrightarrow> unhurried t0 t \<Longrightarrow>
      Q (snd (process_existing_tcb t (received_header src dst sport seg) (seg_payload seg) now)) \<and>
      unhurried t0 (snd (process_existing_tcb t (received_header src dst sport seg) (seg_payload seg) now))"
  shows "stage key t0 Q (dispatch (segment_frame d src_mac src dst sport seg) s)"
proof -
  let ?h = "received_header src dst sport seg"
  obtain t where t: "hm_ok (connections (tcp s))" "hm_get (connections (tcp s)) key = Some t" "P t" "unhurried t0 t"
    using assms(1) by (auto simp: stage_def elim: block_isE)
  obtain segs t' where r: "process_existing_tcb t ?h (seg_payload seg) (st_now s) = (segs, t')" by force
  have "process (our_ip s) src ?h (seg_payload seg) (st_now s) (tcp s) =
      ((Some key, segs), (tcp s)\<lparr>connections := hm_insert key t' (connections (tcp s))\<rparr>)"
    using process_hit [OF _ r, of "tcp s" "our_ip s" src] t(2) assms(2) by simp
  moreover have "block_is key t0 Q ((tcp s)\<lparr>connections := hm_insert key t' (connections (tcp s))\<rparr>)"
    using assms(5) [OF t(3,4), of "st_now s"] r t(1) by (simp add: block_is_insert)
  then have "stage key t0 Q (s\<lparr>reads := reads s + 1, arp := arp_learn (clock s (reads s)) src src_mac (arp s),
      tcp := (tcp s)\<lparr>connections := hm_insert key t' (connections (tcp s))\<rparr>\<rparr>)"
    using assms(1) by (simp add: stage_def timely_def)
  ultimately show ?thesis
    unfolding dispatch_segment_frame [OF assms(3)] Let_def by (simp add: stage_send_segments [OF _ assms(4)])
qed

section \<open>The stages of a session\<close>

definition connecting :: "u32 \<Rightarrow> Tcb \<Rightarrow> bool" where
  "connecting isn0 t = (tcb_state t = SynSent \<and> snd_nxt t = isn0 + 1 \<and> recv_buffer t = [])"

definition receiving :: "u32 \<Rightarrow> bytes \<Rightarrow> Tcb \<Rightarrow> bool" where
  "receiving n buf t = (tcb_state t = Established \<and> rcv_nxt t = n \<and> recv_buffer t = buf)"

definition peer_closed :: "Tcb \<Rightarrow> bool" where
  "peer_closed t = (tcb_state t = CloseWait \<and> recv_buffer t = [])"

definition closing :: "Tcb \<Rightarrow> bool" where
  "closing t = (tcb_state t = LastAck \<and> recv_buffer t = [])"

lemma calm_stages: "calm (connecting isn0)" "calm (receiving n buf)" "calm peer_closed" "calm closing"
  by (auto simp: calm_def connecting_def receiving_def peer_closed_def closing_def)

lemma syn_ack_step:
  assumes "connecting isn0 t" "unhurried t0 t" "hdr_flags h = TCP_SYN OR TCP_ACK" "hdr_ack h = isn0 + 1" "hdr_seq h = n"
  shows "receiving (n + 1) [] (snd (process_existing_tcb t h p now)) \<and>
    unhurried t0 (snd (process_existing_tcb t h p now))"
  using assms by (simp add: process_existing_tcb_def on_SynSent_def Let_def connecting_def receiving_def unhurried_def)

lemma established_ack_keeps:
  "receiving n buf t \<Longrightarrow> receiving n buf (established_ack h t)"
  "unhurried t0 t \<Longrightarrow> unhurried t0 (established_ack h t)"
  by (auto simp: established_ack_eq receiving_def unhurried_def)

lemma data_step:
  assumes "receiving n [] t" "unhurried t0 t" "hdr_flags h = TCP_ACK" "hdr_seq h = n" "length p \<le> 131042"
  shows "receiving (n + of_nat (length p)) p (snd (process_existing_tcb t h p now)) \<and>
    unhurried t0 (snd (process_existing_tcb t h p now))"
proof -
  have flags: "\<not> has_flag h TCP_SYN" "\<not> has_flag h TCP_FIN" using assms(3) by (simp_all add: has_flag_def const_defs)
  have "(0 :: u32) < of_nat (length p) \<longleftrightarrow> 0 < length p" using assms(5) by (intro of_nat_u32_pos) simp
  moreover have "tcb_state t = Established" using assms(1) by (simp add: receiving_def)
  ultimately show ?thesis
    using established_ack_keeps(1) [OF assms(1), of h] established_ack_keeps(2) [OF assms(2), of h] flags assms(4)
    by (cases "p = []")
      (simp_all add: process_existing_tcb_def on_Established_def established_data_def Let_def receiving_def unhurried_def)
qed

lemma fin_step:
  assumes "receiving n [] t" "unhurried t0 t" "hdr_flags h = TCP_FIN OR TCP_ACK" "hdr_seq h = n"
  shows "peer_closed (snd (process_existing_tcb t h [] now)) \<and> unhurried t0 (snd (process_existing_tcb t h [] now))"
proof -
  have flags: "\<not> has_flag h TCP_SYN" "has_flag h TCP_FIN" using assms(3) by (simp_all add: has_flag_def const_defs)
  have "tcb_state t = Established" using assms(1) by (simp add: receiving_def)
  then show ?thesis
    using established_ack_keeps(1) [OF assms(1), of h] established_ack_keeps(2) [OF assms(2), of h] flags assms(4)
    by (simp add: process_existing_tcb_def on_Established_def established_data_def Let_def receiving_def peer_closed_def unhurried_def)
qed

section \<open>The turns of the client\<close>

lemma stage_recv:
  assumes "stage (sock_key sock) t0 P s" "\<And>t. P t \<Longrightarrow> recv_buffer t = buf \<and> Q (t\<lparr>recv_buffer := []\<rparr>)"
  shows "fst (stack_recv sock s) = buf" "stage (sock_key sock) t0 Q (snd (stack_recv sock s))"
proof -
  obtain t where t: "hm_ok (connections (tcp s))" "hm_get (connections (tcp s)) (sock_key sock) = Some t" "P t" "unhurried t0 t"
    using assms(1) by (auto simp: stage_def elim: block_isE)
  show "fst (stack_recv sock s) = buf" using t(2) assms(2) [OF t(3)] by (simp add: stack_recv_def socket_recv_def drain_data_def)
  have "unhurried t0 (t\<lparr>recv_buffer := []\<rparr>)" using t(4) by (simp add: unhurried_def)
  then show "stage (sock_key sock) t0 Q (snd (stack_recv sock s))"
    using t assms(1) assms(2) [OF t(3)]
    by (simp add: stack_recv_def socket_recv_def drain_data_def stage_def timely_def block_is_insert)
qed

lemma stage_state:
  assumes "stage (sock_key sock) t0 P s" "\<And>t. P t \<Longrightarrow> tcb_state t = st"
  shows "stack_state sock s = Some st"
  using assms by (auto simp: stage_def stack_state_def elim!: block_isE)

lemma print_piece:
  assumes "stage (sock_key sock) t0 (receiving n buf) s"
  obtains s' where "print_received sock printed s = (printed @ (if utf8_valid buf then buf else []), s')" "stage (sock_key sock) t0 (receiving n []) s'" "our_ip s' = our_ip s"
proof
  let ?s = "snd (stack_recv sock s)"
  have r: "fst (stack_recv sock s) = buf" "stage (sock_key sock) t0 (receiving n []) ?s"
    using stage_recv [OF assms, of buf "receiving n []"] by (simp_all add: receiving_def)
  have "stack_state sock ?s = Some Established" by (rule stage_state [OF r(2)]) (simp add: receiving_def)
  then show "print_received sock printed s = (printed @ (if utf8_valid buf then buf else []), ?s)"
    using r(1) by (simp add: print_received_def Let_def case_prod_beta)
  show "stage (sock_key sock) t0 (receiving n []) ?s" by (rule r(2))
  show "our_ip ?s = our_ip s" by simp
qed

lemma print_and_close:
  assumes "stage (sock_key sock) t0 peer_closed s"
  obtains s' where "print_received sock printed s = (printed, s')" "stage (sock_key sock) t0 closing s'" "our_ip s' = our_ip s"
proof -
  let ?s = "snd (stack_recv sock s)"
  have r: "fst (stack_recv sock s) = []" "stage (sock_key sock) t0 peer_closed ?s"
    using stage_recv [OF assms, of "[]" peer_closed] by (simp_all add: peer_closed_def)
  have "stack_state sock ?s = Some CloseWait" by (rule stage_state [OF r(2)]) (simp add: peer_closed_def)
  then have p: "print_received sock printed s = (printed, stack_close sock ?s)"
    using r(1) by (simp add: print_received_def Let_def case_prod_beta)
  obtain t where t: "hm_ok (connections (tcp ?s))" "hm_get (connections (tcp ?s)) (sock_key sock) = Some t" "peer_closed t" "unhurried t0 t"
    using r(2) by (auto simp: stage_def elim: block_isE)
  let ?t = "t\<lparr>tcb_state := LastAck, snd_nxt := snd_nxt t + 1, retransmit_at := Some (st_now ?s + rto t)\<rparr>"
  have "closing ?t" "unhurried t0 ?t"
    using t(3,4) r(2) by (simp_all add: closing_def peer_closed_def unhurried_def stage_def timely_def)
  then have "stage (sock_key sock) t0 closing (?s\<lparr>tcp := (tcp ?s)\<lparr>connections := hm_insert (sock_key sock) ?t (connections (tcp ?s))\<rparr>\<rparr>)"
    using r(2) t(1) by (simp add: stage_def timely_def block_is_insert)
  moreover have "snd (socket_close sock (st_now ?s) (tcp ?s)) = (tcp ?s)\<lparr>connections := hm_insert (sock_key sock) ?t (connections (tcp ?s))\<rparr>"
    using t(2,3) by (simp add: socket_close_def close_conn_def close_def close_tcb_def peer_closed_def)
  ultimately have "stage (sock_key sock) t0 closing (stack_close sock ?s)"
    by (simp add: stack_close_def Let_def case_prod_beta stage_send_segments calm_stages)
  then show thesis using that p by simp
qed

text \<open>A turn in which one segment arrives for the block.\<close>

lemma poll_segment:
  assumes "stage key t0 P s" "calm P" "key = (our_ip s, seg_dst_port seg, src, sport)" "length (seg_payload seg) \<le> 131042" "calm Q"
    and "\<And>t now. P t \<Longrightarrow> unhurried t0 t \<Longrightarrow>
      Q (snd (process_existing_tcb t (received_header src dst sport seg) (seg_payload seg) now)) \<and>
      unhurried t0 (snd (process_existing_tcb t (received_header src dst sport seg) (seg_payload seg) now))"
  obtains s' where "poll [Frame (segment_frame d src_mac src dst sport seg)] s = (Inr (), s')" "stage key t0 Q s'" "our_ip s' = our_ip s"
proof -
  obtain s1 where s1: "stage key t0 P s1" "our_ip s1 = our_ip s" "\<And>results. poll results s = read_loop results s1"
    using stage_poll_parts [OF assms(1,2)] by blast
  have "stage key t0 Q (dispatch (segment_frame d src_mac src dst sport seg) s1)"
    using assms(3-6) s1(2) by (intro stage_dispatch [OF s1(1)]) simp_all
  then show thesis using that s1 by simp
qed

lemma poll_last_ack:
  assumes "stage key t0 closing s" "key = (our_ip s, seg_dst_port seg, src, sport)" "length (seg_payload seg) \<le> 131042"
    and "seg_flags seg = TCP_ACK"
  obtains s' t where "poll [Frame (segment_frame d src_mac src dst sport seg)] s = (Inr (), s')"
    "hm_get (connections (tcp s')) key = Some t" "tcb_state t = Closed" "recv_buffer t = []"
proof -
  let ?h = "received_header src dst sport seg"
  obtain s1 where s1: "stage key t0 closing s1" "our_ip s1 = our_ip s" "\<And>results. poll results s = read_loop results s1"
    using stage_poll_parts [OF assms(1) calm_stages(4)] by blast
  obtain t where t: "hm_get (connections (tcp s1)) key = Some t" "closing t"
    using s1(1) by (auto simp: stage_def elim: block_isE)
  have "process_existing_tcb t ?h (seg_payload seg) (st_now s1) = ([], t\<lparr>tcb_state := Closed, retransmit_at := None\<rparr>)"
    using t(2) assms(4) by (simp add: process_existing_tcb_def on_LastAck_def closing_def has_flag_def const_defs)
  from process_hit [OF _ this, of "tcp s1" "our_ip s1" src] t(1) assms(2) s1(2)
  have "process (our_ip s1) src ?h (seg_payload seg) (st_now s1) (tcp s1) =
      ((Some key, []), (tcp s1)\<lparr>connections := hm_insert key (t\<lparr>tcb_state := Closed, retransmit_at := None\<rparr>) (connections (tcp s1))\<rparr>)"
    by simp
  then have "hm_get (connections (tcp (dispatch (segment_frame d src_mac src dst sport seg) s1))) key =
      Some (t\<lparr>tcb_state := Closed, retransmit_at := None\<rparr>)"
    by (simp add: dispatch_segment_frame [OF assms(3)] Let_def send_segments_with_key_def hm_simps)
  then show thesis using that s1(3) t(2) by (simp add: closing_def)
qed

section \<open>The session\<close>

text \<open>
  The turns of a server: \<open>segment flags number ack payload\<close> is the frame with a segment.  Each piece of the response comes
  with an acknowledgement number, whatever it is.
\<close>

fun data_turns :: "(u8 \<Rightarrow> u32 \<Rightarrow> u32 \<Rightarrow> bytes \<Rightarrow> bytes) \<Rightarrow> u32 \<Rightarrow> (u32 \<times> bytes) list \<Rightarrow> read_result list list" where
  "data_turns segment n [] = []"
| "data_turns segment n ((ack, p) # ps) = [Frame (segment TCP_ACK n ack p)] # data_turns segment (n + of_nat (length p)) ps"

definition session_turns ::
  "(u8 \<Rightarrow> u32 \<Rightarrow> u32 \<Rightarrow> bytes \<Rightarrow> bytes) \<Rightarrow> u32 \<Rightarrow> u32 \<Rightarrow> (u32 \<times> bytes) list \<Rightarrow> u32 \<Rightarrow> read_result list list" where
  "session_turns segment isn ack0 pieces ack1 =
     (let fin = isn + 1 + of_nat (length (concat (map snd pieces)))
      in [Frame (segment (TCP_SYN OR TCP_ACK) isn ack0 [])] # data_turns segment (isn + 1) pieces @
         [[Frame (segment (TCP_FIN OR TCP_ACK) fin ack1 [])], [Frame (segment TCP_ACK (fin + 1) (ack1 + 1) [])]])"

definition segment_from :: "mac \<Rightarrow> mac \<Rightarrow> ip4 \<Rightarrow> ip4 \<Rightarrow> u16 \<Rightarrow> u16 \<Rightarrow> u8 \<Rightarrow> u32 \<Rightarrow> u32 \<Rightarrow> bytes \<Rightarrow> bytes" where
  "segment_from d src_mac src dst sport dport flags n ack p =
     segment_frame d src_mac src dst sport
       \<lparr>seg_flags = flags, seg_seq = n, seg_ack = ack, seg_payload = p, seg_dst_port = dport\<rparr>"

lemma read_pieces:
  assumes "stage (sock_key sock) t0 (receiving n []) s" "sock_key sock = (our_ip s, dport, src, sport)"
    and "\<forall>(ack, p) \<in> set pieces. length p \<le> 131042"
  shows "\<exists>s'. read_response sock (data_turns (segment_from d src_mac src dst sport dport) n pieces @ rest) printed s =
      read_response sock rest (printed @ concat (filter utf8_valid (map snd pieces))) s' \<and>
    stage (sock_key sock) t0 (receiving (n + of_nat (length (concat (map snd pieces)))) []) s' \<and> our_ip s' = our_ip s"
  using assms
proof (induction pieces arbitrary: n printed s)
  case Nil
  then show ?case by (intro exI [of _ s]) simp
next
  case (Cons a pieces)
  obtain ack p where a: "a = (ack, p)" by force
  let ?shown = "if utf8_valid p then p else []"
  have p: "length p \<le> 131042" using Cons.prems(3) a by auto
  have open_: "\<not> is_closed sock s"
    using stage_state [OF Cons.prems(1), of Established] by (simp add: is_closed_def receiving_def)
  obtain s1 where s1: "poll [Frame (segment_from d src_mac src dst sport dport TCP_ACK n ack p)] s = (Inr (), s1)"
    "stage (sock_key sock) t0 (receiving (n + of_nat (length p)) p) s1" "our_ip s1 = our_ip s"
    unfolding segment_from_def
    by (rule poll_segment [where Q = "receiving (n + of_nat (length p)) p", OF Cons.prems(1) calm_stages(2) _ _ calm_stages(2)])
      (use Cons.prems(2) p data_step in auto)
  obtain s2 where s2: "print_received sock printed s1 = (printed @ ?shown, s2)"
    "stage (sock_key sock) t0 (receiving (n + of_nat (length p)) []) s2" "our_ip s2 = our_ip s1"
    using print_piece [OF s1(2)] by blast
  have "\<exists>s'. read_response sock (data_turns (segment_from d src_mac src dst sport dport) (n + of_nat (length p)) pieces @ rest) (printed @ ?shown) s2 =
      read_response sock rest ((printed @ ?shown) @ concat (filter utf8_valid (map snd pieces))) s' \<and>
    stage (sock_key sock) t0 (receiving (n + of_nat (length p) + of_nat (length (concat (map snd pieces)))) []) s' \<and> our_ip s' = our_ip s2"
    using Cons.prems(2,3) s1(3) s2(3) by (intro Cons.IH [OF s2(2)]) auto
  then show ?case
    using open_ s1 s2 by (cases "utf8_valid p") (simp_all add: a read_response.simps [of _ "_ # _"] add.assoc)
qed

lemma client_connects:
  assumes "hm_ok (connections (tcp s))" "key = (our_ip s, dport, src, sport)" "dport = next_ephemeral (tcp s)"
    and "hm_get (connections (tcp s)) key = None" "timely t0 s"
  obtains s1 s2 where "stack_connect nanos src sport s = (Some \<lparr>sock_key = key\<rparr>, s1)" "our_ip s2 = our_ip s"
    "wait_established \<lparr>sock_key = key\<rparr>
       ([Frame (segment_from d src_mac src dst sport dport (TCP_SYN OR TCP_ACK) isn (rand_seq nanos + 1) [])] # turns) s1 =
       Finished (s2, turns)"
    "stage key t0 (receiving (isn + 1) []) s2"
proof -
  let ?sock = "\<lparr>sock_key = key\<rparr>" and ?c = "socket_connect nanos (our_ip s) src sport (st_now s) (tcp s)"
  define s1 where "s1 = snd (stack_connect nanos src sport s)"
  have c: "fst (fst ?c) = Some ?sock" "block_is key t0 (connecting (rand_seq nanos)) (snd ?c)"
    using assms by (simp_all add: socket_connect_def initiate_connect_def Let_def new_server_def block_is_insert
        connecting_def unhurried_def timely_def)
  have connect: "stack_connect nanos src sport s = (Some ?sock, s1)" "our_ip s1 = our_ip s"
    using c(1) by (simp_all add: s1_def stack_connect_def Let_def case_prod_beta)
  have syn_sent: "stage key t0 (connecting (rand_seq nanos)) s1"
    using stage_send_segments [OF stage_tcp [OF assms(5) c(2)] calm_stages(1)] by (simp add: s1_def stack_connect_def Let_def case_prod_beta)
  have wait1: "\<not> is_established ?sock s1"
    using stage_state [of ?sock t0 "connecting (rand_seq nanos)" s1 SynSent] syn_sent by (simp add: is_established_def connecting_def)
  obtain s2 where s2: "poll [Frame (segment_from d src_mac src dst sport dport (TCP_SYN OR TCP_ACK) isn (rand_seq nanos + 1) [])] s1 = (Inr (), s2)"
    "stage key t0 (receiving (isn + 1) []) s2" "our_ip s2 = our_ip s1"
    unfolding segment_from_def
    by (rule poll_segment [where Q = "receiving (isn + 1) []", OF syn_sent calm_stages(1) _ _ calm_stages(2)])
      (use assms(2) connect(2) syn_ack_step in auto)
  have "is_established ?sock s2"
    using stage_state [of ?sock t0 "receiving (isn + 1) []" s2 Established] s2(2) by (simp add: is_established_def receiving_def)
  then show thesis
    using that connect s2 wait1 by (simp add: wait_established.simps [of _ "_ # _"] wait_established.simps [of _ _ s2])
qed

lemma client_finishes:
  assumes "stage key t0 (receiving n []) s" "key = (our_ip s, dport, src, sport)"
  shows "\<exists>s'. read_response \<lparr>sock_key = key\<rparr>
    [[Frame (segment_from d src_mac src dst sport dport (TCP_FIN OR TCP_ACK) n ack [])],
     [Frame (segment_from d src_mac src dst sport dport TCP_ACK (n + 1) ack' [])]] printed s = (printed, Finished s')"
proof -
  let ?sock = "\<lparr>sock_key = key\<rparr>"
  obtain s1 where s1: "poll [Frame (segment_from d src_mac src dst sport dport (TCP_FIN OR TCP_ACK) n ack [])] s = (Inr (), s1)"
    "stage key t0 peer_closed s1" "our_ip s1 = our_ip s"
    unfolding segment_from_def
    by (rule poll_segment [where Q = peer_closed, OF assms(1) calm_stages(2) _ _ calm_stages(3)])
      (use assms(2) fin_step in auto)
  obtain s2 where s2: "print_received ?sock printed s1 = (printed, s2)" "stage key t0 closing s2" "our_ip s2 = our_ip s1"
    using print_and_close [of ?sock t0 s1 printed] s1(2) by auto
  obtain s3 t where s3: "poll [Frame (segment_from d src_mac src dst sport dport TCP_ACK (n + 1) ack' [])] s2 = (Inr (), s3)"
    "hm_get (connections (tcp s3)) key = Some t" "tcb_state t = Closed" "recv_buffer t = []"
    unfolding segment_from_def by (rule poll_last_ack [OF s2(2)]) (use assms(2) s1(3) s2(3) in auto)
  have "stack_state ?sock s = Some Established" "stack_state ?sock s2 = Some LastAck"
    using stage_state [of ?sock t0 "receiving n []" s Established] stage_state [of ?sock t0 closing s2 LastAck] assms(1) s2(2)
    by (auto simp: receiving_def closing_def)
  then have open_: "\<not> is_closed ?sock s" "\<not> is_closed ?sock s2" by (simp_all add: is_closed_def)
  obtain s4 where "print_received ?sock printed s3 = (printed, s4)" "is_closed ?sock s4"
    using s3(2-4) by (simp add: print_received_def stack_recv_def socket_recv_def drain_data_def is_closed_def stack_state_def hm_simps Let_def)
  then show ?thesis
    using open_ s1 s2 s3 by (simp add: read_response.simps [of _ "_ # _"] read_response.simps [of _ "[]"])
qed

lemma stage_send:
  assumes "stage (sock_key sock) t0 (receiving n []) s"
  shows "stage (sock_key sock) t0 (receiving n []) (snd (stack_send sock data s))"
proof -
  obtain t where t: "hm_ok (connections (tcp s))" "hm_get (connections (tcp s)) (sock_key sock) = Some t" "receiving n [] t" "unhurried t0 t"
    using assms by (auto simp: stage_def elim: block_isE)
  have "block_is (sock_key sock) t0 (receiving n []) (snd (socket_send sock data (tcp s)))"
    using t by (simp add: socket_send_def Let_def receiving_def unhurried_def block_is_insert)
  moreover have "timely t0 s" using assms by (simp add: stage_def)
  ultimately show ?thesis
    by (simp add: stack_send_def Let_def case_prod_beta stage_send_segments stage_tcp calm_stages)
qed



end
