(* ===== verification/Tap.thy ===== *)
theory Tap
  imports Stack Text_Scan
begin

text \<open>
  \<^verbatim>\<open>TCP-stack/src/tap.rs\<close>: opening the TAP device and reading its MAC address, and \<^verbatim>\<open>mac_str\<close> of
  \<^verbatim>\<open>main.rs\<close>.

  What the kernel does is the record \<open>tap_kernel\<close>: the results of the system calls (an error number on the left), and the
  files under \<^verbatim>\<open>/sys\<close>, as text.  The constant \<^verbatim>\<open>O_NONBLOCK\<close> of the C library is among them.  Numbers in the order of
  the machine are little-endian.
\<close>

section \<open>The code\<close>

definition IFF_TAP :: u16 where [const_defs]: "IFF_TAP = 0x0002"
definition IFF_NO_PI :: u16 where [const_defs]: "IFF_NO_PI = 0x1000"
definition TUNSETIFF :: u32 where "TUNSETIFF = 0x400454CA"

record tap_kernel =
  open_tun :: "nat + nat"
  tun_ioctl :: "nat \<Rightarrow> u32 \<Rightarrow> bytes \<Rightarrow> nat option"
  get_flags :: "nat \<Rightarrow> nat + u32"
  set_flags :: "nat \<Rightarrow> u32 \<Rightarrow> nat option"
  O_NONBLOCK :: u32
  read_to_string :: "bytes \<Rightarrow> bytes option"

record TapDevice =
  tap_fd :: nat
  tap_name :: bytes
  tap_mac :: mac

definition u16_to_ne :: "u16 \<Rightarrow> bytes" where
  "u16_to_ne w = [ucast w, ucast (drop_bit 8 w)]"

text \<open>The request: 16 bytes of name, two of flags, padding.  \<open>None\<close>: the name does not fit and the copy panics.\<close>

definition tap_ifreq :: "bytes \<Rightarrow> bytes option" where
  "tap_ifreq name_bytes =
     (let ifreq = replicate 40 0
      in if length ifreq < length name_bytes then None
         else let ifreq = copy_at 0 name_bytes ifreq;
                  flags = IFF_TAP OR IFF_NO_PI
              in Some (copy_at 16 (u16_to_ne flags) ifreq))"

text \<open>The loop over the parts of the address; \<^verbatim>\<open>?\<close> ends it.\<close>

fun mac_parts :: "bytes list \<Rightarrow> u8 list option" where
  "mac_parts [] = Some []"
| "mac_parts (p # ps) =
     (case parse_radix 16 U8_MAX p of
        None \<Rightarrow> None
      | Some b \<Rightarrow> map_option (\<lambda>mac. of_nat b # mac) (mac_parts ps))"

definition read_mac :: "tap_kernel \<Rightarrow> bytes \<Rightarrow> mac option" where
  "read_mac k name =
     (case read_to_string k (ascii ''/sys/class/net/'' @ name @ ascii ''/address'') of
        None \<Rightarrow> None
      | Some s \<Rightarrow>
          let parts = split_on 58 (trim_ws s)
          in if length parts \<noteq> 6 then None else map_option (mac_at 0) (mac_parts parts))"

datatype tap_open = Opened TapDevice | OpenError nat | OpenPanic

definition open_tap :: "tap_kernel \<Rightarrow> bytes \<Rightarrow> tap_open" where
  "open_tap k name =
     (case open_tun k of
        Inl e \<Rightarrow> OpenError e
      | Inr fd \<Rightarrow>
          (case tap_ifreq name of
             None \<Rightarrow> OpenPanic
           | Some ifreq \<Rightarrow>
               (case tun_ioctl k fd TUNSETIFF ifreq of
                  Some e \<Rightarrow> OpenError e
                | None \<Rightarrow>
                    (case get_flags k fd of
                       Inl e \<Rightarrow> OpenError e
                     | Inr flags \<Rightarrow>
                         (case set_flags k fd (flags OR O_NONBLOCK k) of
                            Some e \<Rightarrow> OpenError e
                          | None \<Rightarrow>
                              (case read_mac k name of
                                 None \<Rightarrow> OpenPanic
                               | Some m \<Rightarrow> Opened \<lparr>tap_fd = fd, tap_name = name, tap_mac = m\<rparr>))))))"

text \<open>\<^verbatim>\<open>TcpStack::new\<close>: the stack takes the address of its device.\<close>

definition open_stack :: "tap_kernel \<Rightarrow> bytes \<Rightarrow> ip4 \<Rightarrow> (nat \<Rightarrow> instant) \<Rightarrow> (nat + TcpStack) option" where
  "open_stack k name ip clk =
     (case open_tap k name of
        OpenPanic \<Rightarrow> None
      | OpenError e \<Rightarrow> Some (Inl e)
      | Opened tap \<Rightarrow> Some (Inr (stack_new (tap_mac tap) ip clk)))"

text \<open>\<^verbatim>\<open>{:02x}\<close>\<close>

definition show_hex02 :: "u8 \<Rightarrow> bytes" where
  "show_hex02 b = replicate (2 - length (show_hex (unat b))) 48 @ show_hex (unat b)"

fun mac_str :: "mac \<Rightarrow> bytes" where
  "mac_str (a, b, c, d, e, f) =
     show_hex02 a @ [58] @ show_hex02 b @ [58] @ show_hex02 c @ [58] @
     show_hex02 d @ [58] @ show_hex02 e @ [58] @ show_hex02 f"

section \<open>The address\<close>

lemma show_hex02_digits: "show_hex02 b = [digit_char (unat b div 16), digit_char (unat b mod 16)]"
proof -
  have "digit_char 0 = 48" by (simp add: digit_char_def)
  moreover have "unat b div 16 < 16" using unat_u8_less [of b] by simp
  ultimately show ?thesis
    by (auto simp: show_hex02_def show_hex_def show_radix.simps [of 16 "unat b"] show_radix.simps [of 16 "unat b div 16"])
qed

lemma show_hex02_chars: "x \<in> set (show_hex02 b) \<Longrightarrow> in_range 48 57 x \<or> in_range 97 102 x"
  using digit_char_ranges [of "unat b div 16"] digit_char_ranges [of "unat b mod 16"] unat_u8_less [of b]
  by (auto simp: show_hex02_digits)

lemma parse_hex02: "parse_radix 16 U8_MAX (show_hex02 b) = Some (unat b)"
proof -
  have "digit_char (unat b div 16) \<noteq> 43"
    using show_hex02_chars [of "digit_char (unat b div 16)" b] by (auto simp: show_hex02_digits in_range_def word_le_nat_alt)
  then show ?thesis
    using unat_u8_less [of b] by (simp add: parse_radix_def show_hex02_digits digit_value_char Let_def)
qed

lemma no_colon: "58 \<notin> set (show_hex02 b)"
  using show_hex02_chars [of 58 b] by (auto simp: in_range_def)

lemma split_mac_str: "split_on 58 (mac_str (a, b, c, d, e, f)) = map show_hex02 [a, b, c, d, e, f]"
  by (simp add: split_on_sep split_on_no_sep no_colon)

lemma trim_line:
  assumes "\<And>b r. b \<in> set s \<Longrightarrow> ws_len (b # r) = 0"
  shows "trim_ws (s @ [10]) = s"
proof -
  have nl: "trim_start_ws [10] = []"
    by (simp add: trim_start_ws.simps [of "[10]"] trim_start_ws.simps [of "[]"] ws_len.simps in_range_def)
  have start: "trim_start_ws (s @ [10]) = s @ [10]" if "s \<noteq> []" "\<forall>b \<in> set s. \<forall>r. ws_len (b # r) = 0" for s
    using that by (cases s) (auto simp: trim_start_none)
  have rest: "trim_end_ws (s @ [10]) = s" if "\<forall>b \<in> set s. \<forall>r. ws_len (b # r) = 0" for s
    using that
  proof (induction s)
    case (Cons a r)
    then show ?case using start [of "a # r"] by simp
  qed (simp add: nl)
  show ?thesis using assms start [of s] rest [of s] by (cases "s = []") (simp_all add: trim_ws_def nl)
qed

lemma trim_mac_line: "trim_ws (mac_str m @ [10]) = mac_str m"
proof (rule trim_line)
  fix x r
  assume "x \<in> set (mac_str m)"
  then have "in_range 48 57 x \<or> in_range 97 102 x \<or> x = 58"
    using show_hex02_chars by (cases m) auto
  moreover have "ws_len (58 # r) = 0" by (simp add: ws_len.simps in_range_def split: list.split)
  ultimately show "ws_len (x # r) = 0" using ws_len_none by blast
qed

lemma tap_flags: "u16_to_ne (IFF_TAP OR IFF_NO_PI) = [0x02, 0x10]"
  by code_simp

lemma mac_at_list: "mac_at 0 [a, b, c, d, e, f] = (a, b, c, d, e, f)"
  by (simp add: mac_at_def)

section \<open>Properties\<close>

text \<open>
  Opening the device.  When the system calls succeed and the name has at most 15 bytes, the kernel is asked for
  a TAP device without packet information under exactly this name, ended by a zero byte; the device is made not to block; and when
  the kernel's file has an address in the form \<^verbatim>\<open>mac_str\<close> prints, ended by a line feed, the stack starts
  with this address.
\<close>

theorem open_stack_address:
  assumes "length name < 16" "open_tun k = Inr fd" "get_flags k fd = Inr flags"
    and "tun_ioctl k fd TUNSETIFF (name @ replicate (16 - length name) 0 @ [0x02, 0x10] @ replicate 22 0) = None"
    and "set_flags k fd (flags OR O_NONBLOCK k) = None"
    and "read_to_string k (ascii ''/sys/class/net/'' @ name @ ascii ''/address'') = Some (mac_str m @ [10])"
  shows "open_stack k name ip clk = Some (Inr (stack_new m ip clk))"
proof -
  have "replicate (40 - length name) (0 :: u8) = replicate (16 - length name) 0 @ replicate 24 0"
    using assms(1) by (simp add: replicate_add [symmetric])
  then have "copy_at 0 name (replicate 40 0) = (name @ replicate (16 - length name) 0) @ replicate 24 0"
    using assms(1) by (simp add: copy_at_def)
  then have "tap_ifreq name = Some (name @ replicate (16 - length name) 0 @ [0x02, 0x10] @ replicate 22 0)"
    using assms(1) copy_at_fill(1) [of "name @ replicate (16 - length name) 0" 16 "[0x02, 0x10]" 24 "0 :: u8"]
    by (simp add: tap_ifreq_def tap_flags Let_def)
  moreover have "read_mac k name = Some m"
    by (cases m) (simp add: read_mac_def assms(6) trim_mac_line split_mac_str parse_hex02 mac_at_list Let_def del: mac_str.simps)
  ultimately show ?thesis
    using assms(2-5) by (simp add: open_stack_def open_tap_def)
qed

definition sample_kernel :: tap_kernel where
  "sample_kernel =
     \<lparr>open_tun = Inr 3, tun_ioctl = (\<lambda>fd rq ifreq. if ifreq ! 15 = 0 \<and> ifreq ! 16 = 2 then None else Some 22),
      get_flags = (\<lambda>_. Inr 2), set_flags = (\<lambda>_ flags. if flags = 0x802 then None else Some 22), O_NONBLOCK = 0x800,
      read_to_string = (\<lambda>path. if path = ascii ''/sys/class/net/tap0/address'' then Some (ascii ''02:00:00:00:0a:ff'' @ [10]) else None)\<rparr>"

theorem open_stack_address_witness:
  "open_stack sample_kernel (ascii ''tap0'') (10, 0, 0, 2) id = Some (Inr (stack_new (2, 0, 0, 0, 10, 255) (10, 0, 0, 2) id))"
proof -
  have "mac_str (2, 0, 0, 0, 10, 255) = ascii ''02:00:00:00:0a:ff''" by code_simp
  then show ?thesis
    by (intro open_stack_address [where fd = 3 and flags = 2]) (simp_all add: sample_kernel_def ascii_def numeral_nat)
qed

text \<open>A name of more than 40 bytes is not refused: the copy into the request panics.\<close>

lemma long_tap_name_panics: "40 < length name \<Longrightarrow> open_tun k = Inr fd \<Longrightarrow> open_tap k name = OpenPanic"
  by (simp add: open_tap_def tap_ifreq_def Let_def)

text \<open>
  A name of 16 bytes or more is not ended by a zero byte, and its bytes from the 16th on are not in the request the kernel reads
  as a name; the file is looked for under the whole name.
\<close>

lemma cut_tap_name:
  "16 \<le> length name \<Longrightarrow> length name \<le> 40 \<Longrightarrow> \<exists>ifreq. tap_ifreq name = Some ifreq \<and> take 18 ifreq = take 16 name @ [0x02, 0x10]"
  by (auto simp: tap_ifreq_def copy_at_def tap_flags Let_def)

end
