(* ===== verification/Dns_Compress.thy ===== *)
theory Dns_Compress
  imports Dns_Message Hash_Map
begin

text \<open>
  \<^verbatim>\<open>encode_name_compressed\<close> of \<^verbatim>\<open>toolkit/dnsresolver/src/message.rs\<close>, which the program keeps for
  later and does not call: names that were written before are to be replaced by a pointer.  Where it records the
  names it writes is right; the pointer is not.
\<close>

section \<open>The code\<close>

definition or_insert :: "'k \<Rightarrow> 'v \<Rightarrow> ('k, 'v) hash_map \<Rightarrow> ('k, 'v) hash_map" where
  "or_insert k v m = (if hm_contains m k then m else hm_insert k v m)"

text \<open>\<^verbatim>\<open>usize::to_be_bytes\<close> on a machine with 64-bit addresses.\<close>

definition usize_to_be :: "nat \<Rightarrow> bytes" where
  "usize_to_be n = map (\<lambda>i. of_nat (n div 256 ^ (7 - i))) [0..<8]"

text \<open>The loop over the suffixes: \<open>byte_off\<close> is where the next label begins.\<close>

fun suffixes_loop :: "nat \<Rightarrow> nat \<Rightarrow> bytes list \<Rightarrow> (bytes, nat) hash_map \<Rightarrow> (bytes, nat) hash_map" where
  "suffixes_loop offset byte_off (label # next # labels) name_map =
     (let byte_off = byte_off + 1 + length label;
          name_map = or_insert (join [46] (next # labels) @ [46]) (offset + byte_off) name_map
      in suffixes_loop offset byte_off (next # labels) name_map)"
| "suffixes_loop offset byte_off _ name_map = name_map"

definition encode_name_compressed :: "bytes \<Rightarrow> (bytes, nat) hash_map \<Rightarrow> nat \<Rightarrow> bytes \<times> (bytes, nat) hash_map" where
  "encode_name_compressed name name_map offset =
     (let key = to_ascii_lowercase name
      in case hm_get name_map key of
           Some ptr \<Rightarrow> (usize_to_be (0xC000 OR ptr), name_map)
         | None \<Rightarrow>
             let buf = encode_name name;
                 labels = split_on 46 (trim_end 46 key);
                 name_map = or_insert key offset name_map;
                 name_map = suffixes_loop offset 0 labels name_map;
                 name_map = or_insert [46] (offset + length buf - 1) name_map
             in (buf, name_map))"

section \<open>Where names stand\<close>

definition named_at :: "bytes \<Rightarrow> bytes \<Rightarrow> nat \<Rightarrow> bool" where
  "named_at msg k p =
     (\<exists>ls pre post. list_all wf_label ls \<and> k = name_of_labels ls \<and> msg = pre @ encode_labels ls @ post \<and> p = length pre)"

definition map_true :: "bytes \<Rightarrow> (bytes, nat) hash_map \<Rightarrow> bool" where
  "map_true msg m = (\<forall>k p. hm_get m k = Some p \<longrightarrow> named_at msg k p)"

lemma named_at_decodes:
  assumes "named_at msg k p"
  shows "\<exists>e. decode_name (msg @ post) p = Some (k, e)"
proof -
  obtain ls pre post' where at: "list_all wf_label ls" "k = name_of_labels ls" "msg = pre @ encode_labels ls @ post'" "p = length pre"
    using assms by (auto simp: named_at_def)
  show ?thesis
    using decode_labels [OF at(1) refl refl, where acc = "[]" and pre = pre and post = "post' @ post"] at
    by (auto simp: decode_name_def name_of_labels_def)
qed

lemma map_true_append: "map_true msg m \<Longrightarrow> map_true (msg @ after) m"
  unfolding map_true_def named_at_def by (metis append.assoc)

lemma map_true_or_insert: "map_true msg m \<Longrightarrow> named_at msg k p \<Longrightarrow> map_true msg (or_insert k p m)"
  by (auto simp: map_true_def or_insert_def hm_simps)

lemma encode_labels_Cons: "encode_labels (l # ls) = (of_nat (length l) # l) @ encode_labels ls"
  by (simp add: encode_labels_def)

lemma suffixes_true:
  assumes "map_true msg m" "list_all wf_label ls" "msg = pre @ encode_labels ls @ post" "length pre = offset + byte_off"
  shows "map_true msg (suffixes_loop offset byte_off ls m)"
  using assms
proof (induction offset byte_off ls m arbitrary: pre rule: suffixes_loop.induct)
  case (1 offset byte_off label nxt labels m)
  let ?pre = "pre @ of_nat (length label) # label"
  have at: "msg = ?pre @ encode_labels (nxt # labels) @ post" "length ?pre = offset + (byte_off + 1 + length label)"
    using "1.prems"(3,4) by (simp_all add: encode_labels_Cons [of label])
  have wf: "list_all wf_label (nxt # labels)" using "1.prems"(2) by simp
  have "named_at msg (join [46] (nxt # labels) @ [46]) (offset + (byte_off + 1 + length label))"
    unfolding named_at_def using at wf by (intro exI [of _ "nxt # labels"] exI [of _ ?pre] exI [of _ post]) (simp add: name_of_labels_def)
  then show ?case
    using "1.IH" [OF refl refl map_true_or_insert [OF "1.prems"(1)] wf at] by (simp add: Let_def)
qed simp_all

lemma dns_name_lower: "dns_name n \<Longrightarrow> to_ascii_lowercase n = n"
proof -
  assume "dns_name n"
  then obtain ls where ls: "list_all wf_label ls" "n = name_of_labels ls" by (rule dns_name_labels)
  have low: "\<not> in_range 65 90 b" if "l \<in> set ls" "b \<in> set l" for l b
  proof -
    have "map (\<lambda>b. if in_range 65 90 b then b + 32 else b) l = map (\<lambda>b. b) l"
      using ls(1) that(1) by (simp add: list_all_iff wf_label_def to_ascii_lowercase_def)
    then have "(if in_range 65 90 b then b + 32 else b) = b" using that(2) unfolding map_eq_conv by blast
    then show ?thesis by (auto split: if_splits)
  qed
  have "set (join [46] ps) \<subseteq> (\<Union>p \<in> set ps. set p) \<union> {46}" for ps :: "bytes list"
    by (induction "[46 :: u8]" ps rule: join.induct) auto
  then have "\<not> in_range 65 90 b" if "b \<in> set n" for b
    using that low ls(2) by (fastforce simp: name_of_labels_def in_range_def split: if_splits)
  then show ?thesis by (auto simp: to_ascii_lowercase_def intro: map_idI)
qed

text \<open>
  A name that is new is written in full and the table stays true: each name in it, and each of the suffixes of the new
  one, is what a decoder finds at the place the table gives, whatever follows.
\<close>

lemma compression_table_true:
  assumes "map_true pre m" "dns_name name" "hm_get m name = None"
  shows "let (buf, m') = encode_name_compressed name m (length pre) in
    buf = encode_name name \<and> map_true (pre @ buf) m' \<and>
    (\<forall>k p. hm_get m' k = Some p \<longrightarrow> (\<exists>e. decode_name (pre @ buf @ post) p = Some (k, e)))"
proof -
  obtain ls where ls: "list_all wf_label ls" "name = name_of_labels ls" using dns_name_labels [OF assms(2)] by blast
  let ?msg = "pre @ encode_labels ls"
  have buf: "encode_name name = encode_labels ls" using encode_name_labels [OF ls(1)] ls(2) by simp
  have whole: "named_at ?msg name (length pre)"
    unfolding named_at_def using ls by (intro exI [of _ ls] exI [of _ pre] exI [of _ "[]"]) simp
  have root: "named_at ?msg [46] (length pre + length (encode_labels ls) - 1)"
    unfolding named_at_def
    by (intro exI [of _ "[]"] exI [of _ "pre @ concat (map (\<lambda>l. of_nat (length l) # l) ls)"]) (simp add: name_of_labels_def encode_labels_def)
  have suffixes: "map_true ?msg (suffixes_loop (length pre) 0 (split_on 46 (trim_end 46 name)) (or_insert name (length pre) m))"
  proof (cases "ls = []")
    case True
    then show ?thesis
      using map_true_or_insert [OF map_true_append [OF assms(1)] whole] by (simp add: ls(2) name_of_labels_def trim_end_def)
  next
    case False
    have "split_on 46 (trim_end 46 name) = ls"
      using False ls by (simp add: name_of_labels_def trim_end_join split_join list_all_iff wf_label_def)
    then show ?thesis
      using suffixes_true [OF map_true_or_insert [OF map_true_append [OF assms(1)] whole] ls(1), of pre "[]" "length pre" 0] by simp
  qed
  have "encode_name_compressed name m (length pre) = (encode_labels ls,
      or_insert [46] (length pre + length (encode_labels ls) - 1)
        (suffixes_loop (length pre) 0 (split_on 46 (trim_end 46 name)) (or_insert name (length pre) m)))"
    using assms(3) by (simp add: encode_name_compressed_def dns_name_lower [OF assms(2)] buf Let_def)
  then show ?thesis
    using map_true_or_insert [OF suffixes root] named_at_decodes [of ?msg _ _ post] by (auto simp: buf map_true_def)
qed

text \<open>
  A name that is in the table is not replaced by a pointer of two bytes: \<^verbatim>\<open>0xC000 | ptr\<close> is a \<^verbatim>\<open>usize\<close>, so
  eight bytes are written, of which the first is zero, and a decoder reads the root and seven bytes of something else.
\<close>

lemma compressed_pointer_broken:
  assumes "hm_get m (to_ascii_lowercase name) = Some ptr" "ptr < 0x4000"
  shows "length (fst (encode_name_compressed name m offset)) = 8 \<and>
    decode_name (pre @ fst (encode_name_compressed name m offset) @ post) (length pre) = Some ([46], length pre + 1)"
proof -
  have "(0xC000 OR ptr) div 256 ^ 7 = 0"
  proof -
    have "take_bit 16 (0xC000 OR ptr) = 0xC000 OR ptr" using assms(2) by (simp add: take_bit_or take_bit_nat_eq_self)
    then have "0xC000 OR ptr < 2 ^ 16" using take_bit_nat_less_exp by metis
    then show ?thesis by simp
  qed
  then obtain rest where "usize_to_be (0xC000 OR ptr) = 0 # rest" "length (usize_to_be (0xC000 OR ptr)) = 8"
    by (simp add: usize_to_be_def upt_rec)
  then show ?thesis
    using assms(1) by (simp add: encode_name_compressed_def decode_name_def decode_name_loop.simps)
qed

end
