(* ===== verification/Http_Pipeline.thy ===== *)
theory Http_Pipeline
  imports Http_Server_Correct "HOL-Library.Sublist"
begin

text \<open>
  The requests of a connection, one after the other: the loop, which reads pieces of a stream and finds the requests
  in them, does what a server would do that is given the list of the requests.
\<close>

section \<open>The reference\<close>

text \<open>A request as the client means it: the bytes of its head, what they say, and its body.\<close>

type_synonym client_request = "bytes \<times> HttpRequest \<times> bytes"

text \<open>Serving a list of requests, each with its body at hand.\<close>

fun serve_requests :: "server_env \<Rightarrow> SiteConfig list \<Rightarrow> nat \<Rightarrow> TokenBucket option \<Rightarrow> client_request list \<Rightarrow>
    bytes \<times> TokenBucket option \<times> unit outcome" where
  "serve_requests e sites k limiter [] = ([], limiter, Done ())"
| "serve_requests e sites k limiter ((head, req, body) # rs) =
     (let keep_alive = wants_keep_alive (req_headers req);
          (written, limiter, r) = handle_request e sites (se_clock e k) (limiter_at e k limiter) req body ([], Closed) keep_alive
      in (case r of
            Failed err \<Rightarrow> (written, limiter, Failed err)
          | Panicked \<Rightarrow> (written, limiter, Panicked)
          | Blocked \<Rightarrow> (written, limiter, Blocked)
          | Done _ \<Rightarrow>
              if \<not> keep_alive then (written, limiter, Done ())
              else let (later, limiter, r) = serve_requests e sites (k + 1) limiter rs in (written @ later, limiter, r)))"

definition request_bytes :: "client_request list \<Rightarrow> bytes" where
  "request_bytes rs = concat (map (\<lambda>(head, req, body). head @ body) rs)"

text \<open>
  What \<^verbatim>\<open>httparse\<close> does with a head: it is incomplete before its last byte and complete from there on, whatever follows.
  The body is announced by its length, or not at all when there is none.
\<close>

definition head_parses :: "(bytes \<Rightarrow> HttpRequest parse_status) \<Rightarrow> bytes \<Rightarrow> HttpRequest \<Rightarrow> bool" where
  "head_parses parse head req =
     (head \<noteq> [] \<and> (\<forall>n < length head. parse (take n head) = Partial) \<and> (\<forall>after. parse (head @ after) = Complete (length head) req))"

definition body_announced :: "Header list \<Rightarrow> bytes \<Rightarrow> bool" where
  "body_announced headers body =
     (get_header headers (ascii ''Transfer-Encoding'') = None \<and>
      (get_header headers (ascii ''Content-Length'') = None \<and> body = [] \<or>
       get_header headers (ascii ''Content-Length'') = Some (show_nat (length body)) \<and> length body \<le> U64_MAX))"

definition well_sent :: "(bytes \<Rightarrow> HttpRequest parse_status) \<Rightarrow> client_request list \<Rightarrow> bool" where
  "well_sent parse rs = (\<forall>(head, req, body) \<in> set rs. head_parses parse head req \<and> body_announced (req_headers req) body)"

section \<open>Bodies\<close>

lemma announced_body:
  assumes "body_announced headers body" "buf @ concat ps = body @ after"
  obtains leftover ps' where "read_body (ps, en) buf headers = Done (body, leftover, ps', en)" "leftover @ concat ps' = after"
proof (cases "get_header headers (ascii ''Content-Length'')")
  case None
  then have "read_body (ps, en) buf headers = Done (body, buf, ps, en)" "buf @ concat ps = after"
    using assms by (simp_all add: body_announced_def read_body_def)
  then show thesis by (rule that)
next
  case (Some v)
  then have len: "get_header headers (ascii ''Content-Length'') = Some (show_nat (length body))" "length body \<le> U64_MAX"
    "get_header headers (ascii ''Transfer-Encoding'') = None"
    using assms(1) by (auto simp: body_announced_def)
  have "length body \<le> length (buf @ concat ps)" "take (length body) (buf @ concat ps) = body" "drop (length body) (buf @ concat ps) = after"
    by (simp_all add: assms(2))
  then show thesis using content_length_body [OF len(3,1,2), of buf ps en] that by auto
qed

lemma handle_request_body:
  assumes "read_body inp buf (req_headers req) = Done (body, leftover, inp')"
    "read_body inp0 buf0 (req_headers req) = Done (body, leftover0, inp0')"
    "handle_request e sites now limiter req buf0 inp0 ka = (w, l, r0)"
  shows "handle_request e sites now limiter req buf inp ka = (w, l, bind_outcome r0 (\<lambda>_. Done (leftover, inp')))"
  using assms
  by (auto simp: handle_request_def Let_def case_prod_beta bind_outcome_def split: option.splits outcome.splits if_splits)

section \<open>The loop\<close>

text \<open>While the head of the next request is incomplete, the loop reads on.\<close>

lemma head_missing:
  assumes "head_parses parse head req" "length buf < length head" "buf @ concat ps = head @ after"
  shows "parse buf = Partial \<and> ps \<noteq> []"
proof -
  have "buf = take (length buf) head" using assms(2) arg_cong [OF assms(3), of "take (length buf)"] by simp
  moreover have "ps \<noteq> []" using assms(2) arg_cong [OF assms(3), of length] by auto
  ultimately show ?thesis using assms(1,2) by (metis head_parses_def)
qed

text \<open>Once it is there, the request is handled as it would be with its body at hand, and what follows is left.\<close>

lemma head_arrived:
  assumes "body_announced (req_headers req) body" "x @ concat ps = body @ after"
  obtains w l r leftover ps' where
    "handle_request e sites now limiter req body ([], Closed) ka = (w, l, r)"
    "handle_request e sites now limiter req x (ps, en) ka = (w, l, bind_outcome r (\<lambda>_. Done (leftover, ps', en)))"
    "leftover @ concat ps' = after" "remaining leftover ps' \<le> remaining x ps"
proof -
  obtain leftover ps' where rb: "read_body (ps, en) x (req_headers req) = Done (body, leftover, ps', en)"
    "leftover @ concat ps' = after"
    using announced_body [OF assms] by metis
  obtain l0 i0 where rb0: "read_body ([], Closed) body (req_headers req) = Done (body, l0, i0, Closed)"
    using announced_body [OF assms(1), of body "[]" "[]" Closed] by (metis append_Nil2 concat.simps(1))
  obtain w l r where h0: "handle_request e sites now limiter req body ([], Closed) ka = (w, l, r)"
    by (metis prod_cases3)
  show thesis
    using that [OF h0 handle_request_body [OF rb(1) rb0 h0] rb(2)] read_body_left [OF rb(1)] left_of_remaining by blast
qed

lemma serve_loop_requests:
  assumes "parser_ok (se_parse_request e)" "se_parse_request e [] = Partial" "en \<noteq> Broken"
  shows "well_sent (se_parse_request e) rs \<Longrightarrow> buf @ concat ps = request_bytes rs \<Longrightarrow> remaining buf ps < fuel \<Longrightarrow>
    serve_loop e sites fuel k limiter buf (ps, en) = Some (serve_requests e sites k limiter rs)"
proof (induction fuel arbitrary: rs k limiter buf ps)
  case (Suc fuel)
  have read: "serve_loop e sites (Suc fuel) k limiter buf (ps, en) = Some (serve_requests e sites k limiter rs)"
    if "se_parse_request e buf = Partial" "ps \<noteq> []"
  proof -
    obtain p ps' where ps: "ps = p # ps'" using \<open>ps \<noteq> []\<close> by (cases ps) auto
    then have "serve_loop e sites fuel k limiter (buf @ p) (ps', en) = Some (serve_requests e sites k limiter rs)"
      using Suc.prems by (intro Suc.IH) (simp_all add: remaining_def)
    then show ?thesis using that(1) ps by simp
  qed
  show ?case
  proof (cases rs)
    case Nil
    then have "buf = []" using Suc.prems(2) by (simp add: request_bytes_def)
    then show ?thesis using read assms(2,3) Nil by (cases ps; cases en) simp_all
  next
    case (Cons r rs')
    obtain head req body where r: "r = (head, req, body)" by (metis prod_cases3)
    have ok: "head_parses (se_parse_request e) head req" "body_announced (req_headers req) body" "well_sent (se_parse_request e) rs'"
      using Suc.prems(1) by (simp_all add: Cons r well_sent_def)
    have bytes: "buf @ concat ps = head @ body @ request_bytes rs'" using Suc.prems(2) by (simp add: Cons r request_bytes_def)
    show ?thesis
    proof (cases "length buf < length head")
      case True
      then show ?thesis using read head_missing [OF ok(1) True bytes] by blast
    next
      case False
      then obtain x where buf: "buf = head @ x" "x @ concat ps = body @ request_bytes rs'"
        using bytes by (metis append_eq_append_conv_if append_take_drop_id linorder_not_less)
      obtain w l r0 leftover ps' where h:
        "handle_request e sites (se_clock e k) (limiter_at e k limiter) req body ([], Closed) (wants_keep_alive (req_headers req)) = (w, l, r0)"
        "handle_request e sites (se_clock e k) (limiter_at e k limiter) req x (ps, en) (wants_keep_alive (req_headers req)) =
          (w, l, bind_outcome r0 (\<lambda>_. Done (leftover, ps', en)))"
        "leftover @ concat ps' = request_bytes rs'" "remaining leftover ps' \<le> remaining x ps"
        by (rule head_arrived [OF ok(2) buf(2), of e sites "se_clock e k" "limiter_at e k limiter" "wants_keep_alive (req_headers req)" en])
      have complete: "0 < length head" "se_parse_request e buf = Complete (length head) req"
        using ok(1) by (simp_all add: head_parses_def buf(1))
      have "length head + remaining x ps < Suc fuel" using Suc.prems(3) by (simp add: buf(1) remaining_def)
      then have "remaining leftover ps' < fuel" using h(4) complete(1) by linarith
      from Suc.IH [OF ok(3) h(3) this] show ?thesis
        using h(1,2) complete(2)
        by (cases "wants_keep_alive (req_headers req)"; cases r0) (simp_all add: Cons r buf(1) bind_outcome_def case_prod_beta)
    qed
  qed
qed simp

text \<open>
  (C28) Requests without chunked bodies that follow each other on a connection are served one by one.  For every list of
  requests, each without a \<^verbatim>\<open>Transfer-Encoding\<close> header and with a body of the announced length or none, and every
  way in which their bytes are cut into the pieces that the reads return, in the middle of heads and bodies or with several
  requests in a piece, the loop writes what serving the requests in order writes, up to the first that ends the
  connection, and leaves the limiter as they leave it; other connections may use the limiter in between.  After the last request
  the client closes its side, or stays silent until the idle time is over.  (After a chunked body the bytes of the next
  request can be lost: \<open>cut_before_blank_line\<close>.)
\<close>

theorem requests_served_in_order:
  assumes "parser_ok (se_parse_request e)" "se_parse_request e [] = Partial"
    and "well_sent (se_parse_request e) rs" "concat ps = request_bytes rs" "en \<noteq> Broken"
  shows "serve_connection e sites limiter (ps, en) = Some (serve_requests e sites 0 limiter rs)"
  unfolding serve_connection_def
  by (rule serve_loop_requests [OF assms(1,2,5,3)]) (simp_all add: assms(4) remaining_def serve_fuel_def)

definition bare_request :: HttpRequest where
  "bare_request = \<lparr>req_method = None, req_path = None, req_headers = []\<rparr>"

definition bare_head :: bytes where
  "bare_head = [71, 13, 10, 13, 10]"

lemma bare_head_parses: "head_parses line_parser bare_head bare_request"
proof -
  have "line_parser (take n bare_head) = Partial" if "n < 5" for n
  proof -
    have "n = 0 \<or> n = 1 \<or> n = 2 \<or> n = 3 \<or> n = 4" using that by arith
    then show ?thesis by (elim disjE) (simp_all add: line_parser_def bare_head_def CRLF_def starts_with_def)
  qed
  then show ?thesis
    by (simp add: head_parses_def bare_head_def bare_request_def line_parser_def CRLF_def starts_with_def)
qed

theorem requests_served_in_order_witness:
  "serve_connection small_server [guarded_site] None ([[71, 13], [10, 13, 10, 71, 13, 10], [13, 10]], Silent) =
    Some (write_401 @ write_401, None, Done ())"
proof -
  let ?rs = "[(bare_head, bare_request, []), (bare_head, bare_request, [])]"
  have "parser_ok (se_parse_request small_server)" "se_parse_request small_server [] = Partial"
    by (simp_all add: small_server_def line_parser_ok) (simp add: line_parser_def)
  moreover have "well_sent (se_parse_request small_server) ?rs"
    using bare_head_parses by (simp add: well_sent_def small_server_def body_announced_def bare_request_def get_header_def)
  moreover have "concat [[71, 13], [10, 13, 10, 71, 13, 10], [13, 10]] = request_bytes ?rs"
    by (simp add: request_bytes_def bare_head_def)
  moreover have "handle_request small_server [guarded_site] now None bare_request [] ([], Closed) True = (write_401, None, Done ([], [], Closed))" for now
    by (simp add: handle_request_def read_body_def limiter_allows_def choose_site_def guarded_site_def sample_site_def get_header_def bare_request_def check_auth_def)
  moreover have "wants_keep_alive (req_headers bare_request)" by (simp add: bare_request_def wants_keep_alive_def get_header_def)
  ultimately show ?thesis
    using requests_served_in_order [of small_server ?rs "[[71, 13], [10, 13, 10, 71, 13, 10], [13, 10]]" Silent "[guarded_site]" None]
    by simp
qed

end
