(* ===== verification/Net_Addr.thy ===== *)
theory Net_Addr
  imports Text_Scan
begin

text \<open>
  The parsers of the standard library for addresses, \<^verbatim>\<open>str::parse\<close> to \<^verbatim>\<open>Ipv4Addr\<close> and to
  \<^verbatim>\<open>SocketAddr\<close>, which the programs apply to their arguments and environment variables.  A reader consumes the front of the
  text or fails and leaves it.  The IPv4 parser accepts exactly what printing an address gives.
\<close>

section \<open>Numbers\<close>

type_synonym 'a reader = "bytes \<Rightarrow> ('a \<times> bytes) option"

text \<open>The digits in front: their value, their number and the rest.  \<open>None\<close>: the value or the number is too large.\<close>

fun read_digits :: "nat \<Rightarrow> nat \<Rightarrow> nat option \<Rightarrow> nat \<Rightarrow> nat \<Rightarrow> bytes \<Rightarrow> (nat \<times> nat \<times> bytes) option" where
  "read_digits radix largest max_digits n count [] = Some (n, count, [])"
| "read_digits radix largest max_digits n count (b # s) =
     (case digit_value radix b of
        None \<Rightarrow> Some (n, count, b # s)
      | Some d \<Rightarrow>
          if largest < n * radix + d then None
          else if (case max_digits of None \<Rightarrow> False | Some k \<Rightarrow> k < count + 1) then None
          else read_digits radix largest max_digits (n * radix + d) (count + 1) s)"

definition read_number :: "nat \<Rightarrow> nat option \<Rightarrow> bool \<Rightarrow> nat \<Rightarrow> nat reader" where
  "read_number radix max_digits allow_zero_prefix largest s =
     (case read_digits radix largest max_digits 0 0 s of
        None \<Rightarrow> None
      | Some (n, count, rest) \<Rightarrow>
          if count = 0 then None
          else if \<not> allow_zero_prefix \<and> starts_with [48] s \<and> 1 < count then None
          else Some (n, rest))"

definition read_separator :: "u8 \<Rightarrow> nat \<Rightarrow> 'a reader \<Rightarrow> 'a reader" where
  "read_separator sep index inner s =
     (if index = 0 then inner s
      else (case strip_prefix [sep] s of None \<Rightarrow> None | Some s \<Rightarrow> inner s))"

section \<open>IPv4\<close>

fun read_octets :: "nat \<Rightarrow> nat \<Rightarrow> u8 list reader" where
  "read_octets 0 i s = Some ([], s)"
| "read_octets (Suc n) i s =
     (case read_separator 46 i (read_number 10 (Some 3) False U8_MAX) s of
        None \<Rightarrow> None
      | Some (b, s) \<Rightarrow> map_option (\<lambda>(bs, s). (of_nat b # bs, s)) (read_octets n (i + 1) s))"

definition read_ipv4_addr :: "ip4 reader" where
  "read_ipv4_addr s = map_option (\<lambda>(bs, s). (ip4_at 0 bs, s)) (read_octets 4 0 s)"

text \<open>\<^verbatim>\<open>parse_with\<close>: the whole text must be read.\<close>

definition parse_with :: "'a reader \<Rightarrow> bytes \<Rightarrow> 'a option" where
  "parse_with reader s = (case reader s of Some (x, []) \<Rightarrow> Some x | _ \<Rightarrow> None)"

definition parse_ipv4_addr :: "bytes \<Rightarrow> ip4 option" where
  "parse_ipv4_addr s = (if 15 < length s then None else parse_with read_ipv4_addr s)"

fun show_ipv4 :: "ip4 \<Rightarrow> bytes" where
  "show_ipv4 (a, b, c, d) =
     show_nat (unat a) @ [46] @ show_nat (unat b) @ [46] @ show_nat (unat c) @ [46] @ show_nat (unat d)"

section \<open>IPv6 and ports\<close>

text \<open>
  At most \<open>n\<close> groups, the first with index \<open>i\<close>; the last two may be written as an IPv4 address, which ends them (\<open>True\<close>).
\<close>

fun read_groups :: "nat \<Rightarrow> nat \<Rightarrow> bytes \<Rightarrow> u16 list \<times> bool \<times> bytes" where
  "read_groups 0 i s = ([], False, s)"
| "read_groups (Suc n) i s =
     (case (if 0 < n then read_separator 58 i read_ipv4_addr s else None) of
        Some ((a, b, c, d), s) \<Rightarrow> ([u16_from_be a b, u16_from_be c d], True, s)
      | None \<Rightarrow>
          (case read_separator 58 i (read_number 16 (Some 4) True U16_MAX) s of
             None \<Rightarrow> ([], False, s)
           | Some (g, s) \<Rightarrow> let (gs, v4, s) = read_groups n (i + 1) s in (of_nat g # gs, v4, s)))"

definition read_ipv6_addr :: "u16 list reader" where
  "read_ipv6_addr s =
     (let (head, v4, s) = read_groups 8 0 s
      in if length head = 8 then Some (head, s)
         else if v4 then None
         else (case strip_prefix [58, 58] s of
                 None \<Rightarrow> None
               | Some s \<Rightarrow>
                   let (tail, _, s) = read_groups (8 - (length head + 1)) 0 s
                   in Some (head @ replicate (8 - (length head + length tail)) 0 @ tail, s)))"

definition read_port :: "u16 reader" where
  "read_port s =
     (case strip_prefix [58] s of
        None \<Rightarrow> None
      | Some s \<Rightarrow> map_option (\<lambda>(n, s). (of_nat n, s)) (read_number 10 None True U16_MAX s))"

definition read_scope_id :: "u32 reader" where
  "read_scope_id s =
     (case strip_prefix [37] s of
        None \<Rightarrow> None
      | Some s \<Rightarrow> map_option (\<lambda>(n, s). (of_nat n, s)) (read_number 10 None True U32_MAX s))"

text \<open>A \<^verbatim>\<open>SocketAddr\<close>; that of IPv6 has the groups, the scope and the port.\<close>

datatype inet_addr = Inet4 ip4 u16 | Inet6 "u16 list" u32 u16

definition read_socket_addr_v4 :: "inet_addr reader" where
  "read_socket_addr_v4 s =
     (case read_ipv4_addr s of
        None \<Rightarrow> None
      | Some (ip, s) \<Rightarrow> map_option (\<lambda>(port, s). (Inet4 ip port, s)) (read_port s))"

definition read_socket_addr_v6 :: "inet_addr reader" where
  "read_socket_addr_v6 s =
     (case strip_prefix [91] s of
        None \<Rightarrow> None
      | Some s \<Rightarrow>
          (case read_ipv6_addr s of
             None \<Rightarrow> None
           | Some (ip, s) \<Rightarrow>
               let (scope, s) = (case read_scope_id s of None \<Rightarrow> (0, s) | Some (scope, s) \<Rightarrow> (scope, s))
               in (case strip_prefix [93] s of
                     None \<Rightarrow> None
                   | Some s \<Rightarrow> map_option (\<lambda>(port, s). (Inet6 ip scope port, s)) (read_port s))))"

definition read_socket_addr :: "inet_addr reader" where
  "read_socket_addr s =
     (case read_socket_addr_v4 s of Some r \<Rightarrow> Some r | None \<Rightarrow> read_socket_addr_v6 s)"

definition parse_socket_addr :: "bytes \<Rightarrow> inet_addr option" where
  "parse_socket_addr s = parse_with read_socket_addr s"

definition show_inet4 :: "ip4 \<Rightarrow> u16 \<Rightarrow> bytes" where
  "show_inet4 ip port = show_ipv4 ip @ [58] @ show_nat (unat port)"

text \<open>To evaluate the readers on a text.\<close>

lemma read_octets_numeral:
  "read_octets (numeral k) i s =
     (case read_separator 46 i (read_number 10 (Some 3) False U8_MAX) s of
        None \<Rightarrow> None
      | Some (b, s) \<Rightarrow> map_option (\<lambda>(bs, s). (of_nat b # bs, s)) (read_octets (pred_numeral k) (i + 1) s))"
  by (simp add: numeral_eq_Suc)

lemma read_groups_numeral:
  "read_groups (numeral k) i s =
     (case (if 0 < (pred_numeral k :: nat) then read_separator 58 i read_ipv4_addr s else None) of
        Some ((a, b, c, d), s) \<Rightarrow> ([u16_from_be a b, u16_from_be c d], True, s)
      | None \<Rightarrow>
          (case read_separator 58 i (read_number 16 (Some 4) True U16_MAX) s of
             None \<Rightarrow> ([], False, s)
           | Some (g, s) \<Rightarrow> let (gs, v4, s) = read_groups (pred_numeral k) (i + 1) s in (of_nat g # gs, v4, s)))"
  by (simp add: numeral_eq_Suc)

lemmas reader_defs = parse_socket_addr_def parse_with_def read_socket_addr_def read_socket_addr_v4_def read_socket_addr_v6_def
  read_ipv4_addr_def read_ipv6_addr_def read_port_def read_scope_id_def read_separator_def read_number_def
  read_octets_numeral read_groups_numeral digit_value_def in_range_def strip_prefix_def starts_with_def ip4_at_def Let_def

section \<open>Reading digits\<close>

definition no_digit :: "nat \<Rightarrow> bytes \<Rightarrow> bool" where
  "no_digit radix s = (case s of [] \<Rightarrow> True | b # _ \<Rightarrow> digit_value radix b = None)"

lemma digits_value_mono: "digits_value radix n ds = Some m \<Longrightarrow> 0 < radix \<Longrightarrow> n \<le> m"
proof (induction ds arbitrary: n)
  case (Cons d ds)
  then obtain v where "digits_value radix (n * radix + v) ds = Some m" by (auto split: option.splits)
  from Cons.IH [OF this Cons.prems(2)] have "n * radix + v \<le> m" .
  moreover have "n * 1 \<le> n * radix" using Cons.prems(2) by (intro mult_le_mono) simp_all
  ultimately show ?case by linarith
qed simp

lemma read_digits_complete:
  assumes "digits_value radix n ds = Some m" "m \<le> largest" "0 < radix" "no_digit radix rest"
    and "\<And>k. max_digits = Some k \<Longrightarrow> count + length ds \<le> k"
  shows "read_digits radix largest max_digits n count (ds @ rest) = Some (m, count + length ds, rest)"
  using assms
proof (induction ds arbitrary: n count)
  case Nil
  then show ?case by (cases rest) (auto simp: no_digit_def)
next
  case (Cons d ds)
  obtain v where v: "digit_value radix d = Some v" "digits_value radix (n * radix + v) ds = Some m"
    using Cons.prems(1) by (auto split: option.splits)
  have "n * radix + v \<le> largest" using digits_value_mono [OF v(2) Cons.prems(3)] Cons.prems(2) by simp
  moreover have "\<not> (case max_digits of None \<Rightarrow> False | Some k \<Rightarrow> k < count + 1)"
    using Cons.prems(5) by (cases max_digits) fastforce+
  moreover have "read_digits radix largest max_digits (n * radix + v) (count + 1) (ds @ rest) =
      Some (m, count + 1 + length ds, rest)"
    using Cons.prems by (intro Cons.IH [OF v(2)]) fastforce+
  ultimately show ?case by (simp add: v)
qed

lemma read_digits_sound:
  "read_digits radix largest max_digits n count s = Some (m, k, rest) \<Longrightarrow>
     \<exists>ds. s = ds @ rest \<and> digits_value radix n ds = Some m \<and> k = count + length ds \<and> no_digit radix rest \<and>
       (ds \<noteq> [] \<longrightarrow> m \<le> largest)"
proof (induction s arbitrary: n count)
  case (Cons b s)
  show ?case
  proof (cases "digit_value radix b")
    case None
    then show ?thesis using Cons.prems by (auto simp: no_digit_def)
  next
    case (Some d)
    then have le: "n * radix + d \<le> largest"
      and "read_digits radix largest max_digits (n * radix + d) (count + 1) s = Some (m, k, rest)"
      using Cons.prems by (auto split: if_splits)
    from Cons.IH [OF this(2)] obtain ds where ds: "s = ds @ rest" "digits_value radix (n * radix + d) ds = Some m"
        "k = count + 1 + length ds" "no_digit radix rest" "ds \<noteq> [] \<longrightarrow> m \<le> largest" by blast
    then have "b # s = (b # ds) @ rest \<and> digits_value radix n (b # ds) = Some m \<and> k = count + length (b # ds) \<and>
        no_digit radix rest \<and> m \<le> largest"
      using le Some by (cases ds) auto
    then show ?thesis by blast
  qed
qed (simp add: no_digit_def)

text \<open>Digits without a leading zero are those that are printed for their value.\<close>

lemma show_nat_step: "10 \<le> n \<Longrightarrow> show_nat n = show_nat (n div 10) @ [digit_char (n mod 10)]"
  unfolding show_nat_def by (subst show_radix.simps) simp

lemma show_nat_digit: "n < 10 \<Longrightarrow> show_nat n = [digit_char n]"
  unfolding show_nat_def by (subst show_radix.simps) simp

lemma digit_value_inverse: "digit_value 10 b = Some v \<Longrightarrow> v < 10 \<and> b = digit_char v"
  by (auto simp: digit_value_def Let_def in_range_def word_le_nat_alt digit_char_def word_unat_eq_iff split: if_splits)

lemma digits_of_value:
  "digits_value 10 0 ds = Some n \<Longrightarrow> ds \<noteq> [] \<Longrightarrow> hd ds \<noteq> 48 \<or> length ds = 1 \<Longrightarrow> ds = show_nat n"
proof (induction ds arbitrary: n rule: rev_induct)
  case (snoc d ds)
  obtain v w where v: "digits_value 10 0 ds = Some v" and w: "digit_value 10 d = Some w" and n: "n = v * 10 + w"
    using snoc.prems(1) by (auto simp: digits_value_append split: option.splits)
  note d = digit_value_inverse [OF w]
  show ?case
  proof (cases "ds = []")
    case True
    then show ?thesis using v n d by (simp add: show_nat_digit)
  next
    case False
    then have "hd ds \<noteq> 48" using snoc.prems(3) by (cases ds) auto
    then have ds: "ds = show_nat v" using snoc.IH [OF v False] by simp
    have "v \<noteq> 0" using \<open>hd ds \<noteq> 48\<close> by (intro notI) (simp add: ds show_nat_digit digit_char_def)
    then show ?thesis using n d by (simp add: show_nat_step flip: ds)
  qed
qed simp

lemma show_nat_hd: "1 < length (show_nat n) \<Longrightarrow> hd (show_nat n) \<noteq> 48"
proof (induction n rule: less_induct)
  case (less n)
  have big: "10 \<le> n" using less.prems by (cases "n < 10") (simp_all add: show_nat_digit)
  show ?case
  proof (cases "n div 10 < 10")
    case True
    moreover have "n div 10 \<noteq> 0" using big by simp
    ultimately show ?thesis
      using unat_digit_char [of "n div 10"] by (simp add: show_nat_step [OF big] show_nat_digit word_unat_eq_iff)
  next
    case False
    then have "1 < length (show_nat (n div 10))" by (simp add: show_nat_step)
    then show ?thesis using less.IH [of "n div 10"] big by (simp add: show_nat_step [OF big])
  qed
qed

section \<open>The IPv4 parser is the inverse of printing\<close>

lemma read_number_show:
  assumes "n \<le> largest" "no_digit 10 rest" "\<And>k. max_digits = Some k \<Longrightarrow> length (show_nat n) \<le> k"
  shows "read_number 10 max_digits allow largest (show_nat n @ rest) = Some (n, rest)"
proof -
  have "digits_value 10 0 (show_nat n) = Some n" using digits_value_show [of 10 n] by (simp add: show_nat_def)
  from read_digits_complete [OF this assms(1) _ assms(2), of max_digits 0] assms(3)
  have digits: "read_digits 10 largest max_digits 0 0 (show_nat n @ rest) = Some (n, length (show_nat n), rest)" by simp
  moreover have "\<not> (starts_with [48] (show_nat n @ rest) \<and> 1 < length (show_nat n))"
    using show_nat_hd [of n] by (cases "show_nat n") (auto simp: starts_with_def)
  ultimately show ?thesis by (auto simp: read_number_def)
qed

lemma read_number_digits:
  assumes "read_number 10 max_digits allow largest s = Some (n, rest)"
  obtains ds where "s = ds @ rest" "ds \<noteq> []" "digits_value 10 0 ds = Some n" "n \<le> largest" "no_digit 10 rest"
    "\<not> allow \<Longrightarrow> ds = show_nat n"
proof -
  obtain k where k: "read_digits 10 largest max_digits 0 0 s = Some (n, k, rest)" "k \<noteq> 0"
      "\<not> (\<not> allow \<and> starts_with [48] s \<and> 1 < k)"
    using assms by (auto simp: read_number_def split: option.splits if_splits)
  obtain ds where ds: "s = ds @ rest" "digits_value 10 0 ds = Some n" "k = length ds" "no_digit 10 rest" "ds \<noteq> [] \<longrightarrow> n \<le> largest"
    using read_digits_sound [OF k(1)] by auto
  have "ds \<noteq> []" using ds(3) k(2) by auto
  moreover have "ds = show_nat n" if "\<not> allow"
  proof -
    have "hd ds \<noteq> 48 \<or> length ds = 1"
      using that k(3) ds(1,3) \<open>ds \<noteq> []\<close> by (cases ds) (auto simp: starts_with_def)
    then show ?thesis by (rule digits_of_value [OF ds(2) \<open>ds \<noteq> []\<close>])
  qed
  moreover from calculation have "n \<le> largest" using ds(5) by simp
  ultimately show ?thesis using that [OF ds(1) _ ds(2) _ ds(4)] by simp
qed

lemma octet_length: "length (show_nat (unat (b :: u8))) \<le> 3"
proof -
  have one: "length (show_nat n) \<le> 1" if "n < 10" for n using that by (simp add: show_nat_digit)
  have two: "length (show_nat n) \<le> 2" if "n < 100" for n
    using that one [of "n div 10"] by (cases "n < 10") (simp_all add: show_nat_step show_nat_digit)
  have "length (show_nat n) \<le> 3" if "n < 1000" for n
    using that two [of "n div 10"] by (cases "n < 10") (simp_all add: show_nat_step show_nat_digit)
  then show ?thesis using unat_u8_less [of b] by simp
qed

lemma show_ipv4_length: "length (show_ipv4 ip) \<le> 15"
proof (cases ip)
  case (fields a b c d)
  then show ?thesis using octet_length [of a] octet_length [of b] octet_length [of c] octet_length [of d] by simp
qed

lemma no_digit_dot [simp]: "no_digit 10 (46 # s)" "no_digit 10 (58 # s)" "no_digit 10 []"
  by (simp_all add: no_digit_def digit_value_def in_range_def)

lemma read_octet_show:
  assumes "no_digit 10 rest"
  shows "read_number 10 (Some 3) False U8_MAX (show_nat (unat (b :: u8)) @ rest) = Some (unat b, rest)"
  using unat_u8_less [of b] octet_length [of b] by (intro read_number_show [OF _ assms]) auto

lemma strip_prefix_Cons [simp]: "strip_prefix [x] (x # s) = Some s"
  using strip_prefix_append [of "[x]" s] by simp

lemma read_ipv4_show: "no_digit 10 rest \<Longrightarrow> read_ipv4_addr (show_ipv4 ip @ rest) = Some (ip, rest)"
  by (cases ip) (simp add: read_ipv4_addr_def read_octets_numeral read_separator_def read_octet_show ip4_at_def)

lemma read_octet_exact:
  assumes "read_number 10 (Some 3) False U8_MAX s = Some (n, rest)"
  shows "s = show_nat (unat (of_nat n :: u8)) @ rest \<and> no_digit 10 rest"
proof -
  obtain ds where "s = ds @ rest" "n \<le> 255" "no_digit 10 rest" "ds = show_nat n"
    using read_number_digits [OF assms] by blast
  then show ?thesis by (simp add: unat_of_nat take_bit_nat_eq_self)
qed

lemma read_octets_exact:
  "read_octets n i s = Some (bs, rest) \<Longrightarrow>
     length bs = n \<and> (0 < i \<longrightarrow> s = concat (map (\<lambda>b. 46 # show_nat (unat b)) bs) @ rest) \<and>
     (i = 0 \<longrightarrow> 0 < n \<longrightarrow> s = tl (concat (map (\<lambda>b. 46 # show_nat (unat b)) bs)) @ rest) \<and> (0 < n \<longrightarrow> no_digit 10 rest)"
proof (induction n arbitrary: i s bs)
  case (Suc n)
  obtain b s1 bs' where b: "read_separator 46 i (read_number 10 (Some 3) False U8_MAX) s = Some (b, s1)"
      "read_octets n (i + 1) s1 = Some (bs', rest)" "bs = of_nat b # bs'"
    using Suc.prems by (auto split: option.splits)
  have "\<exists>t. (if i = 0 then s = t else s = 46 # t) \<and> t = show_nat (unat (of_nat b :: u8)) @ s1 \<and> no_digit 10 s1"
    using b(1) read_octet_exact by (auto simp: read_separator_def split: if_splits option.splits dest!: strip_prefix_Some)
  then show ?case using Suc.IH [OF b(2)] b(2,3) by (cases n) (auto split: if_splits)
qed simp

lemma read_ipv4_exact:
  assumes "read_ipv4_addr s = Some (ip, rest)"
  shows "s = show_ipv4 ip @ rest \<and> no_digit 10 rest"
proof -
  obtain bs where bs: "read_octets 4 0 s = Some (bs, rest)" "ip = ip4_at 0 bs"
    using assms by (auto simp: read_ipv4_addr_def)
  note octets = read_octets_exact [OF bs(1)]
  then obtain a b c d where "bs = [a, b, c, d]" by (auto simp: length_Suc_conv eval_nat_numeral)
  then show ?thesis using octets bs(2) by (simp add: ip4_at_def eval_nat_numeral)
qed

text \<open>An address is accepted in exactly one spelling, the one that printing it gives.\<close>

theorem parse_ipv4_iff: "parse_ipv4_addr s = Some ip \<longleftrightarrow> s = show_ipv4 ip"
proof
  assume "parse_ipv4_addr s = Some ip"
  then have "read_ipv4_addr s = Some (ip, [])"
    by (auto simp: parse_ipv4_addr_def parse_with_def split: if_splits option.splits list.splits)
  then show "s = show_ipv4 ip" using read_ipv4_exact by fastforce
next
  assume "s = show_ipv4 ip"
  then show "parse_ipv4_addr s = Some ip"
    using read_ipv4_show [of "[]" ip] show_ipv4_length [of ip] by (simp add: parse_ipv4_addr_def parse_with_def)
qed

section \<open>Socket addresses\<close>

text \<open>The digits of a port: leading zeros are read over.\<close>

definition port_digits :: "bytes \<Rightarrow> u16 \<Rightarrow> bool" where
  "port_digits ds port = (ds \<noteq> [] \<and> digits_value 10 0 ds = Some (unat port))"

lemma read_port_digits: "port_digits ds port \<Longrightarrow> read_port (58 # ds) = Some (port, [])"
  using read_digits_complete [of 10 0 ds "unat port" U16_MAX "[]" None 0] unat_u16_less [of port]
  by (auto simp: port_digits_def read_port_def strip_prefix_def starts_with_def read_number_def)

lemma read_port_exact:
  assumes "read_port s = Some (port, [])"
  shows "\<exists>ds. s = 58 # ds \<and> port_digits ds port"
proof -
  obtain t n where t: "s = 58 # t" "read_number 10 None True U16_MAX t = Some (n, [])" "port = of_nat n"
    using assms by (auto simp: read_port_def split: option.splits dest!: strip_prefix_Some)
  from read_number_digits [OF t(2)] show ?thesis
    using t by (fastforce simp: port_digits_def unat_of_nat take_bit_nat_eq_self)
qed

text \<open>What is read as an IPv4 socket address: the address as it is printed, a colon, and the digits of the port.\<close>

theorem parse_socket_v4_iff:
  "parse_socket_addr s = Some (Inet4 ip port) \<longleftrightarrow> (\<exists>ds. s = show_ipv4 ip @ 58 # ds \<and> port_digits ds port)"
proof
  assume "parse_socket_addr s = Some (Inet4 ip port)"
  then have "read_socket_addr s = Some (Inet4 ip port, [])"
    by (auto simp: parse_socket_addr_def parse_with_def split: option.splits list.splits)
  then have "read_socket_addr_v4 s = Some (Inet4 ip port, [])"
    by (auto simp: read_socket_addr_def read_socket_addr_v6_def Let_def split: option.splits prod.splits)
  then obtain t where "read_ipv4_addr s = Some (ip, t)" "read_port t = Some (port, [])"
    by (auto simp: read_socket_addr_v4_def split: option.splits)
  then show "\<exists>ds. s = show_ipv4 ip @ 58 # ds \<and> port_digits ds port"
    using read_ipv4_exact read_port_exact by blast
next
  assume "\<exists>ds. s = show_ipv4 ip @ 58 # ds \<and> port_digits ds port"
  then show "parse_socket_addr s = Some (Inet4 ip port)"
    by (auto simp: parse_socket_addr_def parse_with_def read_socket_addr_def read_socket_addr_v4_def
        read_ipv4_show read_port_digits)
qed

lemma port_digits_show: "port_digits (show_nat (unat port)) port"
  using digits_value_show [of 10 "unat port"] by (simp add: port_digits_def show_nat_def)

lemma parse_show_inet4: "parse_socket_addr (show_inet4 ip port) = Some (Inet4 ip port)"
  unfolding parse_socket_v4_iff show_inet4_def using port_digits_show by auto

end
