(* ===== verification/Stack_Main.thy ===== *)
theory Stack_Main
  imports Tap Stack_Client_Run
begin

text \<open>
  \<^verbatim>\<open>main\<close> of \<^verbatim>\<open>TCP-stack/src/main.rs\<close>: the device is opened, the server's address is read, and the
  client runs.
\<close>

record stack_args =
  sa_tap :: bytes
  sa_ip :: bytes
  sa_connect :: "bytes option"
  sa_data :: "bytes option"

datatype stack_end = StackExit bytes nat | StackPanic | ClientRun bytes "bytes \<times> TcpStack client_run"

text \<open>\<open>StackExit\<close> has what was printed and the status.\<close>

definition stack_banner :: "stack_args \<Rightarrow> TcpStack \<Rightarrow> bytes" where
  "stack_banner args s =
     ascii ''TCP-stack: tap='' @ [39] @ sa_tap args @ [39] @ ascii '' mac='' @ mac_str (our_mac s) @
     ascii '' ip='' @ ip_str (our_ip s) @ [10]"

definition stack_main :: "tap_kernel \<Rightarrow> (nat \<Rightarrow> instant) \<Rightarrow> nat \<Rightarrow> read_result list list \<Rightarrow> stack_args \<Rightarrow> stack_end" where
  "stack_main k clk nanos turns args =
     (case open_stack k (sa_tap args) (parse_ip (sa_ip args)) clk of
        None \<Rightarrow> StackPanic
      | Some (Inl e) \<Rightarrow> StackExit [] 1
      | Some (Inr stack) \<Rightarrow>
          (case (case sa_connect args of Some s \<Rightarrow> parse_addr s | None \<Rightarrow> None) of
             None \<Rightarrow> StackExit (stack_banner args stack) 1
           | Some (rip, rport) \<Rightarrow> ClientRun (stack_banner args stack) (run_client nanos turns rip rport (sa_data args) stack)))"

section \<open>The program\<close>

text \<open>Without an address to connect to, the program ends after opening the device.\<close>

lemma usage_exit:
  assumes "open_tap k (sa_tap args) = Opened dev" "sa_connect args = None \<or> (\<exists>s. sa_connect args = Some s \<and> parse_addr s = None)"
  shows "\<exists>banner. stack_main k clk nanos turns args = StackExit banner 1"
  using assms by (auto simp: stack_main_def open_stack_def split: option.split)

text \<open>
  (C11) What the program prints of the response, from its start on the command line and the device to the last turn.  The
  server's stream is shorter than 2^32 - 2 bytes, so that sequence numbers do not come round, and in every turn what
  arrives for the connection is the SYN+ACK of the server or pieces of the stream (in any order, repeated, overlapping),
  lost or answered by whatever the stack sends.  Then, for any bytes, what is printed comes from the stream with its
  order: no byte is printed twice, none out of order and none that the server did not send.  When the stream
  is ASCII, nothing is left out either: what is printed is a prefix of the stream.  (Of other streams a read that ends inside a
  character is left out: \<open>split_character_dropped\<close>.)
\<close>

theorem program_prints_prefix:
  assumes "open_tap k (sa_tap args) = Opened dev" "sa_ip args = ip_str ip"
    and "sa_connect args = Some (ip_str rip @ [58] @ show_nat (unat rport))"
    and "key = (ip, next_ephemeral manager_new, rip, rport)"
    and "short_stream S" "\<forall>frames \<in> set turns. stream.frames_ok key isn S ip frames"
  shows "\<exists>printed outcome. stack_main k clk nanos turns args =
      ClientRun (stack_banner args (stack_new (tap_mac dev) ip clk)) (printed, outcome) \<and>
    subseq printed S \<and> ((\<forall>b \<in> set S. b < 0x80) \<longrightarrow> prefix printed S)"
proof -
  let ?s = "stack_new (tap_mac dev) ip clk"
  have s: "hm_ok (connections (tcp ?s))" "key = (our_ip ?s, next_ephemeral (tcp ?s), rip, rport)"
      "hm_get (connections (tcp ?s)) key = None" "our_ip ?s = ip"
    using assms(4) by (simp_all add: stack_new_def manager_new_def hm.ok_empty hm.get_empty)
  have "subseq (fst (run_client nanos turns rip rport (sa_data args) ?s)) S \<and>
      ((\<forall>b \<in> set S. b < 0x80) \<longrightarrow> prefix (fst (run_client nanos turns rip rport (sa_data args) ?s)) S)"
    unfolding ascii_stream_def [symmetric]
    by (rule client_run_prints_prefix [OF s(1-3) assms(5)]) (use assms(6) s(4) in simp)
  moreover have "stack_main k clk nanos turns args =
      ClientRun (stack_banner args ?s) (run_client nanos turns rip rport (sa_data args) ?s)"
    using assms(1-3) parse_addr_printed [of ip] parse_addr_printed [of rip rport] by (simp add: stack_main_def open_stack_def)
  ultimately show ?thesis by (metis prod.collapse)
qed

definition client_kernel :: tap_kernel where
  "client_kernel = sample_kernel\<lparr>read_to_string := \<lambda>path. Some (ascii ''02:00:00:00:00:01'' @ [10])\<rparr>"

definition client_args :: stack_args where
  "client_args = \<lparr>sa_tap = ascii ''tap0'', sa_ip = ip_str (10, 0, 0, 2),
     sa_connect = Some (ip_str (10, 0, 0, 1) @ [58] @ show_nat 80), sa_data = None\<rparr>"

lemma client_kernel_opens: "open_tap client_kernel (ascii ''tap0'') = Opened \<lparr>tap_fd = 3, tap_name = ascii ''tap0'', tap_mac = (2, 0, 0, 0, 0, 1)\<rparr>"
proof -
  have "read_mac client_kernel (ascii ''tap0'') = Some (2, 0, 0, 0, 0, 1)"
    unfolding client_kernel_def read_mac_def tap_kernel.simps by code_simp
  then show ?thesis
    by (simp add: open_tap_def client_kernel_def sample_kernel_def tap_ifreq_def tap_flags copy_at_def ascii_def Let_def numeral_nat)
qed

theorem program_prints_prefix_witness:
  "\<exists>printed outcome. stack_main client_kernel id 7 server_turns client_args =
      ClientRun (stack_banner client_args (stack_new (2, 0, 0, 0, 0, 1) (10, 0, 0, 2) id)) (printed, outcome) \<and>
    prefix printed (ascii ''OK!'')"
proof -
  have key: "server_key = ((10, 0, 0, 2), next_ephemeral manager_new, (10, 0, 0, 1), 80)"
    using first_port by (simp add: server_key_def manager_new_def)
  have nil: "stream.frames_ok server_key isn S lip []" for isn S lip by (simp add: stream.frames_ok_def)
  have frames: "\<forall>frames \<in> set server_turns. stream.frames_ok server_key 99 (ascii ''OK!'') (10, 0, 0, 2) frames"
    unfolding server_turns_def list.set ball_simps
    by (intro conjI TrueI server_frame_ok nil)
      (simp_all add: server_segment_def stream_segment_def has_flag_def const_defs ascii_def)
  have short: "short_stream (ascii ''OK!'')" "\<forall>b \<in> set (ascii ''OK!''). b < 0x80"
    by (simp_all add: ascii_def)
  have args: "open_tap client_kernel (sa_tap client_args) = Opened \<lparr>tap_fd = 3, tap_name = ascii ''tap0'', tap_mac = (2, 0, 0, 0, 0, 1)\<rparr>"
      "sa_ip client_args = ip_str (10, 0, 0, 2)"
      "sa_connect client_args = Some (ip_str (10, 0, 0, 1) @ [58] @ show_nat (unat (80 :: u16)))"
    using client_kernel_opens by (simp_all add: client_args_def)
  from program_prints_prefix [OF args key short(1) frames, of id 7] short(2) show ?thesis by auto
qed

end
