(* ===== verification/Tool_Target.thy ===== *)
theory Tool_Target
  imports Net_Addr Ping_Run
begin

text \<open>
  How ping and traceroute find their target (\<^verbatim>\<open>resolve_host\<close> in \<^verbatim>\<open>toolkit/ping/src/main.rs\<close> and
  \<^verbatim>\<open>toolkit/traceroute/src/main.rs\<close>) and what ping does before its threads start.  The resolver of the system,
  \<^verbatim>\<open>to_socket_addrs\<close>, is an argument.
\<close>

section \<open>The code\<close>

datatype resolve_failure = ResolverError nat | NoIpv4Address

definition inet_is_ipv4 :: "inet_addr \<Rightarrow> bool" where
  "inet_is_ipv4 a = (case a of Inet4 _ _ \<Rightarrow> True | Inet6 _ _ _ \<Rightarrow> False)"

definition ping_resolve_host :: "(bytes \<Rightarrow> nat + inet_addr list) \<Rightarrow> bytes \<Rightarrow> resolve_failure + inet_addr" where
  "ping_resolve_host to_socket_addrs host =
     (case parse_ipv4_addr host of
        Some ip \<Rightarrow> Inr (Inet4 ip 0)
      | None \<Rightarrow>
          (case to_socket_addrs (host @ ascii '':0'') of
             Inl e \<Rightarrow> Inl (ResolverError e)
           | Inr addrs \<Rightarrow> (case find inet_is_ipv4 addrs of Some a \<Rightarrow> Inr a | None \<Rightarrow> Inl NoIpv4Address)))"

definition traceroute_resolve_host :: "(bytes \<Rightarrow> nat + inet_addr list) \<Rightarrow> bytes \<Rightarrow> resolve_failure + inet_addr" where
  "traceroute_resolve_host to_socket_addrs host =
     (case parse_ipv4_addr host of
        Some ip \<Rightarrow> Inr (Inet4 ip 0)
      | None \<Rightarrow>
          (case to_socket_addrs (host @ ascii '':0'') of
             Inl e \<Rightarrow> Inl (ResolverError e)
           | Inr addrs \<Rightarrow> (case find inet_is_ipv4 addrs of Some a \<Rightarrow> Inr a | None \<Rightarrow> Inl NoIpv4Address)))"

text \<open>
  \<^verbatim>\<open>Duration::from_secs_f64\<close> of a finite number: the nearest number of nanoseconds, the even one of two;
  \<open>None\<close> is the panic on a number that is negative or has no place in 64 bits of seconds.
\<close>

definition round_even :: "real \<Rightarrow> nat" where
  "round_even x =
     (let n = nat \<lfloor>x\<rfloor>; frac = x - of_int \<lfloor>x\<rfloor>
      in if frac < 1 / 2 \<or> frac = 1 / 2 \<and> even n then n else n + 1)"

definition from_secs_f64 :: "real \<Rightarrow> duration option" where
  "from_secs_f64 x =
     (if x < 0 then None
      else let d = round_even (x * 1000000000) in if from_secs (2 ^ 64) \<le> d then None else Some d)"

text \<open>The command line, and what the threads start from.\<close>

record ping_args =
  arg_count :: "u32 option"
  arg_interval :: real
  arg_size :: nat
  arg_timeout :: real
  arg_host :: bytes

record ping_session =
  ps_target :: inet_addr
  ps_id :: u16
  ps_payload :: bytes
  ps_banner :: bytes
  ps_config :: PingConfig

datatype ping_begin = PingExit nat | PingPanic | PingSession ping_session

text \<open>\<^verbatim>\<open>target.ip().to_string()\<close>; the target is an IPv4 address (lemma \<open>resolve_host_ipv4\<close>).\<close>

definition show_ip :: "inet_addr \<Rightarrow> bytes" where
  "show_ip a = (case a of Inet4 ip _ \<Rightarrow> show_ipv4 ip | Inet6 _ _ _ \<Rightarrow> undefined)"

text \<open>\<open>sock\<close> is false when the raw socket cannot be opened or cloned, \<open>pid\<close> is \<^verbatim>\<open>process::id()\<close>.\<close>

definition ping_setup :: "(bytes \<Rightarrow> nat + inet_addr list) \<Rightarrow> bool \<Rightarrow> u32 \<Rightarrow> ping_args \<Rightarrow> ping_begin" where
  "ping_setup to_socket_addrs sock pid args =
     (case ping_resolve_host to_socket_addrs (arg_host args) of
        Inl _ \<Rightarrow> PingExit 2
      | Inr target \<Rightarrow>
          if \<not> sock then PingExit 1
          else (case from_secs_f64 (arg_interval args) of
                  None \<Rightarrow> PingPanic
                | Some ival \<Rightarrow>
                    (case from_secs_f64 (arg_timeout args) of
                       None \<Rightarrow> PingPanic
                     | Some tmo \<Rightarrow>
                         PingSession
                           \<lparr>ps_target = target, ps_id = ucast (pid AND 0xFFFF), ps_payload = replicate (arg_size args) 0,
                            ps_banner = ascii ''PING '' @ arg_host args @ ascii '' ('' @ show_ip target @ ascii ''): '' @
                              show_nat (arg_size args) @ ascii '' data bytes'' @ [10],
                            ps_config = \<lparr>count = arg_count args, interval = ival, ping_timeout = tmo\<rparr>\<rparr>)))"

section \<open>Properties\<close>

lemma resolve_hosts_agree: "traceroute_resolve_host = ping_resolve_host"
  by (simp add: fun_eq_iff traceroute_resolve_host_def ping_resolve_host_def)

lemma find_ipv4: "find inet_is_ipv4 addrs = Some a \<Longrightarrow> \<exists>ip port. a = Inet4 ip port"
  by (induction addrs) (auto simp: inet_is_ipv4_def split: if_splits inet_addr.splits)

lemma resolve_host_ipv4: "ping_resolve_host to_socket_addrs host = Inr a \<Longrightarrow> \<exists>ip port. a = Inet4 ip port"
  by (auto simp: ping_resolve_host_def dest: find_ipv4 split: option.splits sum.splits)

lemma resolve_host_numeric: "ping_resolve_host to_socket_addrs (show_ipv4 ip) = Inr (Inet4 ip 0)"
proof -
  have "parse_ipv4_addr (show_ipv4 ip) = Some ip" by (simp add: parse_ipv4_iff)
  then show ?thesis by (simp add: ping_resolve_host_def)
qed

text \<open>
  The tools only ever send to an address of IPv4.  A numeric address is its own target, without asking the resolver,
  and what is not the printed form of an address goes to the resolver, whose first IPv4 address is the target.
\<close>

theorem target_is_ipv4:
  "(case ping_resolve_host to_socket_addrs host of Inl _ \<Rightarrow> True | Inr a \<Rightarrow> \<exists>ip port. a = Inet4 ip port) \<and>
   traceroute_resolve_host to_socket_addrs host = ping_resolve_host to_socket_addrs host \<and>
   ping_resolve_host to_socket_addrs (show_ipv4 ip) = Inr (Inet4 ip 0)"
  using resolve_host_ipv4 by (simp add: resolve_hosts_agree resolve_host_numeric split: sum.split)

lemma from_secs_f64_of_nat:
  assumes "n < 2 ^ 64"
  shows "from_secs_f64 (of_nat n) = Some (from_secs n)"
proof -
  have "\<lfloor>of_nat n * 1000000000 :: real\<rfloor> = of_nat (n * 1000000000)" by linarith
  moreover have "nat (int n * 1000000000) = n * 1000000000" by simp
  ultimately show ?thesis using assms by (simp add: from_secs_f64_def round_even_def Let_def from_secs_def)
qed

text \<open>
  With an address, whole seconds and a socket ping starts to send the number of zero bytes asked for; with a
  negative interval or time it panics after the socket is open.
\<close>

lemma ping_starts:
  assumes "arg_host args = show_ipv4 ip" "arg_interval args = of_nat i" "arg_timeout args = of_nat t" "i < 2 ^ 64" "t < 2 ^ 64"
  shows "\<exists>s. ping_setup to_socket_addrs True pid args = PingSession s \<and> ps_target s = Inet4 ip 0 \<and>
    ps_payload s = replicate (arg_size args) 0 \<and>
    ps_config s = \<lparr>count = arg_count args, interval = from_secs i, ping_timeout = from_secs t\<rparr>"
  using assms by (simp add: ping_setup_def from_secs_f64_of_nat resolve_host_numeric)

lemma ping_negative_panics:
  assumes "ping_resolve_host to_socket_addrs (arg_host args) = Inr target" "arg_interval args < 0 \<or> arg_timeout args < 0"
  shows "ping_setup to_socket_addrs True pid args = PingPanic"
  using assms by (auto simp: ping_setup_def from_secs_f64_def split: option.split)

end
