(* ===== verification/Tool_Main.thy ===== *)
theory Tool_Main
  imports Tool_Target Traceroute_Correct
begin

text \<open>
  \<^verbatim>\<open>main\<close> of \<^verbatim>\<open>toolkit/traceroute/src/main.rs\<close>: the target is resolved, and one of the two modes runs.
\<close>

record trace_args =
  targ_config :: TraceConfig
  targ_icmp :: bool
  targ_host :: bytes

datatype trace_end = TraceExit nat | TraceOutcome bytes trace_result

text \<open>
  \<open>sock\<close> is false when the sockets cannot be opened; the other arguments are those of the modes.  The first part of
  \<open>TraceOutcome\<close> is the line printed before.  A mode that ends with an error (also \<open>TtlRefused\<close>) makes the program exit with 1.
\<close>

definition trace_banner :: "trace_args \<Rightarrow> inet_addr \<Rightarrow> bytes" where
  "trace_banner args target =
     ascii ''traceroute to '' @ targ_host args @ ascii '' ('' @ show_ip target @ ascii ''), '' @
     show_nat (unat (max_hops (targ_config args))) @ ascii '' hops max, '' @ show_nat (PROBE_PAYLOAD_SIZE + 8 + 20) @
     ascii '' byte packets'' @ [10]"

definition trace_main :: "(bytes \<Rightarrow> nat + inet_addr list) \<Rightarrow> bool \<Rightarrow> u16 \<Rightarrow> (u8 \<Rightarrow> bool) \<Rightarrow> (nat \<Rightarrow> instant) \<Rightarrow>
    (instant \<times> recv_result \<times> instant) list \<Rightarrow> trace_args \<Rightarrow> trace_end" where
  "trace_main to_socket_addrs sock ident set_ttl clk turns args =
     (case traceroute_resolve_host to_socket_addrs (targ_host args) of
        Inl _ \<Rightarrow> TraceExit 2
      | Inr target \<Rightarrow>
          if \<not> sock then TraceExit 1
          else let result = (if targ_icmp args then run_icmp ident set_ttl clk turns (targ_config args)
                             else run_udp set_ttl clk turns (targ_config args))
               in if result = TtlRefused then TraceExit 1 else TraceOutcome (trace_banner args target) result)"

text \<open>With a numeric address and the sockets, the hops that are printed are those of the mode.\<close>

lemma trace_main_numeric:
  assumes "targ_host args = show_ipv4 ip" "targ_icmp args"
    and "run_icmp ident set_ttl clk turns (targ_config args) = Reported ls"
  shows "trace_main to_socket_addrs True ident set_ttl clk turns args =
    TraceOutcome (trace_banner args (Inet4 ip 0)) (Reported ls)"
  using assms by (simp add: trace_main_def resolve_hosts_agree resolve_host_numeric Let_def)

end
