(* ===== verification/Dns_Types.thy ===== *)
theory Dns_Types
  imports Dns_Resolver_Correct
begin

text \<open>
  What kind of records the resolver returns: aliases, and after them records of the type that was asked for.  The
  invariant, that the cache files every record under its own key, is that of \<open>resolve_provenance\<close> with all facts
  allowed.
\<close>

definition is_alias :: "DnsRR \<Rightarrow> bool" where
  "is_alias rr = (\<exists>target. rr_data rr = CNAME target)"

definition answer_typed :: "u16 \<Rightarrow> DnsRR list \<Rightarrow> bool" where
  "answer_typed ty rrs = (\<exists>aliases rest. rrs = aliases @ rest \<and> list_all is_alias aliases \<and> list_all (\<lambda>rr. rr_type rr = ty) rest)"

lemma answer_typedI: "list_all is_alias aliases \<Longrightarrow> list_all (\<lambda>rr. rr_type rr = ty) rest \<Longrightarrow> answer_typed ty (aliases @ rest)"
  unfolding answer_typed_def by blast

lemma answer_typed_aliases: "list_all is_alias aliases \<Longrightarrow> answer_typed ty aliases"
  using answer_typedI [of aliases ty "[]"] by simp

lemma answer_typed_rest: "list_all (\<lambda>rr. rr_type rr = ty) rest \<Longrightarrow> answer_typed ty rest"
  using answer_typedI [of "[]" ty rest] by simp

text \<open>Records are filed under their own key, also by the other threads.\<close>

definition filed :: "dns_env \<Rightarrow> resolver \<Rightarrow> bool" where
  "filed e s = (cache_within UNIV (rs_cache s) \<and> others_within UNIV e)"

lemma cache_get_typed:
  assumes "filed e s" "fst (cache_get e name ty s) = Some rrs"
  shows "list_all (\<lambda>rr. rr_type rr = ty) rrs"
proof -
  have "rr_type (ce_rr en) = ty" if "en \<in> set (entries_at (rs_cache s) (to_ascii_lowercase name, ty, CLASS_IN))" for en
    using cache_withinD [OF _ that, of UNIV] assms(1) by (auto simp: filed_def rr_key_def)
  then show ?thesis
    using assms(2) by (auto simp: fst_cache_get fst_dns_get Let_def list_all_iff split: if_splits)
qed

lemma matching_typed: "list_all (\<lambda>rr. rr_type rr = ty) (extract_matching ans ty)"
  by (auto simp: extract_matching_def list_all_iff)

lemma find_cname_alias: "find_cname ans = Some rr \<Longrightarrow> is_alias rr"
  using cname_target_reachable by (auto simp: is_alias_def)

section \<open>A turn\<close>

fun turn_typed :: "u16 \<Rightarrow> (resolve_error + DnsRR list) + walk \<Rightarrow> bool" where
  "turn_typed ty (Inl (Inl err)) = True"
| "turn_typed ty (Inl (Inr rrs)) = answer_typed ty rrs"
| "turn_typed ty (Inr w) = list_all is_alias (wk_chain w)"

lemma answer_turn_typed:
  assumes "list_all is_alias (wk_chain w)"
  shows "turn_typed ty (fst (answer_turn e ty ans w s))"
  using assms matching_typed [of ty ans] find_cname_alias [of ans]
  by (auto simp: answer_turn_def Let_def answer_typedI answer_typed_aliases split: option.split prod.split sum.split)

lemma referral_turn_typed:
  assumes "list_all is_alias (wk_chain w)"
  shows "turn_typed ty (fst (referral_turn e deeper name ty auths adds w s))"
  using assms by (auto simp: referral_turn_def answer_typed_aliases split: option.split prod.split)

lemma resolve_turn_typed:
  assumes "filed e s" "list_all is_alias (wk_chain w)"
  shows "turn_typed ty (fst (resolve_turn e deeper name ty w s))"
  using cache_get_typed [OF assms(1), of "wk_name w" ty] answer_turn_typed [OF assms(2)]
    referral_turn_typed [OF assms(2)] assms(2)
  by (auto simp: resolve_turn_def answer_typedI split: option.split prod.split sum.split)

section \<open>A resolution\<close>

text \<open>The recursive calls that resolve name servers.\<close>

definition deeper_calls :: "dns_env \<Rightarrow> nat \<Rightarrow> bytes \<Rightarrow> DnsRR list lookup option" where
  "deeper_calls e depth ns =
     (if depth \<ge> MAX_GLUE_DEPTH then None else Some (\<lambda>s. resolve_iterative e (depth + 1) ns TYPE_A s))"

interpretation filing: resolver_safety e "filed e" "\<lambda>_. True" for e
  using provenance.resolver_safety_axioms [of e UNIV] by (simp add: filed_def [abs_def])

lemma deeper_calls_ok: "filing.deeper_ok e (deeper_calls e depth)"
  unfolding filing.deeper_ok_def deeper_calls_def
  by (auto split: if_splits dest: on_resultD [OF filing.resolve_iterative_keeps])

lemma resolve_loop_typed:
  assumes "filed e s" "list_all is_alias (wk_chain w)"
    and "fst (resolve_loop e (deeper_calls e depth) name ty n w s) = Inr rrs"
  shows "answer_typed ty rrs"
  using assms
proof (induction n arbitrary: w s)
  case (Suc n)
  let ?turn = "resolve_turn e (deeper_calls e depth) name ty w s"
  have keeps: "filing.turn_ok e ?turn"
    using filing.resolve_turn_ok [OF deeper_calls_ok Suc.prems(1), of w depth name ty] by (simp add: list_all_iff)
  note typed = resolve_turn_typed [OF Suc.prems(1,2), of ty "deeper_calls e depth" name]
  obtain r s' where turn: "?turn = (r, s')" by fastforce
  show ?case
  proof (cases r)
    case (Inl result)
    then show ?thesis using typed Suc.prems(3) turn by (cases result) simp_all
  next
    case (Inr w')
    then show ?thesis using typed keeps Suc.prems(3) turn by (intro Suc.IH [of s' w']) simp_all
  qed
qed simp

lemma resolve_iterative_typed:
  assumes "filed e s" "fst (resolve_iterative e depth name ty s) = Inr rrs"
  shows "answer_typed ty rrs"
proof -
  obtain r s' where ns: "get_nameservers e [46] s = (r, s')" by fastforce
  have s': "filed e s'" using filing.nameservers_keeps [OF assms(1), of "[46]"] ns by simp
  have "(\<lambda>ns. if depth \<ge> MAX_GLUE_DEPTH then None else Some (\<lambda>s. resolve_iterative e (depth + 1) ns TYPE_A s)) =
      deeper_calls e depth"
    by (simp add: deeper_calls_def fun_eq_iff)
  then show ?thesis
    using assms(2) unfolding resolve_iterative.simps [of e depth name ty s]
    by (auto simp: ns intro: resolve_loop_typed [OF s', rotated] split: sum.splits)
qed

text \<open>
  (C27) The answer is of the type asked for.  What \<^verbatim>\<open>resolve\<close> returns, from the cache or from servers,
  is a list of aliases (CNAME data) followed by records of the type asked for, when every record in the cache is filed under
  its own name, type and class, which also holds afterwards.
\<close>

theorem resolve_typed:
  assumes "cache_within UNIV (rs_cache s)" "others_within UNIV e"
  shows "answer_typed ty (fst (resolve e name ty s)) \<and> cache_within UNIV (rs_cache (snd (resolve e name ty s)))"
proof -
  let ?n = "to_ascii_lowercase name"
  have s: "filed e s" using assms by (simp add: filed_def)
  have kept: "filed e (snd (resolve e name ty s))" using filing.resolve_keeps [OF s] by simp
  obtain r s1 where get: "cache_get e ?n ty s = (r, s1)" by fastforce
  have s1: "filed e s1" using filing.get_keeps [OF s, of ?n ty] get by simp
  obtain b s2 where nx: "cache_is_nxdomain e ?n ty s1 = (b, s2)" by fastforce
  have s2: "filed e s2" using filing.is_nxdomain_keeps [OF s1, of ?n ty] nx by simp
  have "answer_typed ty (fst (resolve e name ty s))"
    using cache_get_typed [OF s, of ?n ty] resolve_iterative_typed [OF s2, of 0 ?n ty] get nx
    by (auto simp: resolve_def Let_def answer_typed_rest split: option.split bool.split prod.split sum.split)
  then show ?thesis using kept by (simp add: filed_def)
qed

theorem resolve_typed_witness:
  "answer_typed TYPE_NS (fst (resolve silent_env [46] TYPE_NS (start_resolver\<lparr>rs_cache := dns_put 0 root_ns dns_cache_new\<rparr>)))"
proof -
  have "cache_within UNIV (dns_put 0 root_ns dns_cache_new)"
    by (rule cache_within_put) (auto simp: cache_within_def)
  moreover have "others_within UNIV silent_env" by (simp add: others_within_def silent_env_def)
  ultimately show ?thesis
    using resolve_typed [of "start_resolver\<lparr>rs_cache := dns_put 0 root_ns dns_cache_new\<rparr>" silent_env TYPE_NS "[46]"] by simp
qed

end
