(* ===== verification/Dns_Server.thy ===== *)
theory Dns_Server
  imports Root_Hints
begin

text \<open>
  \<^verbatim>\<open>main\<close> of \<^verbatim>\<open>toolkit/dnsresolver/src/main.rs\<close>: the root servers are read into a new cache, and every
  datagram is handled by a thread of its own.

  A query comes with the environment of its thread and with what the threads that run already do to the cache until
  it starts.  The threads are listed in the order of their datagrams; what they do to the cache of one another is the part
  \<open>env_others\<close> of their environments.
\<close>

section \<open>The code\<close>

definition root_path :: "bytes \<Rightarrow> bytes \<Rightarrow> bytes" where
  "root_path manifest_dir root =
     (if starts_with (ascii ''/'') root then root else manifest_dir @ ascii ''/../'' @ root)"

record dns_query =
  dq_env :: dns_env
  dq_before :: "DnsCache \<Rightarrow> DnsCache"
  dq_datagram :: bytes

text \<open>
  The loop over the results of \<^verbatim>\<open>recv_from\<close>, an error or a datagram, of which 2048 bytes fit into the buffer: the
  datagrams that are sent back, one or none for each query.
\<close>

fun dns_recv_loop :: "(nat + dns_query) list \<Rightarrow> DnsCache \<Rightarrow> bytes option list \<times> DnsCache" where
  "dns_recv_loop [] c = ([], c)"
| "dns_recv_loop (Inl err # rest) c = dns_recv_loop rest c"
| "dns_recv_loop (Inr q # rest) c =
     (let (reply, s) = handle_query (dq_env q) (take 2048 (dq_datagram q)) \<lparr>rs_cache = dq_before q c, rs_ops = 0, rs_sent = []\<rparr>;
          (replies, c) = dns_recv_loop rest (rs_cache s)
      in (reply # replies, c))"

datatype dns_end = DnsExit nat | DnsPanic | DnsServing "bytes option list" DnsCache

definition dns_main :: "(bytes \<Rightarrow> bytes option) \<Rightarrow> (nat \<Rightarrow> instant) \<Rightarrow> bool \<Rightarrow> (nat + dns_query) list \<Rightarrow> bytes \<Rightarrow> bytes \<Rightarrow> dns_end" where
  "dns_main read_file clk bound received_datagrams manifest_dir root =
     (case read_file (root_path manifest_dir root) of
        None \<Rightarrow> DnsExit 1
      | Some content \<Rightarrow>
          (case load_root_hints clk content dns_cache_new of
             None \<Rightarrow> DnsPanic
           | Some c \<Rightarrow>
               if \<not> bound then DnsExit 1
               else let (replies, c) = dns_recv_loop received_datagrams c in DnsServing replies c))"

text \<open>
  The text of a datum, \<^verbatim>\<open>Display\<close> of \<^verbatim>\<open>message.rs\<close>; every IPv6 address is written as
  \<^verbatim>\<open>::\<close>.  The program does not print data.
\<close>

definition show_rdata :: "RData \<Rightarrow> bytes" where
  "show_rdata rdata =
     (case rdata of
        A ip \<Rightarrow>
          (case ip of (a, b, c, d) \<Rightarrow>
             show_nat (unat a) @ [46] @ show_nat (unat b) @ [46] @ show_nat (unat c) @ [46] @ show_nat (unat d))
      | AAAA _ \<Rightarrow> ascii ''::''
      | NS n \<Rightarrow> n
      | CNAME n \<Rightarrow> n
      | MX preference exchange \<Rightarrow> show_nat (unat preference) @ ascii '' '' @ exchange
      | SOA mname rname _ _ _ _ _ \<Rightarrow> mname @ ascii '' '' @ rname
      | Unknown d \<Rightarrow> ascii ''<'' @ show_nat (length d) @ ascii '' bytes>'')"

section \<open>The whole server makes nothing up\<close>

text \<open>A reply that states facts of \<open>K\<close> only.\<close>

definition reply_within :: "(cache_key \<times> RData) set \<Rightarrow> bytes option \<Rightarrow> bool" where
  "reply_within K reply =
     (\<forall>bs. reply = Some bs \<longrightarrow>
        (\<exists>query ans rc. bs = encode_message (build_response query ans rc) \<and> fact_of ` set ans \<subseteq> K))"

text \<open>What a query needs of the rest: servers and other threads bring facts of \<open>K\<close> only.\<close>

definition query_within :: "(cache_key \<times> RData) set \<Rightarrow> dns_query \<Rightarrow> bool" where
  "query_within K q =
     (fact_of ` received (dq_env q) \<subseteq> K \<and> others_within K (dq_env q) \<and>
      (\<forall>c. cache_within K c \<longrightarrow> cache_within K (dq_before q c)))"

text \<open>
  What threads do is a sequence of accesses to the cache.  Those that put in only facts of \<open>K\<close> are among the
  interference that a query can stand, and by \<open>handle_query_within\<close> below a query puts in no others.
\<close>

inductive thread_access :: "(cache_key \<times> RData) set \<Rightarrow> (DnsCache \<Rightarrow> DnsCache) \<Rightarrow> bool" for K where
  idle: "thread_access K (\<lambda>c. c)"
| lookup: "thread_access K f \<Longrightarrow> thread_access K (\<lambda>c. snd (dns_get now name ty cl (f c)))"
| put: "thread_access K f \<Longrightarrow> fact_of rr \<in> K \<Longrightarrow> thread_access K (\<lambda>c. dns_put now rr (f c))"
| negative: "thread_access K f \<Longrightarrow> thread_access K (\<lambda>c. put_nxdomain now name ty cl ttl (f c))"

lemma thread_access_within: "thread_access K f \<Longrightarrow> cache_within K c \<Longrightarrow> cache_within K (f c)"
  by (induction rule: thread_access.induct) (simp_all add: cache_within_get cache_within_put cache_within_put_nxdomain)

lemma others_within_access: "(\<And>k i. thread_access K (env_others e k i)) \<Longrightarrow> others_within K e"
  by (simp add: others_within_def oth_within_def thread_access_within)

lemma handle_query_within:
  assumes "cache_within K (rs_cache s)" "fact_of ` received e \<subseteq> K" "others_within K e"
  shows "reply_within K (fst (handle_query e data s)) \<and> cache_within K (rs_cache (snd (handle_query e data s)))"
proof -
  have K: "K \<union> fact_of ` received e = K" using assms(2) by blast
  have I: "cache_within (K \<union> fact_of ` received e) (rs_cache s) \<and> others_within (K \<union> fact_of ` received e) e"
    unfolding K using assms(1,3) by simp
  have within: "list_all (\<lambda>rr. fact_of rr \<in> K) (fst (fst (questions_loop e qs [] rc s))) \<and>
      cache_within K (rs_cache (snd (questions_loop e qs [] rc s)))" for qs rc
    using provenance.questions_loop_keeps [OF I, of "[]" qs rc] unfolding K by simp
  show ?thesis
  proof (cases "decode_message data")
    case None
    then show ?thesis using assms(1) by (simp add: handle_query_def reply_within_def)
  next
    case (Some query)
    then show ?thesis
      using within [of "questions query" RCODE_NOERROR]
      by (fastforce simp: handle_query_def reply_within_def case_prod_beta Let_def list_all_iff)
  qed
qed

lemma recv_loop_within:
  assumes "\<And>q. Inr q \<in> set qs \<Longrightarrow> query_within K q" "cache_within K c"
  shows "list_all (reply_within K) (fst (dns_recv_loop qs c)) \<and> cache_within K (snd (dns_recv_loop qs c))"
  using assms
proof (induction qs c rule: dns_recv_loop.induct)
  case (3 q rest c)
  have q: "query_within K q" using 3(2) by simp
  let ?r = "handle_query (dq_env q) (take 2048 (dq_datagram q)) \<lparr>rs_cache = dq_before q c, rs_ops = 0, rs_sent = []\<rparr>"
  have handled: "reply_within K (fst ?r) \<and> cache_within K (rs_cache (snd ?r))"
    using q 3(3) by (intro handle_query_within) (simp_all add: query_within_def)
  have "list_all (reply_within K) (fst (dns_recv_loop rest (rs_cache (snd ?r)))) \<and>
      cache_within K (snd (dns_recv_loop rest (rs_cache (snd ?r))))"
    using 3(1) [of ?r "fst ?r" "snd ?r"] 3(2) handled by simp
  then show ?case using handled by (simp add: case_prod_beta Let_def)
qed simp_all

text \<open>
  (C13) The whole server makes nothing up: from the start on, every record in a reply to any client, and every record in
  the shared cache, states a fact (name in lower case, type, class and data) of the file of root servers or of a message
  that some server sent to one of the threads, as long as the threads leave only such facts in one another's cache.
\<close>

theorem server_provenance:
  assumes "dns_main read_file clk bound qs manifest_dir root = DnsServing replies c"
    and "read_file (root_path manifest_dir root) = Some content"
    and "K = fact_of ` set (hint_records content) \<union> (\<Union>q \<in> {q. Inr q \<in> set qs}. fact_of ` received (dq_env q))"
    and "\<And>q c. Inr q \<in> set qs \<Longrightarrow> cache_within K c \<Longrightarrow> cache_within K (dq_before q c)"
    and "\<And>q. Inr q \<in> set qs \<Longrightarrow> others_within K (dq_env q)"
  shows "list_all (reply_within K) replies \<and> fact_of ` cached c \<subseteq> K"
proof -
  obtain c0 where c0: "load_root_hints clk content dns_cache_new = Some c0" and loop: "dns_recv_loop qs c0 = (replies, c)"
    using assms(1,2) by (auto simp: dns_main_def split: option.splits if_splits prod.splits)
  have "c0 = put_all clk quiet 0 (hint_records content) dns_cache_new"
    using root_hints_loaded [of clk content dns_cache_new "[]"] c0 by blast
  moreover have "cache_within K dns_cache_new" by (simp add: cache_within_def)
  ultimately have "cache_within K c0" using assms(3) by (auto intro!: cache_within_put_all simp: list_all_iff)
  moreover have "query_within K q" if "Inr q \<in> set qs" for q
    using that assms(3-5) unfolding query_within_def by blast
  ultimately show ?thesis
    using recv_loop_within [of qs K c0] cache_within_cached [of K c] by (simp add: loop)
qed

text \<open>A query for the servers of the root; other threads look names up and put a record of the hints in again.\<close>

definition busy_env :: dns_env where
  "busy_env = silent_env\<lparr>env_others := \<lambda>k i c.
     (case hint_records sample_hints of
        [] \<Rightarrow> c
      | rr # _ \<Rightarrow> dns_put 0 rr (snd (dns_get 0 [46] TYPE_NS CLASS_IN c)))\<rparr>"

definition sample_query :: dns_query where
  "sample_query = \<lparr>dq_env = busy_env, dq_before = \<lambda>c. c, dq_datagram = encode_message (query_message 5 [46] TYPE_NS)\<rparr>"

theorem server_provenance_witness:
  "\<exists>replies c. dns_main (\<lambda>_. Some sample_hints) (\<lambda>_. 0) True [Inr sample_query] [] [47] = DnsServing replies c \<and>
     length replies = 1 \<and> list_all (reply_within (fact_of ` set (hint_records sample_hints))) replies"
proof -
  obtain l1 l2 l3 where "str_lines sample_hints = [l1, l2, l3]" "hint_of_line l1 \<noteq> HintPanic"
      "hint_of_line l2 \<noteq> HintPanic" "hint_of_line l3 \<noteq> HintPanic"
    using sample_record_lines by force
  then obtain c0 where c0: "load_root_hints (\<lambda>_. 0) sample_hints dns_cache_new = Some c0"
    using hints_loop_put_all [of "str_lines sample_hints"] by (fastforce simp: load_root_hints_def)
  obtain replies c where loop: "dns_recv_loop [Inr sample_query] c0 = (replies, c)" by fastforce
  then have run: "dns_main (\<lambda>_. Some sample_hints) (\<lambda>_. 0) True [Inr sample_query] [] [47] = DnsServing replies c"
    by (simp add: dns_main_def c0)
  have "thread_access (fact_of ` set (hint_records sample_hints)) (env_others busy_env k i)" for k i
    by (cases "hint_records sample_hints")
      (simp_all add: busy_env_def thread_access.idle
        thread_access.put [OF thread_access.lookup [OF thread_access.idle]])
  then have busy: "others_within (fact_of ` set (hint_records sample_hints)) busy_env" by (rule others_within_access)
  have silent: "received busy_env = {}" by (simp add: received_def busy_env_def silent_env_def)
  from server_provenance [OF run, of sample_hints "fact_of ` set (hint_records sample_hints)"]
  have "list_all (reply_within (fact_of ` set (hint_records sample_hints))) replies"
    by (simp add: sample_query_def silent busy)
  moreover have "length replies = 1" using loop by (auto simp: Let_def split: prod.splits)
  ultimately show ?thesis using run by blast
qed

end
