(* ===== verification/Proxy_Start.thy ===== *)
theory Proxy_Start
  imports Net_Addr
begin

text \<open>
  \<^verbatim>\<open>my-proxy/src/config.rs\<close> and \<^verbatim>\<open>main.rs\<close>, and the listeners of
  \<^verbatim>\<open>inbounds/socks5.rs\<close> and \<^verbatim>\<open>inbounds/tproxy.rs\<close>: the proxy reads its configuration from environment
  variables and starts its listeners.  \<open>env\<close> is \<^verbatim>\<open>std::env::var\<close>: \<open>None\<close> for a variable that is not set or
  not UTF-8.
\<close>

section \<open>The code\<close>

record ProxyConfig =
  socks5_addr :: "inet_addr option"
  tproxy_addr :: "inet_addr option"
  idle_timeout :: duration

text \<open>\<^verbatim>\<open>.ok().map(|s| s.parse().expect(..))\<close>: the outer \<open>None\<close> is the panic.\<close>

definition parse_var :: "bytes option \<Rightarrow> inet_addr option option" where
  "parse_var var =
     (case var of
        None \<Rightarrow> Some None
      | Some s \<Rightarrow> (case parse_socket_addr s of None \<Rightarrow> None | Some a \<Rightarrow> Some (Some a)))"

definition from_env :: "(bytes \<Rightarrow> bytes option) \<Rightarrow> ProxyConfig option" where
  "from_env env =
     (case parse_var (env (ascii ''SOCKS5_ADDR'')) of
        None \<Rightarrow> None
      | Some socks5 \<Rightarrow>
          (case parse_var (env (ascii ''TPROXY_ADDR'')) of
             None \<Rightarrow> None
           | Some tproxy \<Rightarrow>
               let text = (case env (ascii ''UDP_IDLE_TIMEOUT'') of Some s \<Rightarrow> s | None \<Rightarrow> ascii ''30'');
                   secs = (case parse_uint U64_MAX text of Some n \<Rightarrow> n | None \<Rightarrow> 30)
               in Some \<lparr>socks5_addr = socks5, tproxy_addr = tproxy, idle_timeout = from_secs secs\<rparr>))"

text \<open>
  What \<^verbatim>\<open>main\<close> comes to: the tasks it has spawned when it waits for the interrupt, and the result of waiting.  What
  becomes of a task does not matter to it.
\<close>

datatype proxy_task = Socks5Task inet_addr duration | TproxyTask inet_addr

datatype proxy_end = ConfigPanic | Interrupted "proxy_task list" "nat + unit"

definition proxy_tasks :: "ProxyConfig \<Rightarrow> proxy_task list" where
  "proxy_tasks config =
     (case socks5_addr config of Some a \<Rightarrow> [Socks5Task a (idle_timeout config)] | None \<Rightarrow> []) @
     (case tproxy_addr config of Some a \<Rightarrow> [TproxyTask a] | None \<Rightarrow> [])"

definition proxy_main :: "(bytes \<Rightarrow> bytes option) \<Rightarrow> nat + unit \<Rightarrow> proxy_end" where
  "proxy_main env ctrl_c =
     (case from_env env of
        None \<Rightarrow> ConfigPanic
      | Some config \<Rightarrow> Interrupted (proxy_tasks config) ctrl_c)"

text \<open>
  A listener accepts connections until \<^verbatim>\<open>accept\<close> fails; each connection gets a task (\<open>handle_client\<close>,
  \<open>handle_tproxy_connection\<close>) whose errors are printed.  \<open>Some\<close> is the error it ends with, \<open>None\<close> that it waits for the next connection
  when the list of results ends.
\<close>

fun proxy_accept_loop :: "nat option list \<Rightarrow> nat option" where
  "proxy_accept_loop [] = None"
| "proxy_accept_loop (None # rest) = proxy_accept_loop rest"
| "proxy_accept_loop (Some err # rest) = Some err"

definition run_socks5_tcp :: "nat option \<Rightarrow> nat option list \<Rightarrow> nat option" where
  "run_socks5_tcp bind accepts = (case bind of Some err \<Rightarrow> Some err | None \<Rightarrow> proxy_accept_loop accepts)"

text \<open>The calls that make the transparent socket, each with its error; the first error ends the listener.\<close>

record tproxy_socket =
  ts_new :: "nat option"
  ts_nonblocking :: "nat option"
  ts_reuse_address :: "nat option"
  ts_transparent :: "nat option"
  ts_bind :: "nat option"
  ts_listen :: "nat option"
  ts_from_std :: "nat option"

fun first_error :: "nat option list \<Rightarrow> nat option" where
  "first_error [] = None"
| "first_error (Some err # calls) = Some err"
| "first_error (None # calls) = first_error calls"

definition run_tproxy_tcp :: "tproxy_socket \<Rightarrow> nat option list \<Rightarrow> nat option" where
  "run_tproxy_tcp s accepts =
     (case first_error [ts_new s, ts_nonblocking s, ts_reuse_address s, ts_transparent s, ts_bind s, ts_listen s, ts_from_std s] of
        Some err \<Rightarrow> Some err
      | None \<Rightarrow> proxy_accept_loop accepts)"

section \<open>Properties\<close>

text \<open>The environment that asks for given listeners.\<close>

definition proxy_environment :: "(ip4 \<times> u16) option \<Rightarrow> (ip4 \<times> u16) option \<Rightarrow> nat option \<Rightarrow> bytes \<Rightarrow> bytes option" where
  "proxy_environment socks5 tproxy secs var =
     (if var = ascii ''SOCKS5_ADDR'' then map_option (\<lambda>(ip, port). show_inet4 ip port) socks5
      else if var = ascii ''TPROXY_ADDR'' then map_option (\<lambda>(ip, port). show_inet4 ip port) tproxy
      else if var = ascii ''UDP_IDLE_TIMEOUT'' then map_option show_nat secs
      else None)"

lemma variable_names [simp]:
  "ascii ''TPROXY_ADDR'' \<noteq> ascii ''SOCKS5_ADDR''" "ascii ''UDP_IDLE_TIMEOUT'' \<noteq> ascii ''SOCKS5_ADDR''"
  "ascii ''UDP_IDLE_TIMEOUT'' \<noteq> ascii ''TPROXY_ADDR''"
  by (simp_all add: ascii_def)

lemma parse_var_show: "parse_var (map_option (\<lambda>(ip, port). show_inet4 ip port) a) = Some (map_option (\<lambda>(ip, port). Inet4 ip port) a)"
  by (cases a) (auto simp: parse_var_def parse_show_inet4)

lemma thirty: "ascii ''30'' = show_nat 30"
  by code_simp

text \<open>
  The proxy listens where it is told.  With the variables set to printed addresses and seconds, exactly the listeners
  asked for are started, SOCKS5 first, the idle time is that of the variable, 30 seconds without it, and the proxy
  runs until the interrupt, also without any listener.
\<close>

theorem proxy_listens:
  assumes "\<And>n. secs = Some n \<Longrightarrow> n \<le> U64_MAX"
  shows "proxy_main (proxy_environment socks5 tproxy secs) ctrl_c =
    Interrupted
      ((case socks5 of Some (ip, port) \<Rightarrow> [Socks5Task (Inet4 ip port) (from_secs (case secs of Some n \<Rightarrow> n | None \<Rightarrow> 30))]
        | None \<Rightarrow> []) @
       (case tproxy of Some (ip, port) \<Rightarrow> [TproxyTask (Inet4 ip port)] | None \<Rightarrow> [])) ctrl_c"
proof -
  have "parse_uint U64_MAX (case map_option show_nat secs of Some s \<Rightarrow> s | None \<Rightarrow> ascii ''30'') =
      Some (case secs of Some n \<Rightarrow> n | None \<Rightarrow> 30)"
    using assms by (auto simp: parse_show_nat thirty split: option.split)
  then show ?thesis
    by (auto simp: proxy_main_def from_env_def proxy_environment_def parse_var_show proxy_tasks_def Let_def split: option.split)
qed

theorem proxy_listens_witness:
  "proxy_main (proxy_environment (Some ((127, 0, 0, 1), 1080)) None (Some 5)) (Inr ()) =
     Interrupted [Socks5Task (Inet4 (127, 0, 0, 1) 1080) 5000000000] (Inr ())"
  using proxy_listens [of "Some 5" "Some ((127, 0, 0, 1), 1080)" None "Inr ()"] by (simp add: from_secs_def)

text \<open>
  An address that is no number with a port ends the proxy before anything is started; a time that is no number is
  taken as 30 seconds.
\<close>

lemma proxy_bad_address:
  assumes "env (ascii ''SOCKS5_ADDR'') = Some s \<or> env (ascii ''TPROXY_ADDR'') = Some s" "parse_socket_addr s = None"
  shows "proxy_main env ctrl_c = ConfigPanic"
  using assms by (auto simp: proxy_main_def from_env_def parse_var_def split: option.split)

lemma proxy_bad_time:
  assumes "from_env env = Some config" "env (ascii ''UDP_IDLE_TIMEOUT'') = Some s" "parse_uint U64_MAX s = None"
  shows "idle_timeout config = from_secs 30"
  using assms by (auto simp: from_env_def Let_def split: option.splits)

text \<open>A host name is no address; an address of IPv6 is written in brackets.\<close>

lemma proxy_address_samples:
  "parse_socket_addr (ascii ''localhost:1080'') = None" "parse_socket_addr (ascii ''127.0.0.1'') = None"
  "parse_socket_addr (ascii ''::1:1080'') = None" "parse_socket_addr (ascii ''127.0.0.01:1080'') = None"
  "parse_socket_addr (ascii ''[::1]:1080'') = Some (Inet6 [0, 0, 0, 0, 0, 0, 0, 1] 0 1080)"
  "parse_socket_addr (ascii ''[fe80::1%3]:80'') = Some (Inet6 [0xfe80, 0, 0, 0, 0, 0, 0, 1] 3 80)"
  "parse_socket_addr (ascii ''[1:2:3:4:5:6:7.8.9.10]:080'') = Some (Inet6 [1, 2, 3, 4, 5, 6, 0x708, 0x90a] 0 80)"
  by (simp_all add: reader_defs ascii_def u16_from_be_def) (simp_all add: eval_nat_numeral)

end
