(* ===== verification/Caddy_Start.thy ===== *)
theory Caddy_Start
  imports Http_Server_Correct Net_Addr "HOL-Library.Multiset"
begin

text \<open>
  \<^verbatim>\<open>minicaddy/src/main.rs\<close>, and \<^verbatim>\<open>run_all\<close> and \<^verbatim>\<open>run_http\<close> of
  \<^verbatim>\<open>inbounds/http.rs\<close>: the sites of the configuration become listeners, one task each, and the program waits for
  them in turn.

  \<open>world a\<close> is what the system does for a listener at \<open>a\<close>: whether the address can be bound, and the results of
  \<^verbatim>\<open>accept\<close>; where they end, the listener waits (\<open>Blocked\<close>).  What is done with a connection is
  \<open>serve_connection\<close>.
\<close>

section \<open>The code\<close>

fun accept_loop :: "bool list \<Rightarrow> unit outcome" where
  "accept_loop [] = Blocked"
| "accept_loop (accepted # rest) = (if accepted then accept_loop rest else Failed IoError)"

definition run_http :: "bool \<Rightarrow> bool list \<Rightarrow> unit outcome" where
  "run_http bound accepts = (if bound then accept_loop accepts else Failed IoError)"

text \<open>The loop over the groups: \<open>None\<close> is the panic on an address that cannot be parsed.\<close>

fun listeners_of :: "(bytes \<times> SiteConfig list) list \<Rightarrow> (inet_addr \<times> SiteConfig list) list option" where
  "listeners_of [] = Some []"
| "listeners_of ((addr, sites) # groups) =
     (case parse_socket_addr addr of
        None \<Rightarrow> None
      | Some a \<Rightarrow> map_option (\<lambda>ls. (a, sites) # ls) (listeners_of groups))"

text \<open>\<^verbatim>\<open>for h in handles { h.await.unwrap()?; }\<close>\<close>

fun await_all :: "unit outcome list \<Rightarrow> unit outcome" where
  "await_all [] = Done ()"
| "await_all (h # handles) = bind_outcome h (\<lambda>_. await_all handles)"

definition run_all :: "(inet_addr \<Rightarrow> bool \<times> bool list) \<Rightarrow> SiteConfig list \<Rightarrow> unit outcome" where
  "run_all world sites =
     (case listeners_of (group_sites sites hm_new) of
        None \<Rightarrow> Panicked
      | Some ls \<Rightarrow> await_all (map (\<lambda>(a, _). let (bound, accepts) = world a in run_http bound accepts) ls))"

text \<open>\<^verbatim>\<open>main\<close>: \<open>file\<close> is the text of \<^verbatim>\<open>./Caddyfile\<close>, if it can be read.\<close>

definition caddy_main :: "(bytes \<Rightarrow> rat option) \<Rightarrow> bytes option \<Rightarrow> (inet_addr \<Rightarrow> bool \<times> bool list) \<Rightarrow> unit outcome" where
  "caddy_main parse_f64 file world =
     (case file of
        None \<Rightarrow> Panicked
      | Some content \<Rightarrow>
          (case from_caddyfile parse_f64 content of
             None \<Rightarrow> Panicked
           | Some sites \<Rightarrow> run_all world sites))"

section \<open>The addresses of the sites\<close>

definition listens_anywhere :: "SiteConfig \<Rightarrow> bool" where
  "listens_anywhere s = (\<exists>port. listen_addr s = ascii ''0.0.0.0:'' @ port)"

lemma apply_line_addr: "apply_line f l s = Some s' \<Longrightarrow> listen_addr s' = listen_addr s"
  by (auto simp: apply_line_def apply_directive_def Let_def split: if_splits list.splits option.splits)

lemma apply_lines_addr: "apply_lines f ls s = Some s' \<Longrightarrow> listen_addr s' = listen_addr s"
  by (induction ls arbitrary: s) (auto dest: apply_line_addr split: option.splits)

lemma parse_block_addr: "parse_block f b = Some ss \<Longrightarrow> list_all listens_anywhere ss"
  by (auto simp: parse_block_def new_site_def listens_anywhere_def Let_def
      dest!: apply_lines_addr split: if_splits option.splits prod.splits)

lemma parse_blocks_addr: "parse_blocks f bs = Some ss \<Longrightarrow> list_all listens_anywhere ss"
  by (induction bs arbitrary: ss) (auto dest: parse_block_addr split: option.splits)

lemma from_caddyfile_addr: "from_caddyfile f content = Some sites \<Longrightarrow> list_all listens_anywhere sites"
  unfolding from_caddyfile_def by (rule parse_blocks_addr)

lemma anywhere: "ascii ''0.0.0.0:'' = show_ipv4 (0, 0, 0, 0) @ [58]"
  by (simp add: ascii_def show_nat_digit digit_char_def)

lemma read_octets_hd: "read_ipv4_addr s = Some (ip, rest) \<Longrightarrow> s = show_ipv4 ip @ rest"
  using read_ipv4_exact by blast

text \<open>An address of a site is parsed exactly when its port is written in digits and is less than \<open>2 ^ 16\<close>.\<close>

lemma parse_anywhere:
  "parse_socket_addr (ascii ''0.0.0.0:'' @ ds) = Some a \<longleftrightarrow> (\<exists>port. port_digits ds port \<and> a = Inet4 (0, 0, 0, 0) port)"
proof
  assume a: "parse_socket_addr (ascii ''0.0.0.0:'' @ ds) = Some a"
  have v4: "read_ipv4_addr (ascii ''0.0.0.0:'' @ ds) = Some ((0, 0, 0, 0), 58 # ds)"
    unfolding anywhere using read_ipv4_show [of "58 # ds" "(0, 0, 0, 0)"] by simp
  obtain n where "read_port (58 # ds) = Some (n, [])" "a = Inet4 (0, 0, 0, 0) n"
    using a v4
    by (auto simp: parse_socket_addr_def parse_with_def read_socket_addr_def read_socket_addr_v4_def read_socket_addr_v6_def
        strip_prefix_def starts_with_def ascii_def split: option.splits list.splits)
  then show "\<exists>port. port_digits ds port \<and> a = Inet4 (0, 0, 0, 0) port" using read_port_exact by auto
next
  assume "\<exists>port. port_digits ds port \<and> a = Inet4 (0, 0, 0, 0) port"
  then show "parse_socket_addr (ascii ''0.0.0.0:'' @ ds) = Some a"
    using parse_socket_v4_iff [of "ascii ''0.0.0.0:'' @ ds" "(0, 0, 0, 0)"] by (auto simp: anywhere)
qed

section \<open>The listeners\<close>

lemma insert_group:
  "mset (concat (map snd (hm_insert k ((case hm_get m k of None \<Rightarrow> [] | Some ss \<Rightarrow> ss) @ [s]) m))) =
     add_mset s (mset (concat (map snd m)))"
  unfolding hm_insert_def hm_get_def by (induction m) auto

lemma insert_keys: "fst ` set (hm_insert k v m) = insert k (fst ` set m)"
  unfolding hm_insert_def by (induction m) auto

lemma group_sites_all: "mset (concat (map snd (group_sites sites m))) = mset (concat (map snd m)) + mset sites"
  by (induction sites arbitrary: m) (simp_all add: insert_group)

lemma group_sites_keys: "fst ` set (group_sites sites m) = fst ` set m \<union> listen_addr ` set sites"
  by (induction sites arbitrary: m) (auto simp: insert_keys)

lemma listeners_of_some:
  "listeners_of groups = Some ls \<Longrightarrow>
     list_all2 (\<lambda>(addr, ss) (a, ss'). parse_socket_addr addr = Some a \<and> ss' = ss) groups ls"
  by (induction groups arbitrary: ls) (auto split: option.splits)

lemma listeners_of_none: "listeners_of groups = None \<longleftrightarrow> (\<exists>addr \<in> fst ` set groups. parse_socket_addr addr = None)"
  by (induction groups) (auto split: option.splits)

text \<open>The groups are those of the addresses, each once.\<close>

lemma group_sites_ok: "hm_ok m \<Longrightarrow> hm_ok (group_sites sites m)"
  by (induction sites arbitrary: m) (simp_all add: hm.ok_insert)

lemma group_sites_served:
  assumes "(addr, ss) \<in> set (group_sites sites hm_new)"
  shows "ss = filter (\<lambda>s. listen_addr s = addr) sites \<and> ss \<noteq> []"
proof -
  have "hm_get (group_sites sites hm_new) addr = Some ss"
    using hm_in_set_get [OF group_sites_ok [OF hm.ok_empty] assms] .
  then show ?thesis by (auto simp: group_sites_get hm_simps Let_def split: if_splits)
qed

lemma list_all2_snd: "list_all2 (\<lambda>(addr, ss) (a, ss'). P addr a \<and> ss' = ss) xs ys \<Longrightarrow> map snd ys = map snd xs"
  by (induction rule: list_all2_induct) auto

text \<open>
  (C33) Every site of a configuration is served.  The server starts exactly when the port of every site is written in
  digits and fits into 16 bits.  Then every site of the file belongs to exactly one listener, on all interfaces at its port,
  which serves the sites with the same address in the order of the file.
\<close>

theorem sites_listened:
  assumes "from_caddyfile parse_f64 content = Some sites"
  shows "(listeners_of (group_sites sites hm_new) \<noteq> None \<longleftrightarrow>
      (\<forall>s \<in> set sites. \<exists>ds port. listen_addr s = ascii ''0.0.0.0:'' @ ds \<and> port_digits ds port)) \<and>
    (\<forall>ls. listeners_of (group_sites sites hm_new) = Some ls \<longrightarrow>
      mset (concat (map snd ls)) = mset sites \<and>
      (\<forall>(a, ss) \<in> set ls. ss \<noteq> [] \<and> (\<exists>ds port. a = Inet4 (0, 0, 0, 0) port \<and> port_digits ds port \<and>
         ss = filter (\<lambda>s. listen_addr s = ascii ''0.0.0.0:'' @ ds) sites)))"
proof (intro conjI allI impI)
  let ?groups = "group_sites sites hm_new"
  note anywhere = from_caddyfile_addr [OF assms]
  have keys: "fst ` set ?groups = listen_addr ` set sites" by (simp add: group_sites_keys hm_new_def)
  have parsed: "parse_socket_addr (listen_addr s) \<noteq> None \<longleftrightarrow>
      (\<exists>ds port. listen_addr s = ascii ''0.0.0.0:'' @ ds \<and> port_digits ds port)" if "s \<in> set sites" for s
    using anywhere that parse_anywhere by (fastforce simp: list_all_iff listens_anywhere_def)
  show "listeners_of ?groups \<noteq> None \<longleftrightarrow>
      (\<forall>s \<in> set sites. \<exists>ds port. listen_addr s = ascii ''0.0.0.0:'' @ ds \<and> port_digits ds port)"
    using parsed by (simp add: listeners_of_none keys)
  fix ls assume "listeners_of ?groups = Some ls"
  note matched = listeners_of_some [OF this]
  show "mset (concat (map snd ls)) = mset sites"
    by (simp add: list_all2_snd [OF matched] group_sites_all) (simp add: hm_new_def)
  show "\<forall>(a, ss) \<in> set ls. ss \<noteq> [] \<and> (\<exists>ds port. a = Inet4 (0, 0, 0, 0) port \<and> port_digits ds port \<and>
      ss = filter (\<lambda>s. listen_addr s = ascii ''0.0.0.0:'' @ ds) sites)"
  proof clarify
    fix a ss assume "(a, ss) \<in> set ls"
    then obtain addr where addr: "(addr, ss) \<in> set ?groups" "parse_socket_addr addr = Some a"
      using matched by (fastforce simp: list_all2_conv_all_nth in_set_conv_nth)
    note served = group_sites_served [OF addr(1)]
    then obtain s where "s \<in> set sites" "listen_addr s = addr" by (metis (mono_tags) filter_empty_conv)
    then obtain ds where ds: "addr = ascii ''0.0.0.0:'' @ ds"
      using anywhere by (auto simp: list_all_iff listens_anywhere_def)
    then show "ss \<noteq> [] \<and> (\<exists>ds port. a = Inet4 (0, 0, 0, 0) port \<and> port_digits ds port \<and>
        ss = filter (\<lambda>s. listen_addr s = ascii ''0.0.0.0:'' @ ds) sites)"
      using addr(2) parse_anywhere served by blast
  qed
qed

text \<open>A file with one site on port 8080.\<close>

definition one_site_file :: bytes where
  "one_site_file = ascii '':8080 {'' @ [10, 125]"

lemma one_site_parsed: "map_option (map listen_addr) (from_caddyfile (\<lambda>_. None) one_site_file) = Some [ascii ''0.0.0.0:8080'']"
  by code_simp

theorem sites_listened_witness:
  "\<exists>sites a ss. from_caddyfile (\<lambda>_. None) one_site_file = Some sites \<and>
     listeners_of (group_sites sites hm_new) = Some [(a, ss)] \<and> mset ss = mset sites"
proof -
  obtain s where s: "from_caddyfile (\<lambda>_. None) one_site_file = Some [s]" "listen_addr s = ascii ''0.0.0.0:'' @ show_nat (unat (8080 :: u16))"
    using one_site_parsed by (auto simp: ascii_def show_nat_step show_nat_digit digit_char_def)
  then have "listeners_of (group_sites [s] hm_new) \<noteq> None"
    using sites_listened [OF s(1)] port_digits_show [of 8080] by auto
  then obtain ls where ls: "listeners_of (group_sites [s] hm_new) = Some ls" by blast
  then have "mset (concat (map snd ls)) = mset [s]" using sites_listened [OF s(1)] by blast
  moreover have "length ls = 1"
    using ls by (auto simp: hm_simps hm_insert_def hm_new_def split: option.splits)
  then obtain a ss where "ls = [(a, ss)]" by (cases ls) auto
  ultimately show ?thesis using s(1) ls by auto
qed

text \<open>
  A listener that fails is not noticed while an earlier one works: the program waits for the first task, whatever
  has become of the others.
\<close>

lemma listener_failure_unnoticed:
  assumes "listeners_of (group_sites sites hm_new) = Some ((a, ss) # ls)" "world a = (True, replicate n True)"
  shows "run_all world sites = Blocked"
proof -
  have "accept_loop (replicate n True) = Blocked" by (induction n) simp_all
  then show ?thesis using assms by (simp add: run_all_def run_http_def bind_outcome_def)
qed

end
